(* ===== verification/Prelude.thy ===== *)
theory Prelude
  imports Main "HOL-Library.Word"
begin

text \<open>
  Shared vocabulary of the development: the machine integer types of the i386 build, the
  collections of rewrite rules that the component theories fill and use, and the generic
  lemmas on words and lists that more than one component needs.  \<open>align\<close> is the one function
  of \<open>mem.h\<close>; it is used by the allocator, the pager and the early page mapper.
\<close>

unbundle bit_operations_syntax

section \<open>Machine integers\<close>

type_synonym u8 = "8 word"
type_synonym u16 = "16 word"
type_synonym u32 = "32 word"
type_synonym u64 = "64 word"

named_theorems addr_simps \<open>address arithmetic on 32-bit words that come from naturals\<close>
named_theorems step_simps \<open>defining equations used to run a model on a concrete input\<close>

section \<open>Results with errors\<close>

text \<open>
  A C function that can stop the machine, or whose behaviour the C standard leaves open, returns a
  sum: \<open>Inl\<close> the error, \<open>Inr\<close> the result.  \<open>rbind\<close> runs the rest of the function on a result and
  passes an error on.
\<close>

definition rbind :: "'e + 'a \<Rightarrow> ('a \<Rightarrow> 'e + 'b) \<Rightarrow> 'e + 'b" where
  "rbind m f = (case m of Inl e \<Rightarrow> Inl e | Inr x \<Rightarrow> f x)"

lemma rbind_simps [simp]:
  "rbind (Inl e) f = Inl e"
  "rbind (Inr x) f = f x"
  by (simp_all add: rbind_def)

lemma rbind_eq_Inr_iff: "rbind m f = Inr y \<longleftrightarrow> (\<exists>x. m = Inr x \<and> f x = Inr y)"
  by (cases m) simp_all

text \<open>
  The C loop \<^verbatim>\<open>for (; i < lim; i += stride) body\<close> on 32-bit unsigned counters.  It can run for ever when
  \<open>i\<close> wraps; not returning is \<open>None\<close>.
\<close>

partial_function (option) for_loop ::
  "u32 \<Rightarrow> (u32 \<Rightarrow> 's \<Rightarrow> 'e + 's) \<Rightarrow> u32 \<Rightarrow> u32 \<Rightarrow> 's \<Rightarrow> ('e + 's) option"
where
  "for_loop stride body i lim s =
     (if i < lim
      then (case body i s of
              Inl e \<Rightarrow> Some (Inl e)
            | Inr s' \<Rightarrow> for_loop stride body (i + stride) lim s')
      else Some (Inr s))"

declare for_loop.simps [code]

lemma for_loop_done: "\<not> i < lim \<Longrightarrow> for_loop stride body i lim s = Some (Inr s)"
  by (simp add: for_loop.simps)

lemma for_loop_step:
  "i < lim \<Longrightarrow> body i s = Inr s' \<Longrightarrow>
     for_loop stride body i lim s = for_loop stride body (i + stride) lim s'"
  by (subst for_loop.simps) simp

text \<open>The loop rule: an invariant indexed by the number of rounds run.\<close>

lemma for_loop_rule:
  assumes "I 0 s"
    and "\<And>j s. j < n \<Longrightarrow> I j s \<Longrightarrow> \<exists>s'. body (i + word_of_nat j * stride) s = Inr s' \<and> I (Suc j) s'"
    and "\<And>j. j < n \<Longrightarrow> i + word_of_nat j * stride < lim"
    and "\<not> i + word_of_nat n * stride < lim"
  shows "\<exists>s'. for_loop stride body i lim s = Some (Inr s') \<and> I n s'"
  using assms
proof (induction n arbitrary: i s I)
  case 0
  then show ?case by (simp add: for_loop_done)
next
  case (Suc n)
  obtain s1 where s1: "body i s = Inr s1" "I 1 s1"
    using Suc.prems(1) Suc.prems(2) [of 0 s] by auto
  have shift: "i + stride + word_of_nat j * stride = i + word_of_nat (Suc j) * stride" for j
    by (simp add: algebra_simps)
  have "\<exists>s'. for_loop stride body (i + stride) lim s1 = Some (Inr s') \<and> I (Suc n) s'"
  proof (rule Suc.IH [where I = "\<lambda>j. I (Suc j)"])
    show "I (Suc 0) s1" using s1(2) by simp
    show "\<And>j s. j < n \<Longrightarrow> I (Suc j) s \<Longrightarrow>
        \<exists>s'. body (i + stride + word_of_nat j * stride) s = Inr s' \<and> I (Suc (Suc j)) s'"
      unfolding shift by (rule Suc.prems(2)) simp_all
    show "\<And>j. j < n \<Longrightarrow> i + stride + word_of_nat j * stride < lim"
      unfolding shift by (rule Suc.prems(3)) simp
    show "\<not> i + stride + word_of_nat n * stride < lim"
      unfolding shift by (rule Suc.prems(4))
  qed
  then show ?case
    using for_loop_step [where body = body, OF _ s1(1)] Suc.prems(3) [of 0] by simp
qed

section \<open>Words that name addresses\<close>

lemma word_of_nat_eq_iff32 [addr_simps]:
  "a < 2 ^ 32 \<Longrightarrow> b < 2 ^ 32 \<Longrightarrow> (word_of_nat a = (word_of_nat b :: u32)) = (a = b)"
  by (simp add: word_unat_eq_iff unsigned_of_nat take_bit_nat_eq_self)

lemma word_of_nat_less_iff32:
  "a < 2 ^ 32 \<Longrightarrow> b < 2 ^ 32 \<Longrightarrow> (word_of_nat a < (word_of_nat b :: u32)) = (a < b)"
  by (simp add: word_less_nat_alt unsigned_of_nat take_bit_nat_eq_self)

lemma word_of_nat_le_iff32:
  "a < 2 ^ 32 \<Longrightarrow> b < 2 ^ 32 \<Longrightarrow> (word_of_nat a \<le> (word_of_nat b :: u32)) = (a \<le> b)"
  by (simp add: word_le_nat_alt unsigned_of_nat take_bit_nat_eq_self)

lemma unat_of_nat32:
  "a < 2 ^ 32 \<Longrightarrow> unat (word_of_nat a :: u32) = a"
  by (simp add: unsigned_of_nat take_bit_nat_eq_self)

lemma unat_mult_less:
  fixes a b :: "'a::len word"
  shows "unat a * unat b < 2 ^ LENGTH('a) \<Longrightarrow> unat (a * b) = unat a * unat b"
  by (simp add: unat_word_ariths)

lemma unat_add_less:
  fixes a b :: "'a::len word"
  shows "unat a + unat b < 2 ^ LENGTH('a) \<Longrightarrow> unat (a + b) = unat a + unat b"
  by (simp add: unat_word_ariths)

lemma unat_mult_less_64: "unat a * unat b < 2 ^ 64 \<Longrightarrow> unat (a * b :: u64) = unat a * unat b"
  by (rule unat_mult_less) simp

lemma unat_add_less_32: "unat a + unat b < 2 ^ 32 \<Longrightarrow> unat (a + b :: u32) = unat a + unat b"
  by (rule unat_add_less) simp

lemma unat_plus_one_less:
  fixes p lim :: "'a::len word"
  shows "unat p < unat lim \<Longrightarrow> unat (p + 1) = Suc (unat p)"
proof -
  assume less: "unat p < unat lim"
  have "unat lim < 2 ^ LENGTH('a)" by (rule unsigned_less)
  with less have "unat p + 1 < 2 ^ LENGTH('a)" by linarith
  then show ?thesis by (simp add: unat_word_ariths)
qed

lemma unat_sub_le:
  fixes a b :: "'a::len word"
  shows "b \<le> a \<Longrightarrow> unat (a - b) = unat a - unat b"
  by (simp add: unat_sub word_le_nat_alt)

lemma unat_drop_bit: "unat (drop_bit n v) = unat v div 2 ^ n"
  by (metis drop_bit_eq_div unat_drop_bit_eq)

lemma sint_small_32: "unat w < 2 ^ 31 \<Longrightarrow> sint (w :: u32) = int (unat w)"
proof -
  assume "unat w < 2 ^ 31"
  then have "uint w < 2 ^ 31"
    by (metis of_nat_less_iff of_nat_numeral of_nat_power uint_nat)
  then have "signed_take_bit 31 (uint w) = uint w"
    by (intro signed_take_bit_int_eq_self) (simp_all add: order_trans [OF _ uint_ge_0])
  then show ?thesis by (simp add: sint_uint flip: uint_nat)
qed

lemma unat_less_32: "unat (w :: u32) < 2 ^ 32"
  using unsigned_less [of w, where ?'a = nat] by simp

lemma unat_eq_word: "unat (w :: u32) = n \<Longrightarrow> w = word_of_nat n"
  using unat_less_32 [of w] unat_of_nat32 [of n] by (simp add: word_unat_eq_iff)

lemma unat_less_64: "unat (w :: u64) < 2 ^ 64"
  using unsigned_less [of w, where ?'a = nat] by simp

lemma unat_ucast_32_64 [simp]: "unat (ucast (w :: u32) :: u64) = unat w"
  using unat_less_32 [of w] by (simp add: unsigned_ucast_eq take_bit_nat_eq_self)

lemma unat_less_32_numeral [simp]: "unat (w :: u32) < 4294967296"
  using unat_less_32 [of w] by simp

lemma unat_mod_32 [simp]: "unat (w :: u32) mod 4294967296 = unat w"
  using unat_less_32 [of w] by simp

lemma unat_and_mask:
  fixes a :: "'a::len word"
  shows "unat (a AND mask k) = unat a mod 2 ^ k"
  by (metis take_bit_eq_mask take_bit_eq_mod unsigned_take_bit_eq)

lemma mask_fff: "(0xfff :: u32) = mask 12" "(0x3ff :: u32) = mask 10"
  by (simp_all add: mask_eq_exp_minus_1)

lemma and_not_mask_plus_and_mask:
  fixes a :: "'a::len word"
  shows "(a AND NOT (mask k)) + (a AND mask k) = a"
proof -
  have "(a AND NOT (mask k)) AND (a AND mask k) = 0"
    by (rule bit_word_eqI) (auto simp: bit_simps)
  then have "(a AND NOT (mask k)) + (a AND mask k) = (a AND NOT (mask k)) OR (a AND mask k)"
    by (rule disjunctive_add_eq_or)
  also have "\<dots> = a"
    by (rule bit_word_eqI) (auto simp: bit_simps)
  finally show ?thesis .
qed

lemma unat_and_not_mask:
  fixes a :: "'a::len word"
  shows "unat (a AND NOT (mask k)) = unat a div 2 ^ k * 2 ^ k"
proof -
  have "a AND NOT (mask k) = a - (a AND mask k)"
    using and_not_mask_plus_and_mask [of a k] by (metis add_diff_cancel_right')
  moreover have "a AND mask k \<le> a"
    by (simp add: word_and_le2)
  ultimately have "unat (a AND NOT (mask k)) = unat a - unat a mod 2 ^ k"
    by (simp add: unat_sub_le unat_and_mask)
  then show ?thesis
    by (simp add: minus_mod_eq_div_mult)
qed

lemma div_block: "r < m \<Longrightarrow> (q * m + r) div m = (q::nat)"
  by simp

lemma mod_block: "r < m \<Longrightarrow> (q * m + r) mod m = (r::nat)"
  by simp

lemma mod_mult_div: "n mod (m * c) div m = n div m mod (c::nat)"
  by (cases "m = 0") (simp_all add: mod_mult2_eq)

section \<open>\<open>mem.h\<close>: rounding an address up\<close>

text \<open>
  C: \<^verbatim>\<open>(addr & ~((uintptr_t)byte - 1)) + byte * ((addr & (byte - 1)) != 0)\<close>; the
  \<open>int\<close> parameter is converted to 32-bit unsigned by the usual arithmetic conversions.
\<close>

definition align :: "u32 \<Rightarrow> u32 \<Rightarrow> u32" where
  "align addr byte =
     (addr AND NOT (byte - 1)) + byte * (if addr AND (byte - 1) \<noteq> 0 then 1 else 0)"

lemma mask_eq_exp_minus: "(2 ^ k :: 'a::len word) - 1 = mask k"
  by (simp add: mask_eq_exp_minus_1)

lemma unat_align:
  assumes "k < 32" and "unat addr + 2 ^ k \<le> 2 ^ 32"
  shows "unat (align addr (2 ^ k)) = (unat addr + 2 ^ k - 1) div 2 ^ k * 2 ^ k"
proof -
  let ?q = "unat addr div 2 ^ k" and ?r = "unat addr mod 2 ^ k"
  have dm: "unat addr = ?q * 2 ^ k + ?r" by (rule div_mult_mod_eq [symmetric])
  have pw: "unat (2 ^ k :: u32) = 2 ^ k"
    using assms(1) by transfer simp
  have down: "unat (addr AND NOT (mask k)) = ?q * 2 ^ k"
    by (rule unat_and_not_mask)
  have rz: "(addr AND mask k = 0) = (?r = 0)"
    by (metis unat_and_mask unat_eq_zero)
  show ?thesis
  proof (cases "?r = 0")
    case True
    have "(unat addr + 2 ^ k - 1) div 2 ^ k = ?q"
    proof -
      have "unat addr + 2 ^ k - 1 = ?q * 2 ^ k + (2 ^ k - 1)"
        using True dm by simp
      then show ?thesis
        by (simp only:) (rule div_block, simp)
    qed
    then show ?thesis
      using True rz by (simp add: align_def mask_eq_exp_minus down)
  next
    case False
    have r: "?r < 2 ^ k" "0 < ?r" using False by auto
    have "?q * 2 ^ k + 2 ^ k < 2 ^ 32"
      using assms dm r by linarith
    then have "unat (align addr (2 ^ k)) = ?q * 2 ^ k + 2 ^ k"
      using False rz by (simp add: align_def mask_eq_exp_minus unat_add_less down pw)
    moreover have "(unat addr + 2 ^ k - 1) div 2 ^ k = ?q + 1"
    proof -
      have "unat addr + 2 ^ k - 1 = (?q + 1) * 2 ^ k + (?r - 1)"
        using dm r(2) by (simp only: add_mult_distrib mult_1)
      moreover have "?r - 1 < 2 ^ k" using r by linarith
      ultimately show ?thesis
        by (simp only: div_block)
    qed
    ultimately show ?thesis by simp
  qed
qed

end
