(* ===== verification/Arith.thy ===== *)
theory Arith
  imports Prelude
begin

text \<open>
  \<open>math.h\<close>: the table of powers of ten, the two integer logarithms and the 64-bit division
  by repeated multiplication that stands in for libgcc's.  The main results: the logarithms are
  exact, and \<open>div64\<close> is division as long as the first multiple of the divisor beyond the dividend
  still fits into 64 bits.  Where it does not fit the product wraps, and the loop either stops late
  with a wrong quotient or never stops.
\<close>

section \<open>Definitions\<close>

definition EXP10 :: "u64 list" where
  "EXP10 =
    [1,
     10,
     100,
     1000,
     10000,
     100000,
     1000000,
     10000000,
     100000000,
     1000000000,
     10000000000,
     100000000000,
     1000000000000,
     10000000000000,
     100000000000000,
     1000000000000000,
     10000000000000000,
     100000000000000000,
     1000000000000000000,
     10000000000000000000]"

definition ilog10u :: "u64 \<Rightarrow> nat" where
  "ilog10u v =
    (if v \<ge> EXP10 ! 19 then 19 else
     if v \<ge> EXP10 ! 18 then 18 else
     if v \<ge> EXP10 ! 17 then 17 else
     if v \<ge> EXP10 ! 16 then 16 else
     if v \<ge> EXP10 ! 15 then 15 else
     if v \<ge> EXP10 ! 14 then 14 else
     if v \<ge> EXP10 ! 13 then 13 else
     if v \<ge> EXP10 ! 12 then 12 else
     if v \<ge> EXP10 ! 11 then 11 else
     if v \<ge> EXP10 ! 10 then 10 else
     if v \<ge> EXP10 ! 9 then 9 else
     if v \<ge> EXP10 ! 8 then 8 else
     if v \<ge> EXP10 ! 7 then 7 else
     if v \<ge> EXP10 ! 6 then 6 else
     if v \<ge> EXP10 ! 5 then 5 else
     if v \<ge> EXP10 ! 4 then 4 else
     if v \<ge> EXP10 ! 3 then 3 else
     if v \<ge> EXP10 ! 2 then 2 else
     if v \<ge> EXP10 ! 1 then 1 else 0)"

text \<open>
  \<^verbatim>\<open>for (res = 0; b * res <= a; res++); return res - 1;\<close>  The product is a 64-bit product.
  \<open>None\<close> is a loop that does not return.
\<close>

partial_function (option) div64_loop :: "u64 \<Rightarrow> u64 \<Rightarrow> u64 \<Rightarrow> u64 option" where
  "div64_loop a b res = (if b * res \<le> a then div64_loop a b (res + 1) else Some (res - 1))"

declare div64_loop.simps [code]

definition div64 :: "u64 \<Rightarrow> u64 \<Rightarrow> u64 option" where
  "div64 a b = div64_loop a b 0"

text \<open>\<^verbatim>\<open>while (v >>= 1) i++;\<close>\<close>

function ilog2u_loop :: "u64 \<Rightarrow> nat \<Rightarrow> nat" where
  "ilog2u_loop v i = (if drop_bit 1 v \<noteq> 0 then ilog2u_loop (drop_bit 1 v) (Suc i) else i)"
  by pat_completeness auto
termination
proof (relation "measure (\<lambda>(v, i). unat v)")
  fix v :: u64 and i :: nat
  assume nz: "drop_bit 1 v \<noteq> 0"
  have "unat (drop_bit 1 v) = unat v div 2"
    using unat_drop_bit [of 1 v] by simp
  moreover have "unat v \<noteq> 0"
    using nz by (cases "v = 0") (auto simp: unat_eq_zero)
  ultimately show "((drop_bit 1 v, Suc i), v, i) \<in> measure (\<lambda>(v, i). unat v)"
    by simp
qed simp

declare ilog2u_loop.simps [simp del]

definition ilog2u :: "u64 \<Rightarrow> nat" where
  "ilog2u v = ilog2u_loop v 0"

section \<open>The table and the decimal logarithm\<close>

lemma length_EXP10 [simp]: "length EXP10 = 20"
  by (simp add: EXP10_def)

lemma EXP10_nth:
  assumes "j < 20"
  shows "unat (EXP10 ! j) = 10 ^ j"
proof -
  have "\<forall>j \<in> set [0..<20]. unat (EXP10 ! j) = 10 ^ j"
    by (simp add: EXP10_def upt_rec)
  then show ?thesis using assms by simp
qed

lemma EXP10_le_iff: "j < 20 \<Longrightarrow> (EXP10 ! j \<le> v) = (10 ^ j \<le> unat v)"
  by (simp add: word_le_nat_alt EXP10_nth)

lemma ilog10u_nat:
  "ilog10u v =
    (if unat v \<ge> 10 ^ 19 then 19 else if unat v \<ge> 10 ^ 18 then 18 else
     if unat v \<ge> 10 ^ 17 then 17 else if unat v \<ge> 10 ^ 16 then 16 else
     if unat v \<ge> 10 ^ 15 then 15 else if unat v \<ge> 10 ^ 14 then 14 else
     if unat v \<ge> 10 ^ 13 then 13 else if unat v \<ge> 10 ^ 12 then 12 else
     if unat v \<ge> 10 ^ 11 then 11 else if unat v \<ge> 10 ^ 10 then 10 else
     if unat v \<ge> 10 ^ 9 then 9 else if unat v \<ge> 10 ^ 8 then 8 else
     if unat v \<ge> 10 ^ 7 then 7 else if unat v \<ge> 10 ^ 6 then 6 else
     if unat v \<ge> 10 ^ 5 then 5 else if unat v \<ge> 10 ^ 4 then 4 else
     if unat v \<ge> 10 ^ 3 then 3 else if unat v \<ge> 10 ^ 2 then 2 else
     if unat v \<ge> 10 ^ 1 then 1 else 0)"
  unfolding ilog10u_def by (simp add: EXP10_le_iff del: power_numeral)

lemma ilog10u_less: "ilog10u v < 20"
  by (simp add: ilog10u_def)

lemma ilog10u_upper: "unat v < 10 ^ Suc (ilog10u v)"
proof -
  have "unat v < 10 ^ 20"
    using unat_less_64 [of v] by simp
  then show ?thesis
    by (simp add: ilog10u_nat)
qed

lemma ilog10u_lower: "v \<noteq> 0 \<Longrightarrow> 10 ^ ilog10u v \<le> unat v"
  by (simp add: ilog10u_nat unat_gt_0 Suc_le_eq)

section \<open>Division by repeated multiplication\<close>

lemma div64_loop_step:
  "b * res \<le> a \<Longrightarrow> div64_loop a b res = div64_loop a b (res + 1)"
  by (subst div64_loop.simps) simp

lemma div64_loop_stop:
  "\<not> b * res \<le> a \<Longrightarrow> div64_loop a b res = Some (res - 1)"
  by (subst div64_loop.simps) simp

text \<open>While the products do not wrap, the loop walks up to the first multiple beyond \<open>a\<close>.\<close>

lemma div64_loop_below:
  assumes "b \<noteq> 0" and "unat b * (unat a div unat b + 1) < 2 ^ 64"
    and "unat res \<le> unat a div unat b"
  shows "div64_loop a b res = Some (word_of_nat (unat a div unat b))"
  using assms(3)
proof (induction "unat a div unat b - unat res" arbitrary: res)
  case 0
  let ?q = "unat a div unat b"
  have bpos: "0 < unat b" using assms(1) by (simp add: unat_gt_0)
  have q: "unat res = ?q" using 0 by simp
  have q1: "?q + 1 < 2 ^ 64"
    using assms(2) bpos by (metis le_less_trans mult.commute mult_le_mono2 nat_mult_1_right Suc_leI One_nat_def)
  have r1: "unat (res + 1) = ?q + 1"
    using q q1 by (simp add: unat_add_less)
  have le: "b * res \<le> a"
    using assms(2) q by (simp add: word_le_nat_alt unat_mult_less)
  have "unat a < unat b * (?q + 1)"
    using bpos by (metis Suc_eq_plus1 dividend_less_times_div mult_Suc_right)
  moreover have "unat (b * (res + 1)) = unat b * (?q + 1)"
    using assms(2) by (simp only: unat_mult_less_64 r1)
  ultimately have "\<not> b * (res + 1) \<le> a"
    by (simp only: word_le_nat_alt not_le)
  with le have "div64_loop a b res = Some res"
    by (simp add: div64_loop_step div64_loop_stop)
  then show ?case
    by (simp flip: q)
next
  case (Suc n)
  let ?q = "unat a div unat b"
  have lt: "unat res < ?q" using Suc.hyps(2) by simp
  have "?q \<le> unat a" by (rule div_le_dividend)
  then have "unat res + 1 < 2 ^ 64"
    using lt unat_less_64 [of a] by linarith
  then have r1: "unat (res + 1) = unat res + 1"
    by (simp add: unat_add_less)
  have "unat b * unat res \<le> unat b * ?q"
    using lt by simp
  also have "\<dots> \<le> unat a" by (rule times_div_less_eq_dividend)
  finally have "b * res \<le> a"
    using unat_less_64 [of a] by (simp add: word_le_nat_alt unat_mult_less)
  moreover have "div64_loop a b (res + 1) = Some (word_of_nat ?q)"
    using Suc.hyps r1 lt by simp
  ultimately show ?case
    by (simp add: div64_loop_step)
qed

lemma div64_eq:
  assumes "b \<noteq> 0" and "unat b * (unat a div unat b + 1) < 2 ^ 64"
  shows "div64 a b = Some (a div b)"
proof -
  have "div64 a b = Some (word_of_nat (unat a div unat b))"
    using assms by (simp add: div64_def div64_loop_below)
  also have "word_of_nat (unat a div unat b) = a div b"
    by (simp add: word_arith_nat_div)
  finally show ?thesis .
qed

text \<open>If every multiple of \<open>b\<close>, taken modulo \<open>2 ^ 64\<close>, is at most \<open>a\<close>, nothing stops the loop.\<close>

lemma div64_loop_diverges:
  assumes "\<And>res. b * res \<le> a"
  shows "div64_loop a b res = None"
proof (rule ccontr)
  assume "div64_loop a b res \<noteq> None"
  then obtain y where "div64_loop a b res = Some y" by auto
  then have "\<not> (\<forall>res. b * res \<le> a)"
  proof (rule div64_loop.raw_induct [where P = "\<lambda>a b res y. \<not> (\<forall>res. b * res \<le> a)", rotated])
    fix f :: "u64 \<Rightarrow> u64 \<Rightarrow> u64 \<Rightarrow> u64 option" and a b res y
    assume "\<And>a b res y. f a b res = Some y \<Longrightarrow> \<not> (\<forall>res. b * res \<le> a)"
      and "(if b * res \<le> a then f a b (res + 1) else Some (res - 1)) = Some y"
    then show "\<not> (\<forall>res. b * res \<le> a)"
      by (auto split: if_splits)
  qed
  then show False using assms by blast
qed

section \<open>The binary logarithm\<close>

lemma ilog2u_loop_bounds:
  "v \<noteq> 0 \<Longrightarrow> i \<le> ilog2u_loop v i \<and>
     2 ^ (ilog2u_loop v i - i) \<le> unat v \<and> unat v < 2 ^ Suc (ilog2u_loop v i - i)"
proof (induction v i rule: ilog2u_loop.induct)
  case (1 v i)
  have half: "unat (drop_bit 1 v) = unat v div 2"
    using unat_drop_bit [of 1 v] by simp
  show ?case
  proof (cases "drop_bit 1 v \<noteq> 0")
    case True
    let ?l = "ilog2u_loop (drop_bit 1 v) (Suc i)"
    from 1(1) [OF True True] have "Suc i \<le> ?l"
      and "2 ^ (?l - Suc i) \<le> unat v div 2" and "unat v div 2 < 2 ^ Suc (?l - Suc i)"
      unfolding half by blast+
    moreover from \<open>Suc i \<le> ?l\<close> have "?l - i = Suc (?l - Suc i)" by simp
    ultimately show ?thesis
      using True by (simp add: ilog2u_loop.simps [of v i]) linarith
  next
    case False
    then have "unat v div 2 = 0" using half by simp
    moreover have "unat v \<noteq> 0" using "1.prems" by (simp add: unat_eq_zero)
    ultimately show ?thesis
      using False by (simp add: ilog2u_loop.simps [of v i])
  qed
qed

lemma ilog2u_0 [simp]: "ilog2u 0 = 0"
  by (simp add: ilog2u_def ilog2u_loop.simps)

lemma ilog2u_lower: "v \<noteq> 0 \<Longrightarrow> 2 ^ ilog2u v \<le> unat v"
  using ilog2u_loop_bounds [of v 0] by (simp add: ilog2u_def)

lemma ilog2u_upper: "unat v < 2 ^ Suc (ilog2u v)"
  using ilog2u_loop_bounds [of v 0] by (cases "v = 0") (simp_all add: ilog2u_def)

lemma ilog2u_less: "ilog2u v < 64"
proof (cases "v = 0")
  case False
  then have "2 ^ ilog2u v < (2::nat) ^ 64"
    using ilog2u_lower [of v] unat_less_64 [of v] by linarith
  then show ?thesis by (rule power_less_imp_less_exp [rotated]) simp
qed simp

end
