(* ===== verification/Printf.thy ===== *)
theory Printf
  imports Arith
begin

text \<open>
  \<open>_print.c\<close>: the format parser, the number printers and the \<open>printf\<close> loop that \<open>printk.c\<close> and
  \<open>init_printk.c\<close> include.  The file's only output is the macro \<open>VGA_PUTC\<close>; the model collects its
  arguments in order as a string, and theory \<open>Console\<close> feeds them to either console driver.

  An argument list is the list of 32-bit stack slots that the i386 calling convention passes; a
  64-bit argument is two slots, low half first.  A string argument is an address in \<open>cmem\<close>.
\<close>

section \<open>Data\<close>

datatype print_error =
    Diverges          \<comment> \<open>a loop of the source does not end\<close>
  | Undefined_shift   \<comment> \<open>\<open>1 << n\<close> on a 32-bit \<open>int\<close> with \<open>n\<close> at least 32\<close>
  | Out_of_bounds     \<comment> \<open>a digit table read beyond its 16 entries\<close>
  | No_argument       \<comment> \<open>\<open>va_arg\<close> beyond the last argument\<close>

type_synonym cmem = "u32 \<Rightarrow> char"
type_synonym va_list = "u32 list"

definition hex :: string where
  "hex = ''0123456789abcdef''"

definition Hex :: string where
  "Hex = ''0123456789ABCDEF''"

datatype format =
    FORMAT_INVALID
  | FORMAT_NONE
  | FORMAT_SHORT
  | FORMAT_SHORT_SHORT
  | FORMAT_LONG
  | FORMAT_LONG_LONG
  | FORMAT_SHORT_SHORT_INT
  | FORMAT_SHORT_INT
  | FORMAT_INT
  | FORMAT_LONG_INT
  | FORMAT_LONG_LONG_INT
  | FORMAT_SHORT_SHORT_UINT
  | FORMAT_SHORT_UINT
  | FORMAT_UINT
  | FORMAT_LONG_UINT
  | FORMAT_LONG_LONG_UINT
  | FORMAT_SHORT_SHORT_PTR
  | FORMAT_SHORT_PTR
  | FORMAT_PTR
  | FORMAT_LONG_PTR
  | FORMAT_LONG_LONG_PTR
  | FORMAT_SHORT_SHORT_OCT
  | FORMAT_SHORT_OCT
  | FORMAT_OCT
  | FORMAT_LONG_OCT
  | FORMAT_LONG_LONG_OCT
  | FORMAT_SHORT_SHORT_HEX
  | FORMAT_SHORT_HEX
  | FORMAT_HEX
  | FORMAT_LONG_HEX
  | FORMAT_LONG_LONG_HEX
  | FORMAT_SHORT_SHORT_BIG_HEX
  | FORMAT_SHORT_BIG_HEX
  | FORMAT_BIG_HEX
  | FORMAT_LONG_BIG_HEX
  | FORMAT_LONG_LONG_BIG_HEX
  | FORMAT_STR
  | FORMAT_ESCAPED_PERCENT

section \<open>The format parser\<close>

text \<open>
  One pass of the \<open>while\<close> loop: \<open>Continue\<close> where the source keeps \<open>reading_format\<close>, \<open>Done\<close> where it
  clears it.  A C string ends in NUL, which is what is read at its length.
\<close>

datatype parse_result = Continue format | Done format

definition NUL :: char where
  "NUL = CHR 0x00"

definition char_at :: "string \<Rightarrow> nat \<Rightarrow> char" where
  "char_at str i = (if i < length str then str ! i else NUL)"

definition parse_none :: "char \<Rightarrow> parse_result" where
  "parse_none c =
    (if c = CHR ''h'' then Continue FORMAT_SHORT
     else if c = CHR ''l'' then Continue FORMAT_LONG
     else if c = CHR ''d'' \<or> c = CHR ''i'' then Done FORMAT_INT
     else if c = CHR ''u'' then Done FORMAT_UINT
     else if c = CHR ''p'' then Done FORMAT_PTR
     else if c = CHR ''o'' then Done FORMAT_OCT
     else if c = CHR ''x'' then Done FORMAT_HEX
     else if c = CHR ''X'' then Done FORMAT_BIG_HEX
     else if c = CHR ''s'' then Done FORMAT_STR
     else if c = CHR ''%'' then Done FORMAT_ESCAPED_PERCENT
     else Done FORMAT_INVALID)"

definition parse_short :: "char \<Rightarrow> parse_result" where
  "parse_short c =
    (if c = CHR ''h'' then Continue FORMAT_SHORT_SHORT
     else if c = CHR ''d'' \<or> c = CHR ''i'' then Done FORMAT_SHORT_INT
     else if c = CHR ''u'' then Done FORMAT_SHORT_UINT
     else if c = CHR ''p'' then Done FORMAT_SHORT_PTR
     else if c = CHR ''o'' then Done FORMAT_SHORT_OCT
     else if c = CHR ''x'' then Done FORMAT_SHORT_HEX
     else if c = CHR ''X'' then Done FORMAT_SHORT_BIG_HEX
     else Done FORMAT_INVALID)"

definition parse_short_short :: "char \<Rightarrow> parse_result" where
  "parse_short_short c =
    (if c = CHR ''d'' \<or> c = CHR ''i'' then Done FORMAT_SHORT_SHORT_INT
     else if c = CHR ''u'' then Done FORMAT_SHORT_SHORT_UINT
     else if c = CHR ''p'' then Done FORMAT_SHORT_SHORT_PTR
     else if c = CHR ''o'' then Done FORMAT_SHORT_SHORT_OCT
     else if c = CHR ''x'' then Done FORMAT_SHORT_SHORT_HEX
     else if c = CHR ''X'' then Done FORMAT_SHORT_SHORT_BIG_HEX
     else Done FORMAT_INVALID)"

definition parse_long :: "char \<Rightarrow> parse_result" where
  "parse_long c =
    (if c = CHR ''l'' then Continue FORMAT_LONG_LONG
     else if c = CHR ''d'' \<or> c = CHR ''i'' then Done FORMAT_LONG_INT
     else if c = CHR ''u'' then Done FORMAT_LONG_UINT
     else if c = CHR ''p'' then Done FORMAT_LONG_PTR
     else if c = CHR ''o'' then Done FORMAT_LONG_OCT
     else if c = CHR ''x'' then Done FORMAT_LONG_HEX
     else if c = CHR ''X'' then Done FORMAT_LONG_BIG_HEX
     else Done FORMAT_INVALID)"

definition parse_long_long :: "char \<Rightarrow> parse_result" where
  "parse_long_long c =
    (if c = CHR ''d'' \<or> c = CHR ''i'' then Done FORMAT_LONG_LONG_INT
     else if c = CHR ''u'' then Done FORMAT_LONG_LONG_UINT
     else if c = CHR ''p'' then Done FORMAT_LONG_LONG_PTR
     else if c = CHR ''o'' then Done FORMAT_LONG_LONG_OCT
     else if c = CHR ''x'' then Done FORMAT_LONG_LONG_HEX
     else if c = CHR ''X'' then Done FORMAT_LONG_LONG_BIG_HEX
     else Done FORMAT_INVALID)"

text \<open>In a state without a case label the \<open>switch\<close> does nothing and the loop goes round again.\<close>

fun parse_step :: "format \<Rightarrow> char \<Rightarrow> parse_result" where
  "parse_step FORMAT_NONE c = parse_none c"
| "parse_step FORMAT_SHORT c = parse_short c"
| "parse_step FORMAT_SHORT_SHORT c = parse_short_short c"
| "parse_step FORMAT_LONG c = parse_long c"
| "parse_step FORMAT_LONG_LONG c = parse_long_long c"
| "parse_step st c = Continue st"

partial_function (option) parse_loop :: "string \<Rightarrow> nat \<Rightarrow> format \<Rightarrow> format option" where
  "parse_loop fmt i st =
    (case parse_step st (char_at fmt i) of
       Done f \<Rightarrow> Some f
     | Continue st' \<Rightarrow> parse_loop fmt (Suc i) st')"

declare parse_loop.simps [code]

definition parse_format :: "string \<Rightarrow> nat \<Rightarrow> format option" where
  "parse_format fmt i = parse_loop fmt i FORMAT_NONE"

section \<open>The number printers\<close>

text \<open>
  Every printer starts by reading the object at \<open>num_addr\<close> byte by byte, least significant first.
  \<open>bytes_of k w\<close> is what the object of size \<open>k\<close> with value \<open>w\<close> looks like in memory.
\<close>

definition bytes_of :: "nat \<Rightarrow> u64 \<Rightarrow> u8 list" where
  "bytes_of k w = map (\<lambda>i. ucast (drop_bit (8 * i) w)) [0..<k]"

primrec load_loop :: "nat \<Rightarrow> u64 \<Rightarrow> u8 list \<Rightarrow> u64" where
  "load_loop i num [] = num"
| "load_loop i num (b # bs) = load_loop (Suc i) (num OR push_bit (i * 8) (ucast b)) bs"

definition load_num :: "u8 list \<Rightarrow> u64" where
  "load_num bs = load_loop 0 0 bs"

text \<open>A read of one of the two 16-entry digit tables.\<close>

definition table_get :: "string \<Rightarrow> nat \<Rightarrow> print_error + char" where
  "table_get tab i = (if i < length tab then Inr (tab ! i) else Inl Out_of_bounds)"

text \<open>
  The body of the loop of \<open>_print_dec_unsigned\<close>: \<open>int digit = div64(num, EXP10[j])\<close> truncates the
  quotient to 32 bits and reads it as signed; a negative index is out of bounds as well.
\<close>

definition dec_digit :: "nat \<Rightarrow> u64 \<Rightarrow> print_error + (char \<times> u64)" where
  "dec_digit j num =
    (case div64 num (EXP10 ! j) of
       None \<Rightarrow> Inl Diverges
     | Some q \<Rightarrow>
         let digit = (ucast q :: u32) in
         if sint digit < 0 then Inl Out_of_bounds
         else rbind (table_get hex (nat (sint digit)))
                (\<lambda>c. Inr (c, num - scast digit * EXP10 ! j)))"

primrec dec_loop :: "nat \<Rightarrow> u64 \<Rightarrow> print_error + string" where
  "dec_loop 0 num = rbind (dec_digit 0 num) (\<lambda>(c, _). Inr [c])"
| "dec_loop (Suc j) num =
     rbind (dec_digit (Suc j) num) (\<lambda>(c, num'). rbind (dec_loop j num') (\<lambda>cs. Inr (c # cs)))"

definition print_dec_unsigned :: "u8 list \<Rightarrow> print_error + (int \<times> string)" where
  "print_dec_unsigned bs =
    (let num = load_num bs; j = ilog10u num
     in rbind (dec_loop j num) (\<lambda>out. Inr (int j + 1, out)))"

text \<open>The octal and hexadecimal loops count a shift \<open>j\<close> down in steps of 3 and 4.\<close>

function shift_loop :: "string \<Rightarrow> u64 \<Rightarrow> int \<Rightarrow> int \<Rightarrow> u64 \<Rightarrow> print_error + string" where
  "shift_loop tab msk w j num =
    (if 0 \<le> j \<and> 0 < w
     then rbind (table_get tab (unat (drop_bit (nat j) num AND msk)))
            (\<lambda>c. rbind (shift_loop tab msk w (j - w) num) (\<lambda>cs. Inr (c # cs)))
     else Inr [])"
  by pat_completeness auto
termination
  by (relation "measure (\<lambda>(tab, msk, w, j, num). nat (j + 1))") auto

declare shift_loop.simps [simp del]

definition print_oct :: "u8 list \<Rightarrow> print_error + (int \<times> string)" where
  "print_oct bs =
    (let num = load_num bs; j = int (ilog2u num) div 3 * 3
     in rbind (shift_loop hex 7 3 j num) (\<lambda>out. Inr (int (length out), out)))"

definition print_hex :: "u8 list \<Rightarrow> print_error + (int \<times> string)" where
  "print_hex bs =
    (let num = load_num bs; j = int (ilog2u num) AND NOT 3
     in rbind (shift_loop hex 15 4 j num) (\<lambda>out. Inr (drop_bit 2 j + 1, out)))"

definition print_Hex :: "u8 list \<Rightarrow> print_error + (int \<times> string)" where
  "print_Hex bs =
    (let num = load_num bs; j = int (ilog2u num) AND NOT 3
     in rbind (shift_loop Hex 15 4 j num) (\<lambda>out. Inr (drop_bit 2 j + 1, out)))"

text \<open>\<open>bytes += 2 + (sizeof(num) << 1)\<close>, where \<open>num\<close> is the 64-bit local.\<close>

definition print_ptr :: "u8 list \<Rightarrow> print_error + (int \<times> string)" where
  "print_ptr bs =
    (let num = load_num bs
     in rbind (shift_loop hex 15 4 (int (length bs) * 8 - 4) num)
          (\<lambda>out. Inr (2 + push_bit 1 8, CHR ''0'' # CHR ''x'' # out)))"

text \<open>
  \<open>1 << k\<close> on \<open>int\<close>, converted to 64 bits: GCC gives \<open>INT_MIN\<close> for \<open>k = 31\<close>, which sign-extends; a
  count of 32 or more is undefined.
\<close>

definition int_shift1 :: "nat \<Rightarrow> print_error + u64" where
  "int_shift1 k =
    (if k < 31 then Inr (push_bit k 1)
     else if k = 31 then Inr (- push_bit 31 1)
     else Inl Undefined_shift)"

definition dec_digit_signed :: "nat \<Rightarrow> u64 \<Rightarrow> print_error + (char \<times> u64)" where
  "dec_digit_signed j num =
    (case div64 num (EXP10 ! j) of
       None \<Rightarrow> Inl Diverges
     | Some q \<Rightarrow> rbind (table_get hex (unat q)) (\<lambda>c. Inr (c, num - q * EXP10 ! j)))"

primrec dec_loop_signed :: "nat \<Rightarrow> u64 \<Rightarrow> print_error + string" where
  "dec_loop_signed 0 num = rbind (dec_digit_signed 0 num) (\<lambda>(c, _). Inr [c])"
| "dec_loop_signed (Suc j) num =
     rbind (dec_digit_signed (Suc j) num)
       (\<lambda>(c, num'). rbind (dec_loop_signed j num') (\<lambda>cs. Inr (c # cs)))"

definition print_dec_signed :: "u8 list \<Rightarrow> print_error + (int \<times> string)" where
  "print_dec_signed bs =
    (let num = load_num bs; num_size = length bs
     in rbind (int_shift1 (num_size * 8 - 1)) (\<lambda>sbit.
          let neg = (num AND sbit \<noteq> 0);
              num1 = (if neg
                      then - (num OR (if num_size = 8 then 0 else push_bit (num_size * 8) (NOT 0)))
                      else num);
              j = ilog10u num1
          in rbind (dec_loop_signed j num1)
               (\<lambda>out. Inr ((if neg then 1 else 0) + (int j + 1),
                           (if neg then CHR ''-'' # out else out)))))"

section \<open>Conversions and the main loop\<close>

fun va_arg32 :: "va_list \<Rightarrow> print_error + (u32 \<times> va_list)" where
  "va_arg32 (w # ws) = Inr (w, ws)"
| "va_arg32 [] = Inl No_argument"

fun va_arg64 :: "va_list \<Rightarrow> print_error + (u64 \<times> va_list)" where
  "va_arg64 (lo # hi # ws) = Inr (ucast lo OR push_bit 32 (ucast hi), ws)"
| "va_arg64 _ = Inl No_argument"

text \<open>
  A \<open>case\<close> of \<open>_print_format\<close>: take the argument, narrow it to the union member of the given size,
  print it, and advance the format index beyond the length modifier.  The result is the byte count,
  the characters written, the advance of \<open>*i\<close> and the remaining arguments.
\<close>

type_synonym conv_result = "print_error + (int \<times> string \<times> nat \<times> va_list)"

definition conv32 ::
  "(u8 list \<Rightarrow> print_error + (int \<times> string)) \<Rightarrow> nat \<Rightarrow> nat \<Rightarrow> va_list \<Rightarrow> conv_result" where
  "conv32 printer sz adv args =
     rbind (va_arg32 args) (\<lambda>(w, args').
       rbind (printer (bytes_of sz (ucast w))) (\<lambda>(n, out). Inr (n, out, adv, args')))"

definition conv64 ::
  "(u8 list \<Rightarrow> print_error + (int \<times> string)) \<Rightarrow> nat \<Rightarrow> va_list \<Rightarrow> conv_result" where
  "conv64 printer adv args =
     rbind (va_arg64 args) (\<lambda>(w, args').
       rbind (printer (bytes_of 8 w)) (\<lambda>(n, out). Inr (n, out, adv, args')))"

text \<open>\<open>for ( ; *val.s; val.s++)\<close>; an unterminated string never ends the loop.\<close>

partial_function (option) read_str :: "cmem \<Rightarrow> u32 \<Rightarrow> string option" where
  "read_str m s =
    (if m s = NUL then Some [] else Option.bind (read_str m (s + 1)) (\<lambda>cs. Some (m s # cs)))"

declare read_str.simps [code]

definition conv_str :: "cmem \<Rightarrow> va_list \<Rightarrow> conv_result" where
  "conv_str m args =
     rbind (va_arg32 args) (\<lambda>(s, args').
       case read_str m s of
         None \<Rightarrow> Inl Diverges
       | Some out \<Rightarrow> Inr (int (length out), out, 0, args'))"

text \<open>The cases after the numerals: pointers, strings, the percent sign, and the default.\<close>

definition print_format_other :: "cmem \<Rightarrow> format \<Rightarrow> va_list \<Rightarrow> conv_result" where
  "print_format_other m f args =
    (case f of
       FORMAT_PTR \<Rightarrow> conv32 print_ptr 4 0 args
     | FORMAT_LONG_PTR \<Rightarrow> conv64 print_ptr 1 args
     | FORMAT_STR \<Rightarrow> conv_str m args
     | FORMAT_ESCAPED_PERCENT \<Rightarrow> Inr (1, ''%'', 0, args)
     | _ \<Rightarrow> Inr (3, ''???'', 0, args))"

definition print_format :: "cmem \<Rightarrow> string \<Rightarrow> nat \<Rightarrow> va_list \<Rightarrow> conv_result" where
  "print_format m fmt i args =
    (case parse_format fmt i of
       None \<Rightarrow> Inl Diverges
     | Some f \<Rightarrow>
        (case f of
           FORMAT_SHORT_SHORT_INT \<Rightarrow> conv32 print_dec_signed 1 2 args
         | FORMAT_SHORT_INT \<Rightarrow> conv32 print_dec_signed 2 1 args
         | FORMAT_INT \<Rightarrow> conv32 print_dec_signed 4 0 args
         | FORMAT_LONG_INT \<Rightarrow> conv64 print_dec_signed 1 args
         | FORMAT_LONG_LONG_INT \<Rightarrow> conv64 print_dec_signed 2 args
         | FORMAT_SHORT_SHORT_UINT \<Rightarrow> conv32 print_dec_unsigned 1 2 args
         | FORMAT_SHORT_UINT \<Rightarrow> conv32 print_dec_unsigned 2 1 args
         | FORMAT_UINT \<Rightarrow> conv32 print_dec_unsigned 4 0 args
         | FORMAT_LONG_UINT \<Rightarrow> conv64 print_dec_unsigned 1 args
         | FORMAT_LONG_LONG_UINT \<Rightarrow> conv64 print_dec_unsigned 2 args
         | FORMAT_SHORT_SHORT_OCT \<Rightarrow> conv32 print_oct 1 2 args
         | FORMAT_SHORT_OCT \<Rightarrow> conv32 print_oct 2 1 args
         | FORMAT_OCT \<Rightarrow> conv32 print_oct 4 0 args
         | FORMAT_LONG_OCT \<Rightarrow> conv64 print_oct 1 args
         | FORMAT_LONG_LONG_OCT \<Rightarrow> conv64 print_oct 2 args
         | FORMAT_SHORT_SHORT_HEX \<Rightarrow> conv32 print_hex 1 2 args
         | FORMAT_SHORT_HEX \<Rightarrow> conv32 print_hex 2 1 args
         | FORMAT_HEX \<Rightarrow> conv32 print_hex 4 0 args
         | FORMAT_LONG_HEX \<Rightarrow> conv64 print_hex 1 args
         | FORMAT_LONG_LONG_HEX \<Rightarrow> conv64 print_hex 2 args
         | FORMAT_SHORT_SHORT_BIG_HEX \<Rightarrow> conv32 print_Hex 1 2 args
         | FORMAT_SHORT_BIG_HEX \<Rightarrow> conv32 print_Hex 2 1 args
         | FORMAT_BIG_HEX \<Rightarrow> conv32 print_Hex 4 0 args
         | FORMAT_LONG_BIG_HEX \<Rightarrow> conv64 print_Hex 1 args
         | FORMAT_LONG_LONG_BIG_HEX \<Rightarrow> conv64 print_Hex 2 args
         | _ \<Rightarrow> print_format_other m f args))"

function print_loop ::
  "cmem \<Rightarrow> string \<Rightarrow> nat \<Rightarrow> bool \<Rightarrow> va_list \<Rightarrow> print_error + (int \<times> string)" where
  "print_loop m fmt i pattern args =
    (let c = char_at fmt i in
     if c = NUL then Inr (0, [])
     else if pattern then
       (case print_format m fmt i args of
          Inl e \<Rightarrow> Inl e
        | Inr (n, out, adv, args') \<Rightarrow>
            rbind (print_loop m fmt (i + adv + 1) False args')
              (\<lambda>(n', out'). Inr (n + n', out @ out')))
     else if c = CHR ''%'' then print_loop m fmt (i + 1) True args
     else rbind (print_loop m fmt (i + 1) False args)
            (\<lambda>(n', out'). Inr (1 + n', c # out')))"
  by pat_completeness auto
termination
  by (relation "measure (\<lambda>(m, fmt, i, pattern, args). length fmt - i)")
     (auto simp: char_at_def split: if_splits)

declare print_loop.simps [simp del]

definition print_fmt :: "cmem \<Rightarrow> string \<Rightarrow> va_list \<Rightarrow> print_error + (int \<times> string)" where
  "print_fmt m fmt args = print_loop m fmt 0 False args"

end
