(* ===== verification/Printf_Digits.thy ===== *)
theory Printf_Digits
  imports Printf
begin

text \<open>
  The number printers of \<open>_print.c\<close> against positional notation: \<open>digits b n\<close> is the numeral of \<open>n\<close>
  in base \<open>b\<close> without leading zeros, \<open>fixed_digits b k n\<close> the one with exactly \<open>k\<close> digits.
\<close>

section \<open>Positional notation\<close>

primrec fixed_digits :: "nat \<Rightarrow> nat \<Rightarrow> nat \<Rightarrow> nat list" where
  "fixed_digits b 0 n = []"
| "fixed_digits b (Suc k) n = (n div b ^ k mod b) # fixed_digits b k n"

fun digits :: "nat \<Rightarrow> nat \<Rightarrow> nat list" where
  "digits b n = (if b < 2 \<or> n < b then [n] else digits b (n div b) @ [n mod b])"

declare digits.simps [simp del]

definition numeral_string :: "string \<Rightarrow> nat \<Rightarrow> nat \<Rightarrow> string" where
  "numeral_string tab b n = map (\<lambda>d. tab ! d) (digits b n)"

fun digits_value :: "nat \<Rightarrow> nat list \<Rightarrow> nat" where
  "digits_value b [] = 0"
| "digits_value b (d # ds) = d * b ^ length ds + digits_value b ds"

lemma digits_value_snoc: "digits_value b (ds @ [d]) = digits_value b ds * b + d"
  by (induction ds) (simp_all add: algebra_simps)

lemma digits_value_digits: "digits_value b (digits b n) = n"
proof (induction b n rule: digits.induct)
  case (1 b n)
  then show ?case
    by (cases "b < 2 \<or> n < b") (simp_all add: digits.simps [of b n] digits_value_snoc)
qed

lemma digits_less:
  assumes "2 \<le> b"
  shows "\<forall>d \<in> set (digits b n). d < b"
  using assms
proof (induction b n rule: digits.induct)
  case (1 b n)
  then show ?case
    by (cases "n < b") (auto simp: digits.simps [of b n])
qed

lemma length_fixed_digits [simp]: "length (fixed_digits b k n) = k"
  by (induction k) simp_all

lemma fixed_digits_less: "0 < b \<Longrightarrow> d \<in> set (fixed_digits b k n) \<Longrightarrow> d < b"
  by (induction k) auto

lemma fixed_digits_snoc:
  "fixed_digits b (Suc k) n = fixed_digits b k (n div b) @ [n mod b]"
  by (induction k) (simp_all add: div_mult2_eq)

lemma fixed_digits_mod:
  "k \<le> m \<Longrightarrow> fixed_digits b k (n mod b ^ m) = fixed_digits b k n"
proof (induction k)
  case (Suc k)
  have "n mod b ^ m div b ^ k mod b = n div b ^ k mod b"
  proof -
    obtain r where m: "m = k + Suc r"
      using Suc.prems by (metis less_imp_Suc_add Suc_le_eq add_Suc_right)
    have "n mod b ^ m div b ^ k = n div b ^ k mod b ^ Suc r"
      by (simp only: m power_add mod_mult_div)
    then show ?thesis
      by (simp add: mod_mod_cancel)
  qed
  with Suc show ?case by simp
qed simp

lemma fixed_digits_eq_digits:
  assumes "2 \<le> b"
  shows "n < b ^ Suc k \<Longrightarrow> k = 0 \<or> b ^ k \<le> n \<Longrightarrow> fixed_digits b (Suc k) n = digits b n"
proof (induction k arbitrary: n)
  case 0
  then show ?case by (simp add: digits.simps)
next
  case (Suc k)
  have "b \<le> b ^ Suc k" using assms by simp
  then have nb: "b \<le> n" using Suc.prems(2) by linarith
  have up: "n div b < b ^ Suc k"
    using Suc.prems(1) by (simp add: less_mult_imp_div_less mult.commute)
  have lo: "k = 0 \<or> b ^ k \<le> n div b"
    using Suc.prems(2) assms by (auto simp: less_eq_div_iff_mult_less_eq mult.commute)
  have "fixed_digits b (Suc (Suc k)) n = fixed_digits b (Suc k) (n div b) @ [n mod b]"
    by (rule fixed_digits_snoc)
  also have "fixed_digits b (Suc k) (n div b) = digits b (n div b)"
    using up lo by (rule Suc.IH)
  finally show ?case
    using nb assms by (simp add: digits.simps [of b n])
qed

section \<open>Reading the object byte by byte\<close>

lemma length_bytes_of [simp]: "length (bytes_of k w) = k"
  by (simp add: bytes_of_def)

lemma bit_load_loop:
  assumes "k \<le> 8"
  shows "i \<le> k \<Longrightarrow>
    bit (load_loop i num (map (\<lambda>i. ucast (drop_bit (8 * i) w)) [i..<k])) n =
    (bit num n \<or> (8 * i \<le> n \<and> n < 8 * k \<and> bit w n))"
proof (induction "k - i" arbitrary: i num)
  case 0
  then show ?case by auto
next
  case (Suc d)
  then have ik: "i < k" by simp
  then have up: "[i..<k] = i # [Suc i..<k]" by (simp add: upt_rec)
  let ?num' = "num OR push_bit (i * 8) (ucast (ucast (drop_bit (8 * i) w) :: u8))"
  have IH: "bit (load_loop (Suc i) ?num' (map (\<lambda>i. ucast (drop_bit (8 * i) w)) [Suc i..<k])) n =
    (bit ?num' n \<or> (8 * Suc i \<le> n \<and> n < 8 * k \<and> bit w n))"
    using Suc.hyps ik by simp
  have "bit ?num' n = (bit num n \<or> (8 * i \<le> n \<and> n < 8 * Suc i \<and> bit w n))"
    using ik assms
    by (auto simp: bit_simps mult.commute dest: bit_imp_le_length)
  then show ?case
    unfolding up using IH ik by auto
qed

lemma load_num_bytes_of: "k \<le> 8 \<Longrightarrow> load_num (bytes_of k w) = take_bit (8 * k) w"
  by (rule bit_word_eqI)
     (use bit_load_loop [of k 0 0 w] in \<open>auto simp: load_num_def bytes_of_def bit_simps\<close>)

lemma load_num_bytes_of_8 [simp]: "load_num (bytes_of 8 w) = w"
  by (simp add: load_num_bytes_of take_bit_word_beyond_length_eq)

lemma load_num_bytes_of_4 [simp]: "load_num (bytes_of 4 (ucast (v :: u32))) = ucast v"
  by (rule bit_word_eqI) (auto simp: load_num_bytes_of bit_simps dest: bit_imp_le_length)

lemma load_num_bytes_of_2: "load_num (bytes_of 2 (ucast (v :: u32))) = ucast (ucast v :: u16)"
  by (rule bit_word_eqI) (auto simp: load_num_bytes_of bit_simps dest: bit_imp_le_length)

lemma load_num_bytes_of_1: "load_num (bytes_of 1 (ucast (v :: u32))) = ucast (ucast v :: u8)"
  by (rule bit_word_eqI) (auto simp: load_num_bytes_of bit_simps dest: bit_imp_le_length)

section \<open>Decimal\<close>

lemma length_hex [simp]: "length hex = 16" "length Hex = 16"
  by (simp_all add: hex_def Hex_def)

lemma div64_EXP10:
  assumes "unat num < 10 ^ Suc j" and "j < 19"
  shows "div64 num (EXP10 ! j) = Some (num div EXP10 ! j)"
proof (rule div64_eq)
  have e: "unat (EXP10 ! j) = 10 ^ j"
    using assms(2) by (simp add: EXP10_nth)
  then show "EXP10 ! j \<noteq> 0"
    by (metis power_eq_0_iff unat_eq_zero zero_neq_numeral)
  have "unat num div 10 ^ j < 10"
    using assms(1) by (simp add: less_mult_imp_div_less)
  then have "10 ^ j * (unat num div 10 ^ j + 1) \<le> (10 ^ j * 10 :: nat)"
    by (intro mult_le_mono) auto
  also have "\<dots> \<le> 10 ^ 19"
    using assms(2) by (metis Suc_leI power_Suc2 power_increasing one_le_numeral)
  finally show "unat (EXP10 ! j) * (unat num div unat (EXP10 ! j) + 1) < 2 ^ 64"
    by (simp add: e)
qed

lemma dec_step_arith:
  assumes "unat num < 10 ^ Suc j" and "j < 19"
  shows "unat (num div EXP10 ! j) = unat num div 10 ^ j"
    and "unat num div 10 ^ j < 10"
    and "num - num div EXP10 ! j * EXP10 ! j = num mod EXP10 ! j"
    and "unat (num mod EXP10 ! j) = unat num mod 10 ^ j"
  using assms
  by (simp_all add: unat_div unat_mod EXP10_nth less_mult_imp_div_less minus_div_mult_eq_mod)

lemma dec_step_table:
  fixes num :: u64
  assumes "unat num < 10 ^ Suc j" and "j < 19"
  shows "table_get hex (unat num div 10 ^ j) = Inr (hex ! (unat num div 10 ^ j))"
proof -
  have "unat num div 10 ^ j < length hex"
    using dec_step_arith(2) [OF assms] by (simp only: length_hex)
  then show ?thesis by (simp only: table_get_def if_True)
qed

lemma dec_digit_ok:
  assumes "unat num < 10 ^ Suc j" and "j < 19"
  shows "dec_digit j num = Inr (hex ! (unat num div 10 ^ j), num mod EXP10 ! j)"
proof -
  let ?q = "num div EXP10 ! j"
  let ?d = "ucast ?q :: u32"
  have q: "unat ?q < 10"
    using dec_step_arith(1,2) [OF assms] by simp
  have ud: "unat ?d = unat ?q"
    using q by (simp add: unsigned_ucast_eq take_bit_nat_eq_self)
  have sd: "sint ?d = int (unat ?q)"
    using q ud by (simp add: sint_small_32)
  have sq: "scast ?d = ?q"
    by (simp add: scast_eq sd)
  show ?thesis
    by (simp add: dec_digit_def div64_EXP10 [OF assms] Let_def sd sq
        dec_step_table [OF assms] dec_step_arith [OF assms])
qed

lemma dec_digit_signed_ok:
  assumes "unat num < 10 ^ Suc j" and "j < 19"
  shows "dec_digit_signed j num = Inr (hex ! (unat num div 10 ^ j), num mod EXP10 ! j)"
  by (simp add: dec_digit_signed_def div64_EXP10 [OF assms] dec_step_table [OF assms]
      dec_step_arith [OF assms])

text \<open>Both loops print exactly \<open>j + 1\<close> digits.\<close>

lemma dec_step_next:
  assumes "unat num < 10 ^ Suc (Suc j)" and "Suc j < 19"
  shows "unat (num mod EXP10 ! Suc j) < 10 ^ Suc j"
    and "map ((!) hex) (fixed_digits 10 (Suc (Suc j)) (unat num)) =
         hex ! (unat num div 10 ^ Suc j) #
         map ((!) hex) (fixed_digits 10 (Suc j) (unat (num mod EXP10 ! Suc j)))"
proof -
  have m: "unat (num mod EXP10 ! Suc j) = unat num mod 10 ^ Suc j"
    using assms by (rule dec_step_arith(4))
  then show "unat (num mod EXP10 ! Suc j) < 10 ^ Suc j" by simp
  have "unat num div 10 ^ Suc j < 10"
    using assms by (rule dec_step_arith(2))
  then show "map ((!) hex) (fixed_digits 10 (Suc (Suc j)) (unat num)) =
         hex ! (unat num div 10 ^ Suc j) #
         map ((!) hex) (fixed_digits 10 (Suc j) (unat (num mod EXP10 ! Suc j)))"
    unfolding m by (simp only: fixed_digits_mod [OF order_refl])
      (simp only: fixed_digits.simps(2) [of 10 "Suc j"] list.map mod_less)
qed

lemma dec_loop_ok:
  "unat num < 10 ^ Suc j \<Longrightarrow> j < 19 \<Longrightarrow>
     dec_loop j num = Inr (map ((!) hex) (fixed_digits 10 (Suc j) (unat num)))"
proof (induction j arbitrary: num)
  case 0
  then show ?case using dec_digit_ok [of num 0] by simp
next
  case (Suc j)
  then show ?case
    using dec_digit_ok [of num "Suc j"] dec_step_next [of num j] by simp
qed

lemma dec_loop_signed_ok:
  "unat num < 10 ^ Suc j \<Longrightarrow> j < 19 \<Longrightarrow>
     dec_loop_signed j num = Inr (map ((!) hex) (fixed_digits 10 (Suc j) (unat num)))"
proof (induction j arbitrary: num)
  case 0
  then show ?case using dec_digit_signed_ok [of num 0] by simp
next
  case (Suc j)
  then show ?case
    using dec_digit_signed_ok [of num "Suc j"] dec_step_next [of num j] by simp
qed

lemma ilog10u_digits:
  "fixed_digits 10 (Suc (ilog10u v)) (unat v) = digits 10 (unat v)"
proof (rule fixed_digits_eq_digits)
  show "ilog10u v = 0 \<or> 10 ^ ilog10u v \<le> unat v"
    by (cases "v = 0") (simp_all add: ilog10u_lower ilog10u_nat)
qed (simp, rule ilog10u_upper)

lemma ilog10u_length: "length (digits 10 (unat v)) = Suc (ilog10u v)"
  by (metis ilog10u_digits length_fixed_digits)

lemma ilog10u_less_19: "unat v < 10 ^ 19 \<Longrightarrow> ilog10u v < 19"
  by (simp add: ilog10u_nat)

lemma print_dec_unsigned_ok:
  assumes "unat (load_num bs) < 10 ^ 19"
  shows "print_dec_unsigned bs =
    (let s = numeral_string hex 10 (unat (load_num bs)) in Inr (int (length s), s))"
  using dec_loop_ok [OF ilog10u_upper ilog10u_less_19 [OF assms]]
  by (simp add: print_dec_unsigned_def Let_def ilog10u_digits numeral_string_def ilog10u_length
      del: fixed_digits.simps)

section \<open>Octal and hexadecimal\<close>

lemma shift_digit:
  "unat (drop_bit (w * i) num AND mask w) = unat num div (2 ^ w) ^ i mod 2 ^ w"
  by (simp add: unat_and_mask unat_drop_bit power_mult)

lemma shift_loop_ok:
  assumes "0 < w" and "2 ^ w \<le> length tab"
  shows "shift_loop tab (mask w) (int w) (int (w * i)) num =
     Inr (map ((!) tab) (fixed_digits (2 ^ w) (Suc i) (unat num)))"
proof (induction i)
  case 0
  have "unat num mod 2 ^ w < length tab"
    using assms(2) by (meson less_le_trans mod_less_divisor zero_less_numeral zero_less_power)
  then show ?case
    using assms(1) shift_digit [of w 0 num]
    by (subst shift_loop.simps) (simp add: table_get_def shift_loop.simps [of tab _ _ "- int w"])
next
  case (Suc i)
  have j: "int (w * Suc i) - int w = int (w * i)"
    by (simp add: algebra_simps)
  have "unat num div (2 ^ w) ^ Suc i mod 2 ^ w < length tab"
    using assms(2) by (meson less_le_trans mod_less_divisor zero_less_numeral zero_less_power)
  then have "table_get tab (unat (drop_bit (w * Suc i) num AND mask w)) =
      Inr (tab ! (unat num div (2 ^ w) ^ Suc i mod 2 ^ w))"
    by (simp only: table_get_def shift_digit if_True)
  then have "shift_loop tab (mask w) (int w) (int (w * Suc i)) num =
      rbind (shift_loop tab (mask w) (int w) (int (w * i)) num)
        (\<lambda>cs. Inr (tab ! (unat num div (2 ^ w) ^ Suc i mod 2 ^ w) # cs))"
    using assms(1) by (subst shift_loop.simps) (simp only: j nat_int of_nat_0_le_iff of_nat_0_less_iff if_True simp_thms rbind_simps)
  then show ?case
    by (simp only: Suc.IH rbind_simps) (simp only: fixed_digits.simps(2) list.map)
qed

lemma ilog2u_digits:
  assumes "0 < w"
  shows "fixed_digits (2 ^ w) (Suc (ilog2u v div w)) (unat v) = digits (2 ^ w) (unat v)"
proof (rule fixed_digits_eq_digits)
  let ?l = "ilog2u v"
  show "(2::nat) \<le> 2 ^ w"
    using assms by (metis One_nat_def Suc_leI power_increasing power_one_right one_le_numeral)
  have "?l < w * Suc (?l div w)"
    using assms by (rule dividend_less_times_div [THEN less_le_trans]) simp
  then have "(2::nat) ^ Suc ?l \<le> 2 ^ (w * Suc (?l div w))"
    by (intro power_increasing) auto
  then show "unat v < (2 ^ w) ^ Suc (?l div w)"
    using ilog2u_upper [of v] by (simp only: power_mult [symmetric])
  show "?l div w = 0 \<or> (2 ^ w) ^ (?l div w) \<le> unat v"
  proof (cases "v = 0")
    case False
    have "(2::nat) ^ (w * (?l div w)) \<le> 2 ^ ?l"
      by (intro power_increasing) auto
    then show ?thesis
      using ilog2u_lower [OF False] by (simp add: power_mult)
  qed simp
qed

lemma shift_loop_digits:
  assumes "0 < w" and "2 ^ w \<le> length tab"
  shows "shift_loop tab (mask w) (int w) (int (w * (ilog2u v div w))) v =
     Inr (numeral_string tab (2 ^ w) (unat v))"
  using shift_loop_ok [OF assms] ilog2u_digits [OF assms(1)]
  by (simp only: numeral_string_def)

lemma masks: "(7 :: u64) = mask 3" "(15 :: u64) = mask 4"
  by (simp_all add: mask_eq_exp_minus_1)

lemma oct_start: "int n div 3 * 3 = int (3 * (n div 3))"
  by (simp add: zdiv_int)

lemma hex_start: "int n AND - 4 = int (4 * (n div 4))"
proof -
  have "(int n AND NOT (mask 2)) + (int n AND mask 2) = (int n AND NOT (mask 2)) OR (int n AND mask 2)"
    by (rule disjunctive_add_eq_or) (rule bit_eqI, auto simp: bit_simps)
  also have "\<dots> = int n"
    by (rule bit_eqI) (auto simp: bit_simps)
  finally have "int n AND NOT (mask 2) = int n - int n mod 4"
    by (simp flip: take_bit_eq_mask add: take_bit_eq_mod)
  then show ?thesis
    by (simp add: mask_eq_exp_minus_1 zdiv_int minus_mod_eq_mult_div)
qed

end
