(* ===== verification/Printf_Spec.thy ===== *)
theory Printf_Spec
  imports Printf_Digits
begin

text \<open>
  What \<open>printk\<close> is meant to print, and the proof that \<open>_print\<close> prints it.  A format is a list of
  pieces (\<open>render\<close> writes it as the C string), and \<open>denote\<close> gives the text for an argument list in
  ordinary arithmetic.  \<open>denote\<close> is \<open>None\<close> where the code has no defined answer: a missing argument,
  a 64-bit signed conversion, a 64-bit unsigned decimal of \<open>10 ^ 19\<close> or more, and the modifiers that
  \<open>%p\<close> parses but does not print.
\<close>

section \<open>Formats and their meaning\<close>

datatype len_mod = L_none | L_h | L_hh | L_l | L_ll
datatype conv = C_d | C_i | C_u | C_p | C_o | C_x | C_X
datatype piece = Text char | Num len_mod conv | Str | Percent

fun mod_chars :: "len_mod \<Rightarrow> string" where
  "mod_chars L_none = []"
| "mod_chars L_h = ''h''"
| "mod_chars L_hh = ''hh''"
| "mod_chars L_l = ''l''"
| "mod_chars L_ll = ''ll''"

fun conv_char :: "conv \<Rightarrow> char" where
  "conv_char C_d = CHR ''d''"
| "conv_char C_i = CHR ''i''"
| "conv_char C_u = CHR ''u''"
| "conv_char C_p = CHR ''p''"
| "conv_char C_o = CHR ''o''"
| "conv_char C_x = CHR ''x''"
| "conv_char C_X = CHR ''X''"

fun render_piece :: "piece \<Rightarrow> string" where
  "render_piece (Text c) = [c]"
| "render_piece (Num l c) = CHR ''%'' # mod_chars l @ [conv_char c]"
| "render_piece Str = ''%s''"
| "render_piece Percent = ''%%''"

definition render :: "piece list \<Rightarrow> string" where
  "render ps = concat (map render_piece ps)"

definition plain_text :: "piece list \<Rightarrow> bool" where
  "plain_text ps = (\<forall>c. Text c \<in> set ps \<longrightarrow> c \<noteq> CHR ''%'' \<and> c \<noteq> NUL)"

fun width :: "len_mod \<Rightarrow> nat" where
  "width L_none = 32"
| "width L_h = 16"
| "width L_hh = 8"
| "width L_l = 64"
| "width L_ll = 64"

text \<open>The value a conversion reads: the next slot, or two of them, cut to the width of the type.\<close>

fun arg_value :: "len_mod \<Rightarrow> va_list \<Rightarrow> (nat \<times> va_list) option" where
  "arg_value l args =
    (if width l = 64
     then (case args of lo # hi # rest \<Rightarrow> Some (unat lo + 2 ^ 32 * unat hi, rest) | _ \<Rightarrow> None)
     else (case args of w # rest \<Rightarrow> Some (unat w mod 2 ^ width l, rest) | _ \<Rightarrow> None))"

definition signed_value :: "nat \<Rightarrow> nat \<Rightarrow> int" where
  "signed_value k n = (if n < 2 ^ (k - 1) then int n else int n - 2 ^ k)"

definition decimal_int :: "int \<Rightarrow> string" where
  "decimal_int z =
    (if z < 0 then CHR ''-'' # numeral_string hex 10 (nat (- z)) else numeral_string hex 10 (nat z))"

definition pointer_string :: "nat \<Rightarrow> nat \<Rightarrow> string" where
  "pointer_string k n = CHR ''0'' # CHR ''x'' # map ((!) hex) (fixed_digits 16 (k div 4) n)"

fun denote_num :: "len_mod \<Rightarrow> conv \<Rightarrow> nat \<Rightarrow> string option" where
  "denote_num l C_d n = (if width l = 64 then None else Some (decimal_int (signed_value (width l) n)))"
| "denote_num l C_i n = (if width l = 64 then None else Some (decimal_int (signed_value (width l) n)))"
| "denote_num l C_u n = (if n < 10 ^ 19 then Some (numeral_string hex 10 n) else None)"
| "denote_num l C_p n = (if l = L_none \<or> l = L_l then Some (pointer_string (width l) n) else None)"
| "denote_num l C_o n = Some (numeral_string hex 8 n)"
| "denote_num l C_x n = Some (numeral_string hex 16 n)"
| "denote_num l C_X n = Some (numeral_string Hex 16 n)"

fun denote_piece :: "cmem \<Rightarrow> piece \<Rightarrow> va_list \<Rightarrow> (string \<times> va_list) option" where
  "denote_piece m (Text c) args = Some ([c], args)"
| "denote_piece m (Num l c) args =
    (case arg_value l args of
       None \<Rightarrow> None
     | Some (n, rest) \<Rightarrow> map_option (\<lambda>s. (s, rest)) (denote_num l c n))"
| "denote_piece m Str args =
    (case args of [] \<Rightarrow> None | a # rest \<Rightarrow> map_option (\<lambda>s. (s, rest)) (read_str m a))"
| "denote_piece m Percent args = Some (''%'', args)"

fun denote :: "cmem \<Rightarrow> piece list \<Rightarrow> va_list \<Rightarrow> string option" where
  "denote m [] args = Some []"
| "denote m (p # ps) args =
    (case denote_piece m p args of
       None \<Rightarrow> None
     | Some (s, rest) \<Rightarrow> map_option (\<lambda>s'. s @ s') (denote m ps rest))"

text \<open>How much the returned count exceeds the number of characters: 8 for every \<open>%p\<close>.\<close>

definition overcount_piece :: "piece \<Rightarrow> int" where
  "overcount_piece p = (if p = Num L_none C_p then 8 else 0)"

definition overcount :: "piece list \<Rightarrow> int" where
  "overcount ps = sum_list (map overcount_piece ps)"

section \<open>Each printer computes its numeral\<close>

lemma print_oct_ok:
  "print_oct bs = (let s = numeral_string hex 8 (unat (load_num bs)) in Inr (int (length s), s))"
proof -
  have "shift_loop hex 7 3 (int (ilog2u (load_num bs)) div 3 * 3) (load_num bs) =
      Inr (numeral_string hex 8 (unat (load_num bs)))"
    using shift_loop_digits [of 3 hex "load_num bs"] by (simp add: oct_start masks)
  then show ?thesis
    by (simp add: print_oct_def Let_def)
qed

lemma hex_count:
  assumes "length tab = 16"
  shows "int (length (numeral_string tab 16 (unat v))) = drop_bit 2 (int (ilog2u v)) + 1"
proof -
  have "digits 16 (unat v) = fixed_digits 16 (Suc (ilog2u v div 4)) (unat v)"
    using ilog2u_digits [of 4 v] by (simp del: fixed_digits.simps)
  then have "length (numeral_string tab 16 (unat v)) = Suc (ilog2u v div 4)"
    by (simp add: numeral_string_def del: fixed_digits.simps)
  then show ?thesis
    by (simp add: drop_bit_eq_div zdiv_int)
qed

lemma shift_loop_hex:
  assumes "length tab = 16"
  shows "shift_loop tab 15 4 (int (ilog2u v) AND - 4) v = Inr (numeral_string tab 16 (unat v))"
  using shift_loop_digits [of 4 tab v] assms by (simp add: masks hex_start)

lemma print_hex_ok:
  "print_hex bs = (let s = numeral_string hex 16 (unat (load_num bs)) in Inr (int (length s), s))"
  by (simp add: print_hex_def Let_def shift_loop_hex hex_count)

lemma print_Hex_ok:
  "print_Hex bs = (let s = numeral_string Hex 16 (unat (load_num bs)) in Inr (int (length s), s))"
  by (simp add: print_Hex_def Let_def shift_loop_hex hex_count)

lemma print_ptr_ok:
  assumes "0 < length bs"
  shows "print_ptr bs = Inr (18, pointer_string (8 * length bs) (unat (load_num bs)))"
proof -
  obtain k where k: "2 * length bs = Suc k" using assms by (cases "2 * length bs") auto
  then have j: "int (length bs) * 8 - 4 = 4 * int k" by linarith
  show ?thesis
    using shift_loop_ok [of 4 hex k "load_num bs"] k
    by (simp add: j print_ptr_def Let_def masks pointer_string_def del: fixed_digits.simps)
qed

lemma bit_top:
  assumes "unat w < 2 ^ Suc j"
  shows "bit w j = (2 ^ j \<le> unat w)"
proof -
  have "bit w j = odd (unat w div 2 ^ j)"
    using bit_iff_odd [of "unat w" j] by (simp add: bit_unsigned_iff)
  moreover have "unat w div 2 ^ j < 2"
    using assms by (simp add: less_mult_imp_div_less)
  ultimately have "bit w j = (unat w div 2 ^ j = 1)"
    by (metis One_nat_def even_zero less_2_cases odd_one)
  also have "\<dots> = (0 < unat w div 2 ^ j)"
    using \<open>unat w div 2 ^ j < 2\<close> by linarith
  also have "\<dots> = (2 ^ j \<le> unat w)"
    by (simp add: div_greater_zero_iff)
  finally show ?thesis .
qed

lemma sign_test:
  assumes "k = 8 \<or> k = 16 \<or> k = 32" and "unat num < 2 ^ k" and "int_shift1 (k - 1) = Inr sbit"
  shows "(num AND sbit \<noteq> 0) = (2 ^ (k - 1) \<le> unat num)"
proof (cases "k = 32")
  case True
  then have "sbit = NOT (mask 31)"
    using assms(3) by (simp add: int_shift1_def mask_eq_exp_minus_1 not_eq_complement)
  then have "(num AND sbit = 0) = (unat num div 2 ^ 31 = 0)"
    by (metis unat_and_not_mask unat_eq_zero mult_eq_0_iff power_eq_0_iff zero_neq_numeral)
  then show ?thesis
    using True by (auto simp: div_eq_0_iff not_less)
next
  case False
  then have "sbit = 2 ^ (k - 1)"
    using assms(1,3) by (auto simp: int_shift1_def push_bit_eq_mult)
  then have "(num AND sbit \<noteq> 0) = bit num (k - 1)"
    by (simp add: and_exp_eq_0_iff_not_bit)
  then show ?thesis
    using bit_top [of num "k - 1"] assms(1,2) by auto
qed

lemma negated:
  assumes "k < 64" and "unat (num :: u64) < 2 ^ k" and "0 < unat num"
  shows "unat (- (num OR push_bit k (NOT 0))) = 2 ^ k - unat num"
proof -
  have small: "num AND push_bit k (NOT 0) = 0"
  proof (rule bit_word_eqI)
    fix n :: nat
    have "bit num n \<Longrightarrow> n < k"
      using assms(2) by (metis bit_take_bit_iff take_bit_nat_eq_self unsigned_take_bit_eq
          unsigned_word_eqI)
    then show "bit (num AND push_bit k (NOT 0)) n = bit (0 :: u64) n"
      by (auto simp: bit_simps)
  qed
  have "num OR push_bit k (NOT 0) = num + push_bit k (NOT 0)"
    by (rule disjunctive_add_eq_or [OF small, symmetric])
  also have "\<dots> = num - 2 ^ k"
    by (simp add: push_bit_eq_mult)
  finally have "- (num OR push_bit k (NOT 0)) = 2 ^ k - num"
    by (simp only: minus_diff_eq)
  moreover have "unat (2 ^ k :: u64) = 2 ^ k"
    using assms(1) by transfer simp
  moreover from this have "num \<le> 2 ^ k"
    using assms(2) by (simp add: word_le_nat_alt)
  ultimately show ?thesis by (simp add: unat_sub_le)
qed

lemma decimal_signed:
  assumes "n < 2 ^ k"
  shows "decimal_int (signed_value k n) =
    (if 2 ^ (k - 1) \<le> n then CHR ''-'' # numeral_string hex 10 (2 ^ k - n)
     else numeral_string hex 10 n)"
proof (cases "2 ^ (k - 1) \<le> n")
  case True
  have "- (int n - 2 ^ k) = int (2 ^ k - n)"
    using assms by (simp add: of_nat_diff)
  then have "nat (- (int n - 2 ^ k)) = 2 ^ k - n"
    by (simp only: nat_int)
  moreover have "int n - 2 ^ k < 0"
    using assms by (metis diff_less_0_iff_less of_nat_less_iff of_nat_numeral of_nat_power)
  ultimately show ?thesis
    using True by (simp add: decimal_int_def signed_value_def del: minus_diff_eq)
qed (simp add: decimal_int_def signed_value_def)

lemma print_dec_signed_ok:
  assumes "length bs = 1 \<or> length bs = 2 \<or> length bs = 4"
    and "unat (load_num bs) < 2 ^ (8 * length bs)"
  shows "print_dec_signed bs =
    (let s = decimal_int (signed_value (8 * length bs) (unat (load_num bs)))
     in Inr (int (length s), s))"
proof -
  let ?k = "8 * length bs" and ?num = "load_num bs"
  have k: "?k = 8 \<or> ?k = 16 \<or> ?k = 32" using assms(1) by auto
  then obtain sbit where sb: "int_shift1 (?k - 1) = Inr sbit"
    by (auto simp: int_shift1_def)
  have neg: "(?num AND sbit \<noteq> 0) = (2 ^ (?k - 1) \<le> unat ?num)"
    using k assms(2) sb by (rule sign_test)
  define num1 where "num1 = (if 2 ^ (?k - 1) \<le> unat ?num
     then - (?num OR push_bit (length bs * 8) (NOT 0)) else ?num)"
  have n1: "unat num1 = (if 2 ^ (?k - 1) \<le> unat ?num then 2 ^ ?k - unat ?num else unat ?num)"
  proof (cases "2 ^ (?k - 1) \<le> unat ?num")
    case True
    then have "0 < unat ?num" by (metis gr0I le_zero_eq power_eq_0_iff zero_neq_numeral)
    moreover have "?k < 64" using k by auto
    ultimately show ?thesis
      using True negated [of ?k ?num] assms(2) by (simp add: num1_def mult.commute)
  qed (simp add: num1_def)
  have "(2::nat) ^ ?k \<le> 2 ^ 32"
    using k by (intro power_increasing) auto
  then have "unat num1 < 10 ^ 19"
    using n1 assms(2) by (auto split: if_splits)
  then have loop: "dec_loop_signed (ilog10u num1) num1 =
      Inr (numeral_string hex 10 (unat num1))"
    using dec_loop_signed_ok [OF ilog10u_upper ilog10u_less_19]
    by (simp add: ilog10u_digits numeral_string_def del: fixed_digits.simps)
  have len: "int (ilog10u num1) + 1 = int (length (numeral_string hex 10 (unat num1)))"
    by (simp add: numeral_string_def ilog10u_length)
  have "print_dec_signed bs = Inr ((if 2 ^ (?k - 1) \<le> unat ?num then 1 else 0) +
      (int (ilog10u num1) + 1), (if 2 ^ (?k - 1) \<le> unat ?num
        then CHR ''-'' # numeral_string hex 10 (unat num1) else numeral_string hex 10 (unat num1)))"
    using sb assms(1) loop
    by (auto simp: print_dec_signed_def Let_def neg num1_def mult.commute)
  moreover have "decimal_int (signed_value ?k (unat ?num)) =
      (if 2 ^ (?k - 1) \<le> unat ?num
        then CHR ''-'' # numeral_string hex 10 (unat num1) else numeral_string hex 10 (unat num1))"
    using n1 assms(2) by (simp add: decimal_signed)
  ultimately show ?thesis
    by (simp add: len Let_def)
qed

end
