(* ===== verification/Printf_Correct.thy ===== *)
theory Printf_Correct
  imports Printf_Spec
begin

text \<open>
  The loop of \<open>_print\<close> computes \<open>denote\<close>: the parser recognises every conversion, each conversion
  prints its numeral and consumes its argument, and the loop walks the format piece by piece.
\<close>

section \<open>The parser's table\<close>

fun format_of :: "len_mod \<Rightarrow> conv \<Rightarrow> format" where
  "format_of L_none C_d = FORMAT_INT"
| "format_of L_none C_i = FORMAT_INT"
| "format_of L_none C_u = FORMAT_UINT"
| "format_of L_none C_p = FORMAT_PTR"
| "format_of L_none C_o = FORMAT_OCT"
| "format_of L_none C_x = FORMAT_HEX"
| "format_of L_none C_X = FORMAT_BIG_HEX"
| "format_of L_h C_d = FORMAT_SHORT_INT"
| "format_of L_h C_i = FORMAT_SHORT_INT"
| "format_of L_h C_u = FORMAT_SHORT_UINT"
| "format_of L_h C_p = FORMAT_SHORT_PTR"
| "format_of L_h C_o = FORMAT_SHORT_OCT"
| "format_of L_h C_x = FORMAT_SHORT_HEX"
| "format_of L_h C_X = FORMAT_SHORT_BIG_HEX"
| "format_of L_hh C_d = FORMAT_SHORT_SHORT_INT"
| "format_of L_hh C_i = FORMAT_SHORT_SHORT_INT"
| "format_of L_hh C_u = FORMAT_SHORT_SHORT_UINT"
| "format_of L_hh C_p = FORMAT_SHORT_SHORT_PTR"
| "format_of L_hh C_o = FORMAT_SHORT_SHORT_OCT"
| "format_of L_hh C_x = FORMAT_SHORT_SHORT_HEX"
| "format_of L_hh C_X = FORMAT_SHORT_SHORT_BIG_HEX"
| "format_of L_l C_d = FORMAT_LONG_INT"
| "format_of L_l C_i = FORMAT_LONG_INT"
| "format_of L_l C_u = FORMAT_LONG_UINT"
| "format_of L_l C_p = FORMAT_LONG_PTR"
| "format_of L_l C_o = FORMAT_LONG_OCT"
| "format_of L_l C_x = FORMAT_LONG_HEX"
| "format_of L_l C_X = FORMAT_LONG_BIG_HEX"
| "format_of L_ll C_d = FORMAT_LONG_LONG_INT"
| "format_of L_ll C_i = FORMAT_LONG_LONG_INT"
| "format_of L_ll C_u = FORMAT_LONG_LONG_UINT"
| "format_of L_ll C_p = FORMAT_LONG_LONG_PTR"
| "format_of L_ll C_o = FORMAT_LONG_LONG_OCT"
| "format_of L_ll C_x = FORMAT_LONG_LONG_HEX"
| "format_of L_ll C_X = FORMAT_LONG_LONG_BIG_HEX"

lemmas parse_defs =
  parse_none_def parse_short_def parse_short_short_def parse_long_def parse_long_long_def

lemma char_at_Cons [simp]:
  "char_at (c # cs) 0 = c"
  "char_at (c # cs) (Suc i) = char_at cs i"
  by (simp_all add: char_at_def)

lemma char_at_add: "char_at str (i + k) = char_at (drop i str) k"
  by (auto simp: char_at_def)

lemma char_at_drop: "drop i str = c # rest \<Longrightarrow> char_at str i = c"
  using char_at_add [of str i 0] by simp

lemma drop_Suc_Cons: "drop i xs = c # rest \<Longrightarrow> drop (Suc i) xs = rest"
  by (metis drop_Suc list.sel(3) tl_drop)

lemma parse_loop_Done:
  "parse_step st (char_at str i) = Done f \<Longrightarrow> parse_loop str i st = Some f"
  by (subst parse_loop.simps) simp

lemma parse_loop_Continue:
  "parse_step st (char_at str i) = Continue st' \<Longrightarrow> parse_loop str i st = parse_loop str (Suc i) st'"
  by (subst parse_loop.simps) simp

lemma parse_format_num:
  assumes "drop i str = mod_chars l @ conv_char c # rest"
  shows "parse_format str i = Some (format_of l c)"
proof -
  let ?cs = "mod_chars l @ conv_char c # rest"
  have "char_at str i = char_at ?cs 0" "char_at str (Suc i) = char_at ?cs (Suc 0)"
    "char_at str (Suc (Suc i)) = char_at ?cs (Suc (Suc 0))"
    using assms char_at_add [of str i 0] char_at_add [of str i "Suc 0"]
      char_at_add [of str i "Suc (Suc 0)"] by simp_all
  then show ?thesis
    by (cases l; cases c)
       (simp_all add: parse_format_def parse_loop.simps [of str i] parse_loop.simps [of str "Suc i"]
          parse_loop.simps [of str "Suc (Suc i)"] parse_defs)
qed

lemma parse_format_total: "\<exists>f. parse_format str i = Some f"
proof -
  have leaf: "\<exists>f. parse_loop str k st = Some f"
    if "st = FORMAT_SHORT_SHORT \<or> st = FORMAT_LONG_LONG" for k st
    using that by (subst parse_loop.simps) (auto simp: parse_defs)
  have mid: "\<exists>f. parse_loop str k st = Some f" if "st = FORMAT_SHORT \<or> st = FORMAT_LONG" for k st
    using that leaf by (subst parse_loop.simps) (auto simp: parse_defs)
  show ?thesis
    unfolding parse_format_def using mid by (subst parse_loop.simps) (auto simp: parse_defs)
qed

section \<open>One conversion\<close>

lemma unat_load_narrow:
  assumes "k \<le> 4"
  shows "unat (load_num (bytes_of k (ucast (w :: u32)))) = unat w mod 2 ^ (8 * k)"
proof -
  have "k \<le> 8" using assms by simp
  then show ?thesis
    by (simp only: load_num_bytes_of unsigned_take_bit_eq unat_ucast_32_64) (rule take_bit_eq_mod)
qed

lemma unat_join:
  "unat (ucast (lo :: u32) OR push_bit 32 (ucast (hi :: u32)) :: u64) = unat lo + 2 ^ 32 * unat hi"
proof -
  have "(ucast lo :: u64) AND push_bit 32 (ucast hi) = 0"
    by (rule bit_word_eqI) (auto simp: bit_simps dest: bit_imp_le_length)
  then have "(ucast lo OR push_bit 32 (ucast hi) :: u64) = ucast lo + push_bit 32 (ucast hi)"
    by (simp add: disjunctive_add_eq_or)
  moreover have "unat (push_bit 32 (ucast hi) :: u64) = 2 ^ 32 * unat hi"
    using unat_less_32 [of hi] by (simp add: push_bit_eq_mult unat_mult_less_64)
  moreover have "unat lo + 4294967296 * unat hi < 18446744073709551616"
    using unat_less_32_numeral [of lo] unat_less_32_numeral [of hi] by linarith
  ultimately show ?thesis
    by (simp add: unat_add_less)
qed

lemma conv32_ok:
  assumes "printer (bytes_of sz (ucast w)) = Inr (n, out)"
  shows "conv32 printer sz adv (w # rest) = Inr (n, out, adv, rest)"
  using assms by (simp add: conv32_def)

lemma conv64_ok:
  assumes "printer (bytes_of 8 (ucast lo OR push_bit 32 (ucast hi))) = Inr (n, out)"
  shows "conv64 printer adv (lo # hi # rest) = Inr (n, out, adv, rest)"
  using assms by (simp add: conv64_def)

lemmas printer_ok =
  print_dec_unsigned_ok print_oct_ok print_hex_ok print_Hex_ok print_ptr_ok print_dec_signed_ok

lemma print_format_num32:
  assumes "width l \<noteq> 64" and "parse_format str i = Some (format_of l c)"
    and "denote_num l c (unat w mod 2 ^ width l) = Some s"
  shows "print_format m str i (w # rest) =
    Inr (int (length s) + overcount_piece (Num l c), s, length (mod_chars l), rest)"
  using assms
  by (cases l; cases c)
     (auto simp: print_format_def print_format_other_def overcount_piece_def conv32_ok printer_ok unat_load_narrow Let_def
        pointer_string_def split: if_splits)

lemma print_format_num64:
  assumes "width l = 64" and "parse_format str i = Some (format_of l c)"
    and "denote_num l c (unat lo + 2 ^ 32 * unat hi) = Some s"
  shows "print_format m str i (lo # hi # rest) =
    Inr (int (length s) + overcount_piece (Num l c), s, length (mod_chars l), rest)"
  using assms
  by (cases l; cases c)
     (auto simp: print_format_def print_format_other_def overcount_piece_def conv64_ok printer_ok unat_join Let_def
        pointer_string_def split: if_splits)

section \<open>The loop\<close>

lemma print_loop_end: "char_at str i = NUL \<Longrightarrow> print_loop m str i pat args = Inr (0, [])"
  by (subst print_loop.simps) simp

lemma print_loop_text:
  "char_at str i = c \<Longrightarrow> c \<noteq> NUL \<Longrightarrow> c \<noteq> CHR ''%'' \<Longrightarrow>
    print_loop m str i False args =
      rbind (print_loop m str (i + 1) False args) (\<lambda>(n', out'). Inr (1 + n', c # out'))"
  by (subst print_loop.simps) simp

lemma NUL_neq [simp]: "CHR ''%'' \<noteq> NUL" "conv_char c \<noteq> NUL"
  by (simp_all add: NUL_def) (cases c; simp)

lemma print_loop_conversion:
  assumes "char_at str i = CHR ''%''" and "char_at str (i + 1) \<noteq> NUL"
    and "print_format m str (i + 1) args = Inr (n, out, adv, args')"
  shows "print_loop m str i False args =
      rbind (print_loop m str (i + adv + 2) False args') (\<lambda>(n', out'). Inr (n + n', out @ out'))"
proof -
  have "print_loop m str i False args = print_loop m str (i + 1) True args"
    using assms(1) by (subst print_loop.simps) simp
  also have "\<dots> = rbind (print_loop m str (i + 1 + adv + 1) False args')
      (\<lambda>(n', out'). Inr (n + n', out @ out'))"
    using assms(2,3) by (subst print_loop.simps) (simp add: Let_def)
  finally show ?thesis by simp
qed

text \<open>A conversion piece, as the parser and the printers see it.\<close>

lemma print_format_piece:
  assumes piece: "drop i str = render_piece p @ rest" "\<nexists>c. p = Text c"
    and den: "denote_piece m p args = Some (s, args')"
  shows "print_format m str (Suc i) args =
    Inr (int (length s) + overcount_piece p, s, length (render_piece p) - 2, args')"
proof (cases p)
  case (Text c)
  then show ?thesis using piece(2) by blast
next
  case (Num l c)
  have "drop (Suc i) str = mod_chars l @ conv_char c # rest"
    using piece(1) Num by (intro drop_Suc_Cons [where c = "CHR ''%''"]) simp
  then have pf: "parse_format str (Suc i) = Some (format_of l c)"
    by (rule parse_format_num)
  show ?thesis
  proof (cases "width l = 64")
    case True
    then obtain lo hi where "args = lo # hi # args'"
      and "denote_num l c (unat lo + 2 ^ 32 * unat hi) = Some s"
      using den Num by (auto split: option.splits list.splits)
    then show ?thesis
      using print_format_num64 [OF True pf] Num by simp
  next
    case False
    then obtain w where "args = w # args'" and "denote_num l c (unat w mod 2 ^ width l) = Some s"
      using den Num by (auto split: option.splits list.splits)
    then show ?thesis
      using print_format_num32 [OF False pf] Num by simp
  qed
next
  case Str
  then have "char_at str (Suc i) = CHR ''s''"
    using piece(1) drop_Suc_Cons [of i str] by (auto intro: char_at_drop)
  then have "parse_format str (Suc i) = Some FORMAT_STR"
    by (simp add: parse_format_def parse_loop.simps [of str "Suc i"] parse_defs)
  then show ?thesis
    using den Str by (auto simp: print_format_def print_format_other_def conv_str_def overcount_piece_def split: list.splits)
next
  case Percent
  then have "char_at str (Suc i) = CHR ''%''"
    using piece(1) drop_Suc_Cons [of i str] by (auto intro: char_at_drop)
  then have "parse_format str (Suc i) = Some FORMAT_ESCAPED_PERCENT"
    by (simp add: parse_format_def parse_loop.simps [of str "Suc i"] parse_defs)
  then show ?thesis
    using den Percent by (auto simp: print_format_def print_format_other_def overcount_piece_def)
qed

lemma render_Cons [simp]: "render (p # ps) = render_piece p @ render ps"
  by (simp add: render_def)

lemma render_piece_conv:
  "\<nexists>c. p = Text c \<Longrightarrow> \<exists>b bs. render_piece p = CHR ''%'' # b # bs \<and> b \<noteq> NUL"
proof (cases p)
  case (Num l c)
  then show ?thesis by (cases l) (auto simp: NUL_def [symmetric], simp_all add: NUL_def)
qed (auto simp: NUL_def)

lemma print_loop_denote:
  "drop i str = render ps \<Longrightarrow> plain_text ps \<Longrightarrow> denote m ps args = Some s \<Longrightarrow>
     print_loop m str i False args = Inr (int (length s) + overcount ps, s)"
proof (induction ps arbitrary: i args s)
  case Nil
  then have "char_at str i = NUL" by (simp add: render_def char_at_def)
  with Nil show ?case by (simp add: print_loop_end overcount_def)
next
  case (Cons p ps)
  obtain s1 args' s2 where dp: "denote_piece m p args = Some (s1, args')"
    and dps: "denote m ps args' = Some s2" and s: "s = s1 @ s2"
    using Cons.prems(3) by (auto split: option.splits)
  have pt: "plain_text ps" using Cons.prems(2) by (simp add: plain_text_def)
  show ?case
  proof (cases "\<exists>c. p = Text c")
    case True
    then obtain c where p: "p = Text c" by blast
    have "c \<noteq> CHR ''%''" "c \<noteq> NUL" using Cons.prems(2) p by (auto simp: plain_text_def)
    moreover have "drop (Suc i) str = render ps" and "char_at str i = c"
      using Cons.prems(1) p by (auto intro: drop_Suc_Cons char_at_drop)
    ultimately show ?thesis
      using Cons.IH [OF _ pt dps] dp p s
      by (auto simp: print_loop_text overcount_def overcount_piece_def)
  next
    case False
    then obtain b bs where rp: "render_piece p = CHR ''%'' # b # bs" and b: "b \<noteq> NUL"
      using render_piece_conv by blast
    have d1: "drop (Suc i) str = b # bs @ render ps"
      using Cons.prems(1) rp by (intro drop_Suc_Cons [where c = "CHR ''%''"]) simp
    have d2: "drop (i + length bs + 2) str = render ps"
      using Cons.prems(1) rp by (metis add.commute append_eq_conv_conj drop_drop length_Cons
          render_Cons add_2_eq_Suc' add.assoc)
    have "print_loop m str i False args =
        rbind (print_loop m str (i + length bs + 2) False args')
          (\<lambda>(n', out'). Inr (int (length s1) + overcount_piece p + n', s1 @ out'))"
    proof (rule print_loop_conversion)
      show "char_at str i = CHR ''%''"
        using Cons.prems(1) rp by (intro char_at_drop) simp
      show "char_at str (i + 1) \<noteq> NUL"
        using char_at_drop [OF d1] b by simp
      show "print_format m str (i + 1) args =
          Inr (int (length s1) + overcount_piece p, s1, length bs, args')"
        using print_format_piece [OF _ False dp] Cons.prems(1) rp by simp
    qed
    then show ?thesis
      using Cons.IH [OF d2 pt dps] s by (simp add: overcount_def)
  qed
qed

end
