(* ===== verification/Console.thy ===== *)
theory Console
  imports Printf_Correct
begin

text \<open>
  The interface between \<open>_print.c\<close> and the console drivers: the macro \<open>VGA_PUTC\<close>.  A driver is a
  function \<open>putc\<close> on its own state; \<open>None\<close> is a write outside the text buffer.  The locale states
  what a driver promises, and \<open>printk\<close>'s behaviour on any driver follows from the promise.
\<close>

section \<open>Feeding a driver\<close>

primrec puts :: "(char \<Rightarrow> 's \<Rightarrow> 's option) \<Rightarrow> string \<Rightarrow> 's \<Rightarrow> 's option" where
  "puts putc [] s = Some s"
| "puts putc (c # cs) s = Option.bind (putc c s) (puts putc cs)"

lemma puts_append:
  "puts putc (xs @ ys) s = Option.bind (puts putc xs s) (puts putc ys)"
  by (induction xs arbitrary: s) (simp_all split: bind_splits)

text \<open>
  \<open>printk\<close> and \<open>init_printk\<close> are the same code over their own driver: \<open>_print\<close> on the argument list.
\<close>

datatype printk_error = Print_error print_error | Buffer_overrun

definition printk_with ::
  "(char \<Rightarrow> 's \<Rightarrow> 's option) \<Rightarrow> cmem \<Rightarrow> string \<Rightarrow> va_list \<Rightarrow> 's \<Rightarrow> printk_error + (int \<times> 's)"
where
  "printk_with putc m fmt args s =
    (case print_fmt m fmt args of
       Inl e \<Rightarrow> Inl (Print_error e)
     | Inr (n, out) \<Rightarrow>
         (case puts putc out s of None \<Rightarrow> Inl Buffer_overrun | Some s' \<Rightarrow> Inr (n, s')))"

section \<open>What a driver promises\<close>

text \<open>
  \<open>inv\<close> is the driver's state invariant, \<open>cursor\<close> the next cell in reading order, \<open>cells\<close> the text
  buffer, \<open>glyph\<close> the cell a character becomes and \<open>last\<close> the index of the last cell of the screen.
\<close>

locale console =
  fixes putc :: "char \<Rightarrow> 's \<Rightarrow> 's option"
    and inv :: "'s \<Rightarrow> bool"
    and cursor :: "'s \<Rightarrow> nat"
    and cells :: "'s \<Rightarrow> u16 list"
    and glyph :: "'s \<Rightarrow> char \<Rightarrow> u16"
    and last_cell :: nat
  assumes putc_safe: "inv s \<Longrightarrow> \<exists>s'. putc c s = Some s' \<and> inv s'"
    and putc_visible: "inv s \<Longrightarrow> c \<noteq> CHR 0x0A \<Longrightarrow> cursor s < last_cell \<Longrightarrow> putc c s = Some s' \<Longrightarrow>
      cells s' = (cells s)[cursor s := glyph s c] \<and> cursor s' = Suc (cursor s) \<and> glyph s' = glyph s"
    and cells_long: "inv s \<Longrightarrow> last_cell < length (cells s)"
begin

lemma puts_safe: "inv s \<Longrightarrow> \<exists>s'. puts putc cs s = Some s' \<and> inv s'"
proof (induction cs arbitrary: s)
  case (Cons c cs)
  obtain s1 where "putc c s = Some s1" "inv s1"
    using putc_safe [OF Cons.prems] by blast
  then show ?case using Cons.IH by simp
qed simp

lemma puts_visible:
  "inv s \<Longrightarrow> CHR 0x0A \<notin> set cs \<Longrightarrow> cursor s + length cs \<le> last_cell \<Longrightarrow> puts putc cs s = Some s' \<Longrightarrow>
     cells s' = take (cursor s) (cells s) @ map (glyph s) cs @ drop (cursor s + length cs) (cells s) \<and>
     cursor s' = cursor s + length cs"
proof (induction cs arbitrary: s)
  case (Cons c cs)
  obtain s1 where p: "putc c s = Some s1" and i1: "inv s1"
    using putc_safe [OF Cons.prems(1)] by blast
  have v: "cells s1 = (cells s)[cursor s := glyph s c]" "cursor s1 = Suc (cursor s)"
      "glyph s1 = glyph s"
    using putc_visible [OF Cons.prems(1) _ _ p] Cons.prems(2,3) by auto
  have "cells s' = take (cursor s1) (cells s1) @ map (glyph s1) cs @
      drop (cursor s1 + length cs) (cells s1) \<and> cursor s' = cursor s1 + length cs"
    using Cons.prems v(2) p by (intro Cons.IH i1) auto
  moreover have "cursor s < length (cells s)"
    using cells_long [OF Cons.prems(1)] Cons.prems(3) by simp
  ultimately show ?case
    using v by (simp add: take_Suc_conv_app_nth take_update_cancel)
qed simp

lemma printk_safe:
  assumes "inv s" and "print_fmt m fmt args = Inr (n, out)"
  shows "\<exists>s'. printk_with putc m fmt args s = Inr (n, s') \<and> puts putc out s = Some s' \<and> inv s'"
  using puts_safe [OF assms(1), of out] assms(2) by (auto simp: printk_with_def)

text \<open>A format that denotes a text of one line prints that text at the cursor.\<close>

lemma printk_prints:
  assumes "inv s" and "plain_text ps" and "denote m ps args = Some out"
    and "CHR 0x0A \<notin> set out" and "cursor s + length out \<le> last_cell"
  shows "\<exists>s'. printk_with putc m (render ps) args s = Inr (int (length out) + overcount ps, s') \<and>
     inv s' \<and> cursor s' = cursor s + length out \<and>
     cells s' = take (cursor s) (cells s) @ map (glyph s) out @ drop (cursor s + length out) (cells s)"
proof -
  have "print_fmt m (render ps) args = Inr (int (length out) + overcount ps, out)"
    unfolding print_fmt_def using assms(2,3) by (intro print_loop_denote) simp_all
  then obtain s' where "printk_with putc m (render ps) args s = Inr (int (length out) + overcount ps, s')"
    and "puts putc out s = Some s'" and "inv s'"
    using printk_safe [OF assms(1)] by blast
  then show ?thesis
    using puts_visible [OF assms(1,4,5)] by blast
qed

end

end
