(* ===== verification/Messages.thy ===== *)
theory Messages
  imports Console
begin

text \<open>
  The messages of the kernel are calls of \<open>printk\<close> with a constant format.  \<open>pieces_of\<close> reads such a
  format; a message \<^emph>\<open>agrees\<close> when its arguments are as many as its conversions ask for.  Messages that
  agree print their text on every console.
\<close>

type_synonym message = "string \<times> va_list"

section \<open>Reading a format\<close>

fun plain_conv :: "char \<Rightarrow> piece option" where
  "plain_conv c =
     (if c = CHR ''p'' then Some (Num L_none C_p)
      else if c = CHR ''u'' then Some (Num L_none C_u)
      else if c = CHR ''d'' then Some (Num L_none C_d)
      else if c = CHR ''s'' then Some Str
      else if c = CHR ''%'' then Some Percent
      else None)"

fun pieces_of :: "string \<Rightarrow> piece list option" where
  "pieces_of [] = Some []"
| "pieces_of [c] = (if c = CHR ''%'' \<or> c = NUL then None else Some [Text c])"
| "pieces_of (c # d # cs) =
     (if c = CHR ''%''
      then Option.bind (plain_conv d) (\<lambda>p. map_option ((#) p) (pieces_of cs))
      else if c = NUL then None
      else map_option ((#) (Text c)) (pieces_of (d # cs)))"

lemma plain_conv_render: "plain_conv c = Some p \<Longrightarrow> render_piece p = [CHR ''%'', c] \<and> (\<forall>x. p \<noteq> Text x)"
  by (auto split: if_splits)

lemma pieces_of_render: "pieces_of fmt = Some ps \<Longrightarrow> render ps = fmt \<and> plain_text ps"
proof (induction fmt arbitrary: ps rule: pieces_of.induct)
  case 1
  then show ?case by (simp add: render_def plain_text_def)
next
  case (2 c)
  then show ?case by (auto simp: render_def plain_text_def split: if_splits)
next
  case (3 c d cs)
  show ?case
  proof (cases "c = CHR ''%''")
    case True
    with 3(3) obtain p qs where "plain_conv d = Some p" "pieces_of cs = Some qs" "ps = p # qs"
      by (auto split: bind_splits)
    then show ?thesis
      using 3(1) [OF True] plain_conv_render [of d p] True by (auto simp: plain_text_def)
  next
    case False
    with 3(3) obtain qs where q: "c \<noteq> NUL" "pieces_of (d # cs) = Some qs" "ps = Text c # qs"
      by (auto split: if_splits)
    then show ?thesis using 3(2) [OF False q(1) q(2)] False by (auto simp: plain_text_def)
  qed
qed

section \<open>Messages that agree\<close>

fun slots_of_piece :: "piece \<Rightarrow> nat" where
  "slots_of_piece (Text c) = 0"
| "slots_of_piece Percent = 0"
| "slots_of_piece Str = 1"
| "slots_of_piece (Num l c) = (if width l = 64 then 2 else 1)"

definition slots :: "piece list \<Rightarrow> nat" where
  "slots ps = sum_list (map slots_of_piece ps)"

text \<open>\<open>agrees\<close> for messages without strings, whose conversions are then all of 32 bits.\<close>

definition agrees :: "message \<Rightarrow> bool" where
  "agrees = (\<lambda>(fmt, args). case pieces_of fmt of None \<Rightarrow> False
     | Some ps \<Rightarrow> Str \<notin> set ps \<and> slots ps = length args)"

definition message_text :: "cmem \<Rightarrow> message \<Rightarrow> string option" where
  "message_text m = (\<lambda>(fmt, args). Option.bind (pieces_of fmt) (\<lambda>ps. denote m ps args))"

definition simple_piece :: "piece \<Rightarrow> bool" where
  "simple_piece p \<longleftrightarrow> (\<exists>c. p = Text c) \<or> (\<exists>c\<in>{C_p, C_u, C_d}. p = Num L_none c) \<or> p = Percent"

lemma simple_Text [simp]: "simple_piece (Text c)"
  by (simp add: simple_piece_def)

lemma plain_conv_simple: "plain_conv c = Some p \<Longrightarrow> simple_piece p \<or> p = Str"
  by (auto simp: simple_piece_def split: if_splits)

lemma pieces_of_simple: "pieces_of fmt = Some ps \<Longrightarrow> p \<in> set ps \<Longrightarrow> simple_piece p \<or> p = Str"
proof (induction fmt arbitrary: ps p rule: pieces_of.induct)
  case (3 c d cs)
  show ?case
  proof (cases "c = CHR ''%''")
    case True
    with 3(3) obtain q qs where "plain_conv d = Some q" "pieces_of cs = Some qs" "ps = q # qs"
      by (auto split: bind_splits)
    then show ?thesis using 3(1) [OF True] 3(4) plain_conv_simple [of d q] by auto
  next
    case False
    with 3(3) obtain qs where q: "c \<noteq> NUL" "pieces_of (d # cs) = Some qs" "ps = Text c # qs"
      by (auto split: if_splits)
    then show ?thesis using 3(2) [OF False q(1) q(2)] 3(4) by auto
  qed
qed (auto split: if_splits)

lemma denote_num32:
  "c = C_p \<or> c = C_u \<or> c = C_d \<Longrightarrow> \<exists>s. denote_piece m (Num L_none c) (w # args) = Some (s, args)"
proof -
  have "unat w < 10000000000000000000" by (rule less_trans [OF unat_less_32_numeral]) simp
  then show "c = C_p \<or> c = C_u \<or> c = C_d \<Longrightarrow> \<exists>s. denote_piece m (Num L_none c) (w # args) = Some (s, args)" by auto
qed

lemma denote_enough:
  assumes "\<And>p. p \<in> set ps \<Longrightarrow> simple_piece p"
    and "slots ps \<le> length args"
  shows "\<exists>s. denote m ps args = Some s"
  using assms
proof (induction ps arbitrary: args)
  case Nil
  then show ?case by simp
next
  case (Cons p ps)
  have "\<exists>s rest. denote_piece m p args = Some (s, rest) \<and> slots ps \<le> length rest"
  proof -
    consider "\<exists>c. p = Text c" | "p = Percent" | c where "p = Num L_none c" "c = C_p \<or> c = C_u \<or> c = C_d"
      using Cons.prems(1) [of p] by (auto simp: simple_piece_def)
    then show ?thesis
    proof cases
      case 1
      then show ?thesis using Cons.prems(2) by (auto simp: slots_def)
    next
      case 2
      then show ?thesis using Cons.prems(2) by (auto simp: slots_def)
    next
      case 3
      with Cons.prems(2) obtain w rest where "args = w # rest" by (cases args) (auto simp: slots_def)
      then show ?thesis using 3 denote_num32 [of c m w rest] Cons.prems(2) by (auto simp: slots_def)
    qed
  qed
  then obtain s rest where d: "denote_piece m p args = Some (s, rest)" "slots ps \<le> length rest" by blast
  moreover obtain s' where "denote m ps rest = Some s'" using Cons.IH [OF _ d(2)] Cons.prems(1) by auto
  ultimately show ?case by simp
qed

lemma agrees_text: "agrees msg \<Longrightarrow> \<exists>s. message_text m msg = Some s"
  using denote_enough [of _ "snd msg" m] pieces_of_simple [of "fst msg"]
  by (cases msg) (fastforce simp: agrees_def message_text_def split: option.splits)

lemma message_printed:
  assumes "message_text m (fmt, args) = Some s"
  shows "\<exists>n. print_fmt m fmt args = Inr (n, s)"
proof -
  obtain ps where p: "pieces_of fmt = Some ps" "denote m ps args = Some s"
    using assms by (auto simp: message_text_def split: bind_splits)
  then show ?thesis
    using pieces_of_render [OF p(1)] print_loop_denote [of 0 fmt ps m args s] by (simp add: print_fmt_def)
qed

context console begin

text \<open>A message with a text reaches the screen, and the console stays in its invariant.\<close>

lemma message_shown:
  assumes "inv s" and "message_text m msg = Some str"
  shows "\<exists>n s'. printk_with putc m (fst msg) (snd msg) s = Inr (n, s') \<and> puts putc str s = Some s' \<and> inv s'"
proof -
  obtain n where "print_fmt m (fst msg) (snd msg) = Inr (n, str)"
    using message_printed [of m "fst msg" "snd msg" str] assms(2) by auto
  then show ?thesis using printk_safe [OF assms(1)] by blast
qed

end

end
