(* ===== verification/Vga.thy ===== *)
theory Vga
  imports Messages
begin

text \<open>
  \<open>vga.c\<close>, \<open>vga.h\<close> and \<open>string.h\<close>: the text-mode driver behind \<open>printk\<close>.  The screen is a list of
  2000 cells; \<open>vga_buffer\<close> keeps only the address it is mapped at.  \<open>None\<close> is an access outside the
  buffer.  The driver scrolls late: after the last cell the position is \<open>VGA_SIZE\<close>, and the next
  character scrolls first.
\<close>

section \<open>State and operations\<close>

definition VGA_WIDTH :: u32 where "VGA_WIDTH = 80"
definition VGA_HEIGHT :: u32 where "VGA_HEIGHT = 25"
definition VGA_SIZE :: u32 where "VGA_SIZE = VGA_HEIGHT * VGA_WIDTH"

datatype vga_color_name =
    VGA_COLOR_BLACK | VGA_COLOR_BLUE | VGA_COLOR_GREEN | VGA_COLOR_CYAN
  | VGA_COLOR_RED | VGA_COLOR_MAGENTA | VGA_COLOR_BROWN | VGA_COLOR_LIGHT_GREY
  | VGA_COLOR_DARK_GREY | VGA_COLOR_LIGHT_BLUE | VGA_COLOR_LIGHT_GREEN | VGA_COLOR_LIGHT_CYAN
  | VGA_COLOR_LIGHT_RED | VGA_COLOR_LIGHT_MAGENTA | VGA_COLOR_LIGHT_BROWN | VGA_COLOR_WHITE

fun color_code :: "vga_color_name \<Rightarrow> u8" where
  "color_code VGA_COLOR_BLACK = 0"
| "color_code VGA_COLOR_BLUE = 1"
| "color_code VGA_COLOR_GREEN = 2"
| "color_code VGA_COLOR_CYAN = 3"
| "color_code VGA_COLOR_RED = 4"
| "color_code VGA_COLOR_MAGENTA = 5"
| "color_code VGA_COLOR_BROWN = 6"
| "color_code VGA_COLOR_LIGHT_GREY = 7"
| "color_code VGA_COLOR_DARK_GREY = 8"
| "color_code VGA_COLOR_LIGHT_BLUE = 9"
| "color_code VGA_COLOR_LIGHT_GREEN = 10"
| "color_code VGA_COLOR_LIGHT_CYAN = 11"
| "color_code VGA_COLOR_LIGHT_RED = 12"
| "color_code VGA_COLOR_LIGHT_MAGENTA = 13"
| "color_code VGA_COLOR_LIGHT_BROWN = 14"
| "color_code VGA_COLOR_WHITE = 15"

record vga =
  vga_pos :: u32
  vga_color :: u8
  vga_buffer :: u32
  vga_cells :: "u16 list"

definition vga_entry_color :: "u8 \<Rightarrow> u8 \<Rightarrow> u8" where
  "vga_entry_color fg bg = fg OR push_bit 4 bg"

definition VGA_COLOR_DEFAULT :: u8 where
  "VGA_COLOR_DEFAULT = color_code VGA_COLOR_LIGHT_GREY OR push_bit 4 (color_code VGA_COLOR_BLACK)"

definition vga_entry :: "u8 \<Rightarrow> u8 \<Rightarrow> u16" where
  "vga_entry uc color = ucast uc OR push_bit 8 (ucast color)"

definition vga_putentryat :: "char \<Rightarrow> u8 \<Rightarrow> u32 \<Rightarrow> vga \<Rightarrow> vga option" where
  "vga_putentryat c color pos v =
    (if unat pos < length (vga_cells v)
     then Some (v\<lparr>vga_cells := (vga_cells v)[unat pos := vga_entry (of_char c) color]\<rparr>)
     else None)"

function vga_copy_loop :: "u32 \<Rightarrow> u32 \<Rightarrow> u32 \<Rightarrow> vga \<Rightarrow> (u32 \<times> vga) option" where
  "vga_copy_loop p lines lim v =
    (if p < lim
     then (let src = unat (p + lines * VGA_WIDTH); cs = vga_cells v in
           if src < length cs \<and> unat p < length cs
           then vga_copy_loop (p + 1) lines lim (v\<lparr>vga_cells := cs[unat p := cs ! src]\<rparr>)
           else None)
     else Some (p, v))"
  by pat_completeness auto
termination
  by (relation "measure (\<lambda>(p, lines, lim, v). unat lim - unat p)")
     (auto simp: word_less_nat_alt unat_plus_one_less)

function vga_blank_loop :: "u32 \<Rightarrow> u32 \<Rightarrow> vga \<Rightarrow> vga option" where
  "vga_blank_loop p lim v =
    (if p < lim
     then Option.bind (vga_putentryat (CHR '' '') (vga_color v) p v) (vga_blank_loop (p + 1) lim)
     else Some v)"
  by pat_completeness auto
termination
  by (relation "measure (\<lambda>(p, lim, v). unat lim - unat p)")
     (auto simp: word_less_nat_alt unat_plus_one_less)

declare vga_copy_loop.simps [simp del] vga_blank_loop.simps [simp del]

definition vga_scrolldown :: "u32 \<Rightarrow> vga \<Rightarrow> vga option" where
  "vga_scrolldown lines v =
    Option.bind (vga_copy_loop 0 lines (VGA_SIZE - VGA_WIDTH * lines) v) (\<lambda>(p, v1).
      Option.bind (vga_blank_loop p VGA_SIZE v1) (\<lambda>v2.
        Some (v2\<lparr>vga_pos := vga_pos v2 - lines * VGA_WIDTH\<rparr>)))"

definition vga_linebreak :: "vga \<Rightarrow> vga option" where
  "vga_linebreak v =
    (let v1 = v\<lparr>vga_pos := vga_pos v + (VGA_WIDTH - vga_pos v mod VGA_WIDTH)\<rparr>
     in if vga_pos v1 = VGA_SIZE then vga_scrolldown 1 v1 else Some v1)"

definition vga_putc :: "char \<Rightarrow> vga \<Rightarrow> vga option" where
  "vga_putc c v =
    Option.bind (if vga_pos v \<ge> VGA_SIZE then vga_scrolldown 1 v else Some v) (\<lambda>v1.
      if c = CHR 0x0A then vga_linebreak v1
      else Option.bind (vga_putentryat c (vga_color v1) (vga_pos v1) v1) (\<lambda>v2.
             Some (v2\<lparr>vga_pos := vga_pos v2 + 1\<rparr>)))"

text \<open>\<open>vga_write\<close> takes a buffer and a size; \<open>vga_puts\<close> takes the size from \<open>strlen\<close>.\<close>

primrec vga_write :: "string \<Rightarrow> vga \<Rightarrow> vga option" where
  "vga_write [] v = Some v"
| "vga_write (c # cs) v = Option.bind (vga_putc c v) (vga_write cs)"

partial_function (option) strlen_loop :: "cmem \<Rightarrow> u32 \<Rightarrow> u32 \<Rightarrow> u32 option" where
  "strlen_loop m str len =
    (if m (str + len) \<noteq> NUL then strlen_loop m str (len + 1) else Some len)"

declare strlen_loop.simps [code]

definition strlen :: "cmem \<Rightarrow> u32 \<Rightarrow> u32 option" where
  "strlen m str = strlen_loop m str 0"

definition vga_puts :: "cmem \<Rightarrow> u32 \<Rightarrow> vga \<Rightarrow> vga option" where
  "vga_puts m data v =
    Option.bind (strlen m data) (\<lambda>size.
      vga_write (map (\<lambda>i. m (data + word_of_nat i)) [0..<unat size]) v)"

definition vga_clear :: "vga \<Rightarrow> vga option" where
  "vga_clear v = vga_blank_loop 0 VGA_SIZE v"

definition vga_set_position :: "u32 \<Rightarrow> u32 \<Rightarrow> vga \<Rightarrow> vga" where
  "vga_set_position row col v = v\<lparr>vga_pos := VGA_WIDTH * row + col\<rparr>"

definition vga_reset :: "vga \<Rightarrow> vga option" where
  "vga_reset v = map_option (vga_set_position 0 0) (vga_clear v)"

definition vga_map_buffer :: "u32 \<Rightarrow> vga \<Rightarrow> vga" where
  "vga_map_buffer new_buffer v = v\<lparr>vga_buffer := new_buffer\<rparr>"

definition vga_get_buffer :: "vga \<Rightarrow> u32" where
  "vga_get_buffer v = vga_buffer v"

text \<open>The statically initialised state, over whatever the buffer holds.\<close>

definition vga_start :: "u16 list \<Rightarrow> vga" where
  "vga_start cs = \<lparr>vga_pos = 0, vga_color = VGA_COLOR_DEFAULT, vga_buffer = 0xB8000, vga_cells = cs\<rparr>"

end
