(* ===== verification/Vga_Correct.thy ===== *)
theory Vga_Correct
  imports Vga
begin

text \<open>
  The driver keeps its cursor on the screen, never touches memory outside the 2000 cells, scrolls by
  exactly one row, and so is a console in the sense of theory \<open>Console\<close>.
\<close>

section \<open>The invariant and what scrolling does\<close>

definition vga_inv :: "vga \<Rightarrow> bool" where
  "vga_inv v \<longleftrightarrow> length (vga_cells v) = 2000 \<and> vga_pos v \<le> VGA_SIZE"

definition vga_blank :: "vga \<Rightarrow> u16" where
  "vga_blank v = vga_entry (of_char (CHR '' '')) (vga_color v)"

definition vga_glyph :: "vga \<Rightarrow> char \<Rightarrow> u16" where
  "vga_glyph v c = vga_entry (of_char c) (vga_color v)"

definition vga_rows_up :: "vga \<Rightarrow> vga" where
  "vga_rows_up v =
     v\<lparr>vga_cells := drop 80 (vga_cells v) @ replicate 80 (vga_blank v), vga_pos := vga_pos v - 80\<rparr>"

lemma VGA_constants: "VGA_SIZE = 2000" "VGA_WIDTH = 80"
  by (simp_all add: VGA_SIZE_def VGA_HEIGHT_def VGA_WIDTH_def)

lemma move_down_list:
  assumes "p < lim" and "lim + k \<le> length cs" and "cs' = cs[p := cs ! (p + k)]"
  shows "take (Suc p) cs' @ take (lim - Suc p) (drop (Suc p + k) cs') @ drop lim cs' =
    take p cs @ take (lim - p) (drop (p + k) cs) @ drop lim cs"
proof -
  have "take (Suc p) cs' = take p cs @ [cs ! (p + k)]"
    using assms by (simp add: take_Suc_conv_app_nth)
  moreover have "take (lim - p) (drop (p + k) cs) =
      cs ! (p + k) # take (lim - Suc p) (drop (Suc p + k) cs)"
  proof -
    have "drop (p + k) cs = cs ! (p + k) # drop (Suc p + k) cs"
      using assms by (simp add: Cons_nth_drop_Suc)
    moreover have "lim - p = Suc (lim - Suc p)"
      using assms by simp
    ultimately show ?thesis by simp
  qed
  moreover have "drop (Suc p + k) cs' = drop (Suc p + k) cs" "drop lim cs' = drop lim cs"
    using assms by simp_all
  ultimately show ?thesis by simp
qed

lemma vga_copy_loop_eq:
  assumes "unat lim + 80 \<le> length (vga_cells v)" and "unat lim + 80 < 2 ^ 32"
  shows "p \<le> lim \<Longrightarrow> vga_copy_loop p 1 lim v =
    Some (lim, v\<lparr>vga_cells := take (unat p) (vga_cells v) @
      take (unat lim - unat p) (drop (unat p + 80) (vga_cells v)) @ drop (unat lim) (vga_cells v)\<rparr>)"
  using assms(1)
proof (induction "unat lim - unat p" arbitrary: p v)
  case 0
  then have "p = lim" by (simp add: word_le_nat_alt word_unat_eq_iff)
  then show ?case by (simp add: vga_copy_loop.simps)
next
  case (Suc d)
  let ?cs = "vga_cells v"
  have less: "unat p < unat lim" using Suc.hyps(2) by linarith
  have p1: "unat (p + 1) = Suc (unat p)" using less by (rule unat_plus_one_less)
  have "unat (80 :: u32) = 80" by simp
  then have src: "unat (p + 1 * VGA_WIDTH) = unat p + 80"
    using less assms(2) by (simp only: VGA_constants mult_1 unat_add_less_32)
  let ?v = "v\<lparr>vga_cells := ?cs[unat p := ?cs ! (unat p + 80)]\<rparr>"
  have "vga_copy_loop p 1 lim v = vga_copy_loop (p + 1) 1 lim ?v"
    using less Suc.prems(2) src by (subst vga_copy_loop.simps) (simp add: word_less_nat_alt Let_def)
  also have "\<dots> = Some (lim, ?v\<lparr>vga_cells := take (unat (p + 1)) (vga_cells ?v) @
      take (unat lim - unat (p + 1)) (drop (unat (p + 1) + 80) (vga_cells ?v)) @
      drop (unat lim) (vga_cells ?v)\<rparr>)"
  proof (rule Suc.hyps(1))
    show "d = unat lim - unat (p + 1)" using Suc.hyps(2) p1 by simp
    show "p + 1 \<le> lim" using less p1 by (simp add: word_le_nat_alt)
    show "unat lim + 80 \<le> length (vga_cells ?v)" using Suc.prems(2) by simp
  qed
  finally show ?case
    using move_down_list [OF less Suc.prems(2) refl] p1 by simp
qed

lemma vga_blank_loop_eq:
  "p \<le> lim \<Longrightarrow> length (vga_cells v) = unat lim \<Longrightarrow> vga_blank_loop p lim v =
    Some (v\<lparr>vga_cells := take (unat p) (vga_cells v) @ replicate (unat lim - unat p) (vga_blank v)\<rparr>)"
proof (induction "unat lim - unat p" arbitrary: p v)
  case 0
  then have "p = lim" by (simp add: word_le_nat_alt word_unat_eq_iff)
  with 0 show ?case by (simp add: vga_blank_loop.simps)
next
  case (Suc d)
  have less: "unat p < unat lim" using Suc.hyps(2) by linarith
  have p1: "unat (p + 1) = Suc (unat p)" using less by (rule unat_plus_one_less)
  let ?v = "v\<lparr>vga_cells := (vga_cells v)[unat p := vga_blank v]\<rparr>"
  have "vga_blank_loop p lim v = vga_blank_loop (p + 1) lim ?v"
    using less Suc.prems(2)
    by (subst vga_blank_loop.simps) (simp add: word_less_nat_alt vga_putentryat_def vga_blank_def)
  also have "\<dots> = Some (?v\<lparr>vga_cells := take (unat (p + 1)) (vga_cells ?v) @
      replicate (unat lim - unat (p + 1)) (vga_blank ?v)\<rparr>)"
  proof (rule Suc.hyps(1))
    show "d = unat lim - unat (p + 1)" using Suc.hyps(2) p1 by simp
    show "p + 1 \<le> lim" using less p1 by (simp add: word_le_nat_alt)
    show "length (vga_cells ?v) = unat lim" using Suc.prems(2) by simp
  qed
  moreover have "unat lim - unat p = Suc (unat lim - Suc (unat p))" using less by linarith
  ultimately show ?case
    using p1 less Suc.prems(2) by (simp add: take_Suc_conv_app_nth vga_blank_def)
qed

lemma vga_scrolldown_eq:
  assumes "length (vga_cells v) = 2000"
  shows "vga_scrolldown 1 v = Some (vga_rows_up v)"
proof -
  have "vga_copy_loop 0 1 (VGA_SIZE - VGA_WIDTH * 1) v =
      Some (1920, v\<lparr>vga_cells := take 1920 (drop 80 (vga_cells v)) @ drop 1920 (vga_cells v)\<rparr>)"
    using assms by (subst vga_copy_loop_eq) (simp_all add: VGA_constants)
  moreover have "vga_blank_loop 1920 VGA_SIZE
      (v\<lparr>vga_cells := take 1920 (drop 80 (vga_cells v)) @ drop 1920 (vga_cells v)\<rparr>) =
      Some (v\<lparr>vga_cells := drop 80 (vga_cells v) @ replicate 80 (vga_blank v)\<rparr>)"
    using assms by (subst vga_blank_loop_eq) (simp_all add: VGA_constants vga_blank_def)
  ultimately show ?thesis
    by (simp add: vga_scrolldown_def vga_rows_up_def VGA_constants vga_blank_def)
qed

section \<open>One character\<close>

definition vga_next_row :: "u32 \<Rightarrow> u32" where
  "vga_next_row p = p + (80 - p mod 80)"

lemma unat_next_row:
  assumes "unat p < 2000"
  shows "unat (vga_next_row p) = (unat p div 80 + 1) * 80"
proof -
  have m: "unat (p mod 80) = unat p mod 80" by (simp add: unat_mod)
  have "p mod 80 \<le> 80" using m by (simp add: word_le_nat_alt)
  then have "unat (80 - p mod 80) = 80 - unat p mod 80"
    by (simp add: unat_sub_le m)
  then have "unat (vga_next_row p) = unat p + (80 - unat p mod 80)"
    using assms by (simp add: vga_next_row_def unat_add_less_32)
  then show ?thesis
    by presburger
qed

lemma vga_linebreak_eq:
  assumes "length (vga_cells v) = 2000"
  shows "vga_linebreak v =
    Some (let w = v\<lparr>vga_pos := vga_next_row (vga_pos v)\<rparr>
          in if vga_pos w = 2000 then vga_rows_up w else w)"
  using assms by (simp add: vga_linebreak_def vga_next_row_def Let_def vga_scrolldown_eq VGA_constants)

text \<open>The state in which the character is placed: a full screen has been scrolled.\<close>

definition vga_make_room :: "vga \<Rightarrow> vga" where
  "vga_make_room v = (if vga_pos v \<ge> 2000 then vga_rows_up v else v)"

lemma length_rows_up [simp]: "length (vga_cells v) = 2000 \<Longrightarrow> length (vga_cells (vga_rows_up v)) = 2000"
  by (simp add: vga_rows_up_def)

lemma vga_make_room_pos:
  assumes "vga_inv v"
  shows "length (vga_cells (vga_make_room v)) = 2000" and "unat (vga_pos (vga_make_room v)) < 2000"
proof -
  have le: "vga_pos v \<le> 2000" and len: "length (vga_cells v) = 2000"
    using assms by (simp_all add: vga_inv_def VGA_constants)
  from len show "length (vga_cells (vga_make_room v)) = 2000"
    by (simp add: vga_make_room_def)
  show "unat (vga_pos (vga_make_room v)) < 2000"
  proof (cases "vga_pos v \<ge> 2000")
    case True
    then have "vga_pos v = 2000" using le by simp
    then show ?thesis by (simp add: vga_make_room_def vga_rows_up_def)
  next
    case False
    then show ?thesis by (simp add: vga_make_room_def word_le_nat_alt)
  qed
qed

lemma vga_putc_eq:
  assumes "vga_inv v"
  shows "vga_putc c v = Some (let w = vga_make_room v in
     if c = CHR 0x0A
     then (let w' = w\<lparr>vga_pos := vga_next_row (vga_pos w)\<rparr>
           in if vga_pos w' = 2000 then vga_rows_up w' else w')
     else w\<lparr>vga_cells := (vga_cells w)[unat (vga_pos w) := vga_glyph w c], vga_pos := vga_pos w + 1\<rparr>)"
proof -
  have len: "length (vga_cells v) = 2000" using assms by (simp add: vga_inv_def)
  have room: "(if vga_pos v \<ge> VGA_SIZE then vga_scrolldown 1 v else Some v) = Some (vga_make_room v)"
    using len by (simp add: vga_make_room_def VGA_constants vga_scrolldown_eq)
  show ?thesis
    using vga_make_room_pos [OF assms]
    by (simp add: vga_putc_def room vga_linebreak_eq vga_putentryat_def vga_glyph_def Let_def)
qed

lemma row_end_le: "(n :: nat) < 2000 \<Longrightarrow> (n div 80 + 1) * 80 \<le> 2000"
  using less_mult_imp_div_less [of n 25 80] by simp

lemma vga_putc_inv:
  assumes "vga_inv v" and "vga_putc c v = Some v'"
  shows "vga_inv v'"
proof -
  let ?w = "vga_make_room v"
  note w = vga_make_room_pos [OF assms(1)]
  show ?thesis
  proof (cases "c = CHR 0x0A")
    case True
    let ?v = "?w\<lparr>vga_pos := vga_next_row (vga_pos ?w)\<rparr>"
    have "unat (vga_next_row (vga_pos ?w)) \<le> 2000"
      unfolding unat_next_row [OF w(2)] by (rule row_end_le [OF w(2)])
    then have "vga_pos ?v \<le> VGA_SIZE" by (simp add: VGA_constants word_le_nat_alt)
    moreover have "v' = (if vga_pos ?v = 2000 then vga_rows_up ?v else ?v)"
      using assms(2) True by (simp add: vga_putc_eq [OF assms(1)] Let_def)
    ultimately show ?thesis
      using w(1) by (simp add: vga_inv_def vga_rows_up_def VGA_constants)
  next
    case False
    have "unat (vga_pos ?w + 1) = Suc (unat (vga_pos ?w))"
      using w(2) by (intro unat_plus_one_less [where lim = 2000]) simp
    then have "vga_pos ?w + 1 \<le> VGA_SIZE"
      using w(2) by (simp add: VGA_constants word_le_nat_alt)
    moreover have "v' = ?w\<lparr>vga_cells := (vga_cells ?w)[unat (vga_pos ?w) := vga_glyph ?w c],
        vga_pos := vga_pos ?w + 1\<rparr>"
      using assms(2) False by (simp add: vga_putc_eq [OF assms(1)] Let_def)
    ultimately show ?thesis
      using w(1) by (simp add: vga_inv_def)
  qed
qed

section \<open>The driver is a console\<close>

interpretation vga_console: console
  vga_putc vga_inv "\<lambda>v. unat (vga_pos v)" vga_cells vga_glyph 1999
proof
  fix s :: vga and c :: char
  assume "vga_inv s"
  then show "\<exists>s'. vga_putc c s = Some s' \<and> vga_inv s'"
    using vga_putc_eq vga_putc_inv by metis
next
  fix s s' :: vga and c :: char
  assume "vga_inv s" "c \<noteq> CHR 0x0A" "unat (vga_pos s) < 1999" "vga_putc c s = Some s'"
  moreover from this have "vga_make_room s = s"
    by (simp add: vga_make_room_def word_le_nat_alt)
  moreover have "unat (vga_pos s + 1) = Suc (unat (vga_pos s))"
    using \<open>unat (vga_pos s) < 1999\<close> by (intro unat_plus_one_less [where lim = 1999]) simp
  ultimately show "vga_cells s' = (vga_cells s)[unat (vga_pos s) := vga_glyph s c] \<and>
      unat (vga_pos s') = Suc (unat (vga_pos s)) \<and> vga_glyph s' = vga_glyph s"
    by (auto simp: vga_putc_eq Let_def vga_glyph_def fun_eq_iff)
next
  fix s :: vga
  assume "vga_inv s"
  then show "1999 < length (vga_cells s)" by (simp add: vga_inv_def)
qed

lemma vga_write_puts: "vga_write cs v = puts vga_putc cs v"
  by (induction cs arbitrary: v) (simp_all split: bind_split)

lemma vga_start_inv: "length cs = 2000 \<Longrightarrow> vga_inv (vga_start cs)"
  by (simp add: vga_inv_def vga_start_def)

end
