(* ===== verification/Print_Properties.thy ===== *)
theory Print_Properties
  imports Vga_Correct
begin

text \<open>
  What is shown of \<open>printk\<close>: the text and the count it produces, its conversions, the integer
  arithmetic under them, and the console driver it writes to.
\<close>

section \<open>\<open>printk\<close>\<close>

text \<open>C7. Refinement of the meaning of formats: on every format whose pieces have a defined meaning,
  \<open>_print\<close> writes exactly that meaning and returns its length, plus 8 for every \<open>%p\<close>.\<close>

theorem print_prints_meaning:
  assumes "plain_text ps" and "denote m ps args = Some out"
  shows "print_fmt m (render ps) args = Inr (int (length out) + overcount ps, out)"
  unfolding print_fmt_def using assms by (intro print_loop_denote) simp_all

lemmas denote_eval = denote_piece.simps denote_num.simps arg_value.simps decimal_int_def signed_value_def
  numeral_string_def digits.simps pointer_string_def hex_def Hex_def overcount_def overcount_piece_def

lemma string_eval:
  "digits 10 305 = [3, 0, 5]" "digits 16 48879 = [11, 14, 14, 15]"
  by (simp_all add: digits.simps)

theorem print_prints_meaning_witness:
  "print_fmt (\<lambda>_. NUL) (render [Text (CHR ''n''), Num L_none C_d, Percent, Num L_hh C_i, Num L_none C_x]) [305, 0xffff, 48879]
     = Inr (int (length ''n305%-1beef'') + 0, ''n305%-1beef'')"
  using print_prints_meaning [of "[Text (CHR ''n''), Num L_none C_d, Percent, Num L_hh C_i, Num L_none C_x]" "\<lambda>_. NUL"
      "[305, 0xffff, 48879]" "''n305%-1beef''"]
  by (simp add: plain_text_def NUL_def denote_eval)

text \<open>C38. Termination: the format parser ends on every string and at every index, so no format can
  make \<open>_parse_format\<close> run on.\<close>

theorem parse_format_terminates: "\<exists>f. parse_format str i = Some f"
  by (rule parse_format_total)

text \<open>The parser recognises every length modifier and conversion letter, wherever they stand and
  whatever follows.\<close>

theorem parse_format_recognises:
  "parse_format (pre @ mod_chars l @ conv_char c # rest) (length pre) = Some (format_of l c)"
  by (rule parse_format_num) simp

section \<open>Conversions\<close>

lemma unat_load_num: "k \<le> 8 \<Longrightarrow> unat (load_num (bytes_of k w)) = unat w mod 2 ^ (8 * k)"
  unfolding load_num_bytes_of unsigned_take_bit_eq by (rule take_bit_eq_mod)



text \<open>C36. Signed decimals of 1, 2 and 4 bytes print the two's complement value, the smallest one
  included.\<close>

theorem print_dec_signed_correct:
  assumes "k = 1 \<or> k = 2 \<or> k = 4"
  shows "print_dec_signed (bytes_of k w) =
    (let s = decimal_int (signed_value (8 * k) (unat w mod 2 ^ (8 * k))) in Inr (int (length s), s))"
proof -
  have "k \<le> 8" using assms by auto
  note v = unat_load_num [OF this, of w]
  show ?thesis using print_dec_signed_ok [of "bytes_of k w"] assms v by simp
qed

theorem print_dec_signed_correct_witness: "print_dec_signed (bytes_of 1 0x80) = Inr (4, ''-128'')"
  using print_dec_signed_correct [of 1 "0x80"]
  by (simp add: decimal_int_def signed_value_def numeral_string_def digits.simps hex_def)

text \<open>Octal and hexadecimal: every object prints as its shortest numeral, in the digit set of the
  conversion, with the numeral's length as the count.\<close>

lemma print_based_correct:
  "print_oct bs = (let s = numeral_string hex 8 (unat (load_num bs)) in Inr (int (length s), s)) \<and>
   print_hex bs = (let s = numeral_string hex 16 (unat (load_num bs)) in Inr (int (length s), s)) \<and>
   print_Hex bs = (let s = numeral_string Hex 16 (unat (load_num bs)) in Inr (int (length s), s))"
  by (intro conjI print_oct_ok print_hex_ok print_Hex_ok)

text \<open>C37. Round trip: reading back the digits that \<open>_print_hex\<close> writes gives the number it was given.\<close>

definition hex_value :: "string \<Rightarrow> nat" where
  "hex_value s = foldl (\<lambda>v c. v * 16 + length (takeWhile (\<lambda>d. d \<noteq> c) hex)) 0 s"

lemma hex_index: "d < 16 \<Longrightarrow> length (takeWhile (\<lambda>x. x \<noteq> hex ! d) hex) = d"
proof -
  have "\<forall>d \<in> set [0..<16]. length (takeWhile (\<lambda>x. x \<noteq> hex ! d) hex) = d" by (simp add: hex_def upt_rec)
  then show "d < 16 \<Longrightarrow> length (takeWhile (\<lambda>x. x \<noteq> hex ! d) hex) = d" by simp
qed

lemma hex_value_snoc: "hex_value (s @ [c]) = hex_value s * 16 + length (takeWhile (\<lambda>d. d \<noteq> c) hex)"
  by (simp add: hex_value_def)

lemma hex_value_digits: "\<forall>d\<in>set ds. d < 16 \<Longrightarrow> hex_value (map ((!) hex) ds) = digits_value 16 ds"
proof (induction ds rule: rev_induct)
  case Nil
  then show ?case by (simp add: hex_value_def)
next
  case (snoc d ds)
  then show ?case by (simp add: hex_value_snoc digits_value_snoc hex_index)
qed

theorem print_hex_roundtrip:
  "\<exists>n out. print_hex (bytes_of 8 w) = Inr (n, out) \<and> hex_value out = unat w \<and> n = int (length out)"
proof -
  have "\<forall>d\<in>set (digits 16 (unat w)). d < 16" by (rule digits_less) simp
  then have "hex_value (numeral_string hex 16 (unat w)) = unat w"
    by (simp add: numeral_string_def hex_value_digits digits_value_digits)
  then show ?thesis using print_hex_ok [of "bytes_of 8 w"] by (simp add: Let_def)
qed

text \<open>Pointers print as \<open>0x\<close> and two digits a byte, but the count returned is 18 for every size:
  the code doubles the size of its 64-bit local, not of the object.\<close>

theorem print_ptr_count:
  assumes "0 < k" and "k \<le> 8"
  shows "\<exists>out. print_ptr (bytes_of k w) = Inr (18, out) \<and> length out = 2 + 2 * k"
  using assms print_ptr_ok [of "bytes_of k w"] by (simp add: pointer_string_def)

theorem print_ptr_count_witness: "\<exists>out. print_ptr (bytes_of 4 0xb8000) = Inr (18, out) \<and> length out = 2 + 2 * 4"
  using print_ptr_count [of 4 "0xb8000"] by simp

section \<open>Integer arithmetic\<close>

text \<open>C39. \<open>div64\<close> divides whenever the first multiple of the divisor beyond the dividend fits into 64
  bits.\<close>

theorem div64_divides:
  assumes "b \<noteq> 0" and "unat b * (unat a div unat b + 1) < 2 ^ 64"
  shows "div64 a b = Some (a div b)"
  using assms by (rule div64_eq)

theorem div64_divides_witness: "div64 1000000007 1000 = Some (1000000007 div 1000)"
  using div64_divides [of 1000 1000000007] by simp

text \<open>C40. \<open>div64\<close> does not return when every product, taken modulo \<open>2 ^ 64\<close>, stays below the
  dividend; the largest dividend is one such case with any divisor, so \<open>%llu\<close> of \<open>2 ^ 64 - 1\<close> never
  ends.\<close>

theorem div64_runs_forever: "div64 (- 1) b = None"
  unfolding div64_def by (rule div64_loop_diverges) simp

text \<open>The decimal logarithm is exact.\<close>

theorem ilog10u_exact:
  "unat v < 10 ^ Suc (ilog10u v) \<and> (v \<noteq> 0 \<longrightarrow> 10 ^ ilog10u v \<le> unat v)"
  using ilog10u_upper ilog10u_lower by simp

theorem ilog10u_exact_witness: "(1000 :: u64) \<noteq> 0 \<and> 10 ^ ilog10u 1000 \<le> unat (1000 :: u64)"
  using ilog10u_exact [of 1000] by simp

text \<open>The binary logarithm is exact, and below the width of its argument.\<close>

theorem ilog2u_exact:
  "ilog2u v < 64 \<and> unat v < 2 ^ Suc (ilog2u v) \<and> (v \<noteq> 0 \<longrightarrow> 2 ^ ilog2u v \<le> unat v)"
  using ilog2u_upper ilog2u_lower ilog2u_less by simp

theorem ilog2u_exact_witness: "(1000 :: u64) \<noteq> 0 \<and> 2 ^ ilog2u 1000 \<le> unat (1000 :: u64)"
  using ilog2u_exact [of 1000] by simp

section \<open>The console\<close>

text \<open>C25. Safety and invariant: from a cursor on the screen, every sequence of characters, control
  characters included, is written without touching memory outside the 2000 cells, and the cursor
  stays on the screen.\<close>

theorem vga_write_safe:
  assumes "vga_inv v"
  shows "\<exists>v'. vga_write cs v = Some v' \<and> vga_inv v'"
  unfolding vga_write_puts by (rule vga_console.puts_safe [OF assms])

theorem vga_write_safe_witness:
  "\<exists>v'. vga_write ''trash'' (vga_start (replicate 2000 0)) = Some v' \<and> vga_inv v'"
  by (rule vga_write_safe [OF vga_start_inv]) simp

text \<open>C26. \<open>printk\<close> end to end: a one-line text that fits before the last cell appears at the cursor
  in the current colour, every other cell is kept, and the cursor moves past it.\<close>

theorem printk_shows:
  assumes "vga_inv v" and "plain_text ps" and "denote m ps args = Some out"
    and "CHR 0x0A \<notin> set out" and "unat (vga_pos v) + length out \<le> 1999"
  shows "\<exists>v'. printk_with vga_putc m (render ps) args v = Inr (int (length out) + overcount ps, v') \<and>
    vga_inv v' \<and> unat (vga_pos v') = unat (vga_pos v) + length out \<and>
    vga_cells v' = take (unat (vga_pos v)) (vga_cells v) @ map (vga_glyph v) out @
      drop (unat (vga_pos v) + length out) (vga_cells v)"
  using vga_console.printk_prints [OF assms] by blast

theorem printk_shows_witness:
  "\<exists>v'. printk_with vga_putc (\<lambda>_. NUL) (render [Num L_none C_u, Text (CHR ''!'')]) [305] (vga_start (replicate 2000 0)) =
      Inr (int (length ''305!'') + overcount [Num L_none C_u, Text (CHR ''!'')], v') \<and> vga_inv v' \<and>
    unat (vga_pos v') = unat (vga_pos (vga_start (replicate 2000 0))) + length ''305!'' \<and>
    vga_cells v' = take (unat (vga_pos (vga_start (replicate 2000 0)))) (vga_cells (vga_start (replicate 2000 0))) @
      map (vga_glyph (vga_start (replicate 2000 0))) ''305!'' @
      drop (unat (vga_pos (vga_start (replicate 2000 0))) + length ''305!'') (vga_cells (vga_start (replicate 2000 0)))"
proof (rule printk_shows)
  show "vga_inv (vga_start (replicate 2000 0))" by (rule vga_start_inv) simp
  show "plain_text [Num L_none C_u, Text (CHR ''!'')]" by (simp add: plain_text_def NUL_def)
  show "denote (\<lambda>_. NUL) [Num L_none C_u, Text (CHR ''!'')] [305] = Some ''305!''" by (simp add: denote_eval)
  show "CHR 0x0A \<notin> set ''305!''" by simp
  show "unat (vga_pos (vga_start (replicate 2000 0))) + length ''305!'' \<le> 1999" by (simp add: vga_start_def)
qed

text \<open>Scrolling moves every row up by one, drops the first and blanks the last, and the position
  follows.\<close>

lemma vga_scroll_one_row:
  assumes "length (vga_cells v) = 2000"
  shows "vga_scrolldown 1 v = Some (v\<lparr>vga_cells := drop 80 (vga_cells v) @ replicate 80 (vga_blank v), vga_pos := vga_pos v - 80\<rparr>)"
  using vga_scrolldown_eq [OF assms] by (simp add: vga_rows_up_def)

lemma vga_scroll_one_row_instance:
  "vga_scrolldown 1 (vga_start (replicate 2000 7)) = Some ((vga_start (replicate 2000 7))\<lparr>
     vga_cells := drop 80 (vga_cells (vga_start (replicate 2000 7))) @ replicate 80 (vga_blank (vga_start (replicate 2000 7))),
     vga_pos := vga_pos (vga_start (replicate 2000 7)) - 80\<rparr>)"
  by (rule vga_scroll_one_row) (simp add: vga_start_def)

end
