(* ===== verification/Paging.thy ===== *)
theory Paging
  imports Prelude
begin

text \<open>
  \<open>page.c\<close> and \<open>page.h\<close> up to the two operations that call the heap (\<open>page_new\<close> and \<open>page_free\<close> are in
  theory \<open>Alloc\<close>), and the state shared by the pager and the heap.

  Memory is what kernel code sees at virtual addresses, one 32-bit cell per 4-aligned address; every
  access of \<open>page.c\<close> and \<open>alloc.c\<close> is 4-aligned.  Page tables are cells of that memory.  The page
  directory and the lookup table, two pages nothing else is placed in, are maps from their index.
  Which frame an address reaches is what its page table entry says; the processor's translation,
  page faults and the TLB are not part of the state, so \<open>invlpg\<close> has no effect on it.
\<close>

section \<open>State\<close>

record alloc_ctxt =
  ac_free_list :: u32
  ac_start :: u32
  ac_end :: u32

record kstate =
  mem :: "u32 \<Rightarrow> u32"
  page_dir :: "u32 \<Rightarrow> u32"
  page_table_lookup :: "u32 \<Rightarrow> u32"
  kernel_heap_end_pma :: u32
  kernel_heap_end_vma :: u32
  page_free_list :: u32
  kernel_ctxt :: alloc_ctxt
  get_page_first_run :: bool

definition wr :: "u32 \<Rightarrow> u32 \<Rightarrow> kstate \<Rightarrow> kstate" where
  "wr a v s = s\<lparr>mem := (mem s)(a := v)\<rparr>"

lemma wr_fields [simp]:
  "mem (wr a v s) = (mem s)(a := v)"
  "page_dir (wr a v s) = page_dir s"
  "page_table_lookup (wr a v s) = page_table_lookup s"
  "kernel_heap_end_pma (wr a v s) = kernel_heap_end_pma s"
  "kernel_heap_end_vma (wr a v s) = kernel_heap_end_vma s"
  "page_free_list (wr a v s) = page_free_list s"
  "kernel_ctxt (wr a v s) = kernel_ctxt s"
  "get_page_first_run (wr a v s) = get_page_first_run s"
  by (simp_all add: wr_def)

section \<open>Constants and flag bits\<close>

definition PAGE_SIZE :: u32 where "PAGE_SIZE = 4096"
definition PAGE_ENTRIES :: u32 where "PAGE_ENTRIES = 1024"

definition PAGE_IGNORE :: u32 where "PAGE_IGNORE = push_bit 8 1"
definition PAGE_GLOBAL :: u32 where "PAGE_GLOBAL = push_bit 8 1"
definition PAGE_LARGE :: u32 where "PAGE_LARGE = push_bit 7 1"
definition PAGE_DIRTY :: u32 where "PAGE_DIRTY = push_bit 6 1"
definition PAGE_ACCESSED :: u32 where "PAGE_ACCESSED = push_bit 5 1"
definition PAGE_DISABLE_CACHE :: u32 where "PAGE_DISABLE_CACHE = push_bit 4 1"
definition PAGE_WRITE_THROUGH :: u32 where "PAGE_WRITE_THROUGH = push_bit 3 1"
definition PAGE_PUBLIC :: u32 where "PAGE_PUBLIC = push_bit 2 1"
definition PAGE_WRITE :: u32 where "PAGE_WRITE = push_bit 1 1"
definition PAGE_PRESENT :: u32 where "PAGE_PRESENT = push_bit 0 1"

section \<open>Operations\<close>

text \<open>\<open>page_clear\<close> stores 512 64-bit zeroes, each of them two cells.\<close>

definition page_clear :: "u32 \<Rightarrow> kstate \<Rightarrow> kstate" where
  "page_clear vma s =
     fold (\<lambda>i s. wr (vma + word_of_nat (8 * i) + 4) 0 (wr (vma + word_of_nat (8 * i)) 0 s)) [0..<512] s"

definition page_get_dir_idx :: "u32 \<Rightarrow> u32" where
  "page_get_dir_idx vma = drop_bit 22 vma"

definition page_get_table_idx :: "u32 \<Rightarrow> u32" where
  "page_get_table_idx vma = drop_bit 12 vma AND 0x3ff"

definition page_get_table :: "kstate \<Rightarrow> u32 \<Rightarrow> u32" where
  "page_get_table s vma = (let idx = page_get_dir_idx vma in page_table_lookup s idx)"

lemma table_idx_less: "unat (page_get_table_idx v) < 1024"
  unfolding page_get_table_idx_def mask_fff by (simp add: unat_and_mask)

lemma idx_of_nat:
  assumes "v < 2 ^ 32"
  shows "page_get_dir_idx (word_of_nat v) = word_of_nat (v div 4194304)"
    and "page_get_table_idx (word_of_nat v) = word_of_nat (v div 4096 mod 1024)"
proof -
  have u: "unat (word_of_nat v :: u32) = v" using assms by (rule unat_of_nat32)
  have "unat (page_get_dir_idx (word_of_nat v)) = v div 4194304"
    unfolding page_get_dir_idx_def unat_drop_bit u by simp
  then show "page_get_dir_idx (word_of_nat v) = word_of_nat (v div 4194304)"
    by (rule unat_eq_word)
  have "unat (page_get_table_idx (word_of_nat v)) = v div 4096 mod 1024"
    unfolding page_get_table_idx_def mask_fff unat_and_mask unat_drop_bit u by simp
  then show "page_get_table_idx (word_of_nat v) = word_of_nat (v div 4096 mod 1024)"
    by (rule unat_eq_word)
qed

text \<open>\<^verbatim>\<open>&table[page_get_table_idx(vma)]\<close>, the cell of the entry for \<open>vma\<close>.\<close>

definition entry_addr :: "kstate \<Rightarrow> u32 \<Rightarrow> u32" where
  "entry_addr s vma = page_get_table s vma + 4 * page_get_table_idx vma"

definition page_get_entry :: "kstate \<Rightarrow> u32 \<Rightarrow> u32" where
  "page_get_entry s vma = mem s (entry_addr s vma)"

definition page_get_pma :: "kstate \<Rightarrow> u32 \<Rightarrow> u32" where
  "page_get_pma s vma = mem s (entry_addr s vma) AND NOT 0xfff"

definition page_get_flags :: "kstate \<Rightarrow> u32 \<Rightarrow> u32" where
  "page_get_flags s vma = page_get_entry s vma AND 0xfff"

definition page_is_present :: "kstate \<Rightarrow> u32 \<Rightarrow> bool" where
  "page_is_present s vma \<longleftrightarrow> page_get_entry s vma AND PAGE_PRESENT \<noteq> 0"

definition page_set_entry :: "u32 \<Rightarrow> u32 \<Rightarrow> kstate \<Rightarrow> kstate" where
  "page_set_entry vma entry s = wr (entry_addr s vma) entry s"

definition page_remap :: "u32 \<Rightarrow> u32 \<Rightarrow> kstate \<Rightarrow> kstate" where
  "page_remap vma pma s =
     (let a = entry_addr s vma in wr a ((mem s a AND 0xfff) OR pma) s)"

definition page_unmap :: "u32 \<Rightarrow> kstate \<Rightarrow> kstate" where
  "page_unmap vma s = (let a = entry_addr s vma in wr a (mem s a AND NOT PAGE_PRESENT) s)"

definition page_delete :: "u32 \<Rightarrow> kstate \<Rightarrow> kstate" where
  "page_delete vma s = wr (entry_addr s vma) 0 s"

definition page_set_flags :: "u32 \<Rightarrow> u32 \<Rightarrow> kstate \<Rightarrow> kstate" where
  "page_set_flags vma flags s =
     (let a = entry_addr s vma in wr a (push_bit 12 (drop_bit 12 (mem s a)) OR flags) s)"

definition page_set_dir_entry :: "u32 \<Rightarrow> u32 \<Rightarrow> u32 \<Rightarrow> kstate \<Rightarrow> kstate" where
  "page_set_dir_entry idx table_vma entry s =
     s\<lparr>page_table_lookup := (page_table_lookup s)(idx := table_vma),
       page_dir := (page_dir s)(idx := entry)\<rparr>"

text \<open>The lookup table is written before \<open>page_get_pma\<close> reads it.\<close>

definition page_table_map :: "u32 \<Rightarrow> u32 \<Rightarrow> u32 \<Rightarrow> kstate \<Rightarrow> kstate" where
  "page_table_map table_vma vma flags s =
     (let idx = page_get_dir_idx vma;
          s1 = s\<lparr>page_table_lookup := (page_table_lookup s)(idx := table_vma)\<rparr>
      in s1\<lparr>page_dir := (page_dir s1)(idx := page_get_pma s1 table_vma OR flags)\<rparr>)"

definition page_table_unmap_idx :: "u32 \<Rightarrow> kstate \<Rightarrow> kstate" where
  "page_table_unmap_idx idx s =
     s\<lparr>page_table_lookup := (page_table_lookup s)(idx := 0), page_dir := (page_dir s)(idx := 0)\<rparr>"

definition page_table_unmap :: "u32 \<Rightarrow> kstate \<Rightarrow> kstate" where
  "page_table_unmap vma s =
     (let idx = page_get_dir_idx vma in
      s\<lparr>page_table_lookup := (page_table_lookup s)(idx := 0), page_dir := (page_dir s)(idx := 0)\<rparr>)"

end
