(* ===== verification/Memory_Map.thy ===== *)
theory Memory_Map
  imports Prelude
begin

text \<open>
  \<open>mem.h\<close> and \<open>kernel.ld\<close>: the symbols of the linker script, whose addresses are the constants of
  \<open>mem.h\<close>, and the layout the script gives an image from the contents of its sections.
\<close>

section \<open>Symbols\<close>

text \<open>The constants of \<open>mem.h\<close>, and the address of \<open>init_page_struct\<close> (three pages).\<close>

record linker =
  KERNEL_START_LMA :: u32
  KERNEL_START_VMA :: u32
  KERNEL_END_VMA :: u32
  KERNEL_SIZE :: u32
  INIT_START :: u32
  INIT_END :: u32
  INIT_SIZE :: u32
  INIT_BSS_START :: u32
  INIT_BSS_END :: u32
  INIT_BSS_SIZE :: u32
  TEXT_START_VMA :: u32
  TEXT_END_VMA :: u32
  TEXT_SIZE :: u32
  RODATA_START_VMA :: u32
  RODATA_END_VMA :: u32
  RODATA_SIZE :: u32
  DATA_START_VMA :: u32
  DATA_END_VMA :: u32
  DATA_SIZE :: u32
  BSS_START_VMA :: u32
  BSS_END_VMA :: u32
  BSS_SIZE :: u32
  INIT_STACK_TOP :: u32
  init_page_struct_addr :: u32

section \<open>The linker script\<close>

text \<open>
  The sizes of the sections' contents.  In \<open>.init_bss\<close> the 16-byte aligned temporary stack of \<open>boot.s\<close>
  and the page-aligned \<open>init_page_struct\<close> have offsets the link order decides.
\<close>

record contents =
  init_bytes :: u32
  init_bss_bytes :: u32
  stack_top_offset :: u32
  page_struct_offset :: u32
  text_bytes :: u32
  rodata_bytes :: u32
  data_bytes :: u32
  bss_bytes :: u32

text \<open>\<open>ALIGN(4K)\<close>: the location counter rounded up.\<close>

definition align_4k :: "u32 \<Rightarrow> u32" where
  "align_4k a = (a + 0xfff) AND NOT 0xfff"

definition link :: "contents \<Rightarrow> linker" where
  "link c =
     (let lma = 0x100000; vma = 0xE0000000;
          init_start = align_4k lma;
          init_end = align_4k (init_start + init_bytes c);
          init_bss_start = align_4k (init_start + init_bytes c);
          init_bss_end = align_4k (init_bss_start + init_bss_bytes c);
          text_start = align_4k vma;
          text_end = align_4k (text_start + text_bytes c);
          rodata_start = align_4k (text_start + text_bytes c);
          rodata_end = align_4k (rodata_start + rodata_bytes c);
          data_start = align_4k (rodata_start + rodata_bytes c);
          data_end = align_4k (data_start + data_bytes c);
          bss_start = align_4k (data_start + data_bytes c);
          bss_end = align_4k (bss_start + bss_bytes c);
          kernel_end = align_4k (bss_start + bss_bytes c)
      in \<lparr>KERNEL_START_LMA = lma, KERNEL_START_VMA = vma, KERNEL_END_VMA = kernel_end, KERNEL_SIZE = kernel_end - vma,
          INIT_START = init_start, INIT_END = init_end, INIT_SIZE = init_end - init_start,
          INIT_BSS_START = init_bss_start, INIT_BSS_END = init_bss_end, INIT_BSS_SIZE = init_bss_end - init_bss_start,
          TEXT_START_VMA = text_start, TEXT_END_VMA = text_end, TEXT_SIZE = text_end - text_start,
          RODATA_START_VMA = rodata_start, RODATA_END_VMA = rodata_end, RODATA_SIZE = rodata_end - rodata_start,
          DATA_START_VMA = data_start, DATA_END_VMA = data_end, DATA_SIZE = data_end - data_start,
          BSS_START_VMA = bss_start, BSS_END_VMA = bss_end, BSS_SIZE = bss_end - bss_start,
          INIT_STACK_TOP = init_bss_start + stack_top_offset c,
          init_page_struct_addr = init_bss_start + page_struct_offset c\<rparr>)"

section \<open>Rounding to pages\<close>

lemma align_4k_nat:
  assumes "unat a + 4095 < 2 ^ 32"
  shows "unat (align_4k a) = (unat a + 4095) div 4096 * 4096"
proof -
  have m: "(0xfff :: u32) = mask 12" by (simp add: mask_eq_exp_minus_1)
  have "unat (a + 0xfff) = unat a + 4095" using assms by (simp add: unat_word_ariths)
  then show ?thesis
    unfolding align_4k_def m unat_and_not_mask by (simp add: mask_eq_exp_minus_1)
qed

text \<open>
  Contents that fit: the parts of \<open>.init_bss\<close> lie in it, the sections are not empty, and the whole image
  with the first three page tables stays below 4 MiB.
\<close>

definition contents_ok :: "contents \<Rightarrow> bool" where
  "contents_ok c \<longleftrightarrow>
     4096 dvd unat (page_struct_offset c) \<and> unat (page_struct_offset c) + 12288 \<le> unat (init_bss_bytes c) \<and>
     0 < unat (text_bytes c) \<and>
     unat (init_bytes c) + unat (init_bss_bytes c) + unat (text_bytes c) + unat (rodata_bytes c) + unat (data_bytes c) +
       unat (bss_bytes c) + 0x100000 + 6 * 4095 + 12288 < 4194304"

text \<open>
  What the boot code needs of the layout: sections on page boundaries, the kernel at \<open>0xE0000000\<close> with its
  text not empty, and the whole image, with the first three page tables, below 4 MiB of physical memory.
\<close>

definition image_ok :: "linker \<Rightarrow> bool" where
  "image_ok l \<longleftrightarrow>
     4096 dvd unat (INIT_START l) \<and> 4096 dvd unat (INIT_BSS_END l) \<and> 4096 dvd unat (init_page_struct_addr l) \<and>
     4096 dvd unat (RODATA_END_VMA l) \<and> 4096 dvd unat (BSS_END_VMA l) \<and>
     INIT_START l \<le> init_page_struct_addr l \<and>
     unat (init_page_struct_addr l) + 12288 \<le> unat (INIT_BSS_END l) \<and>
     KERNEL_START_VMA l = 0xE0000000 \<and> TEXT_START_VMA l = 0xE0000000 \<and> 0xE0000000 < RODATA_END_VMA l \<and>
     RODATA_END_VMA l \<le> BSS_END_VMA l \<and> KERNEL_END_VMA l = BSS_END_VMA l \<and>
     unat (INIT_BSS_END l) + (unat (BSS_END_VMA l) - 0xE0000000) + 12288 < 4194304"

lemma round_up_4k: "n \<le> (n + 4095) div 4096 * 4096" "(n + 4095) div 4096 * 4096 \<le> n + (4095 :: nat)"
proof -
  have "(n + 4095) div 4096 * 4096 + (n + 4095) mod 4096 = n + 4095" "(n + 4095) mod 4096 < 4096"
    by (simp_all add: div_mult_mod_eq)
  then show "n \<le> (n + 4095) div 4096 * 4096" "(n + 4095) div 4096 * 4096 \<le> n + 4095" by linarith+
qed

lemma unat_plus_small: "unat a + unat b < 2 ^ 32 \<Longrightarrow> unat (a + b :: u32) = unat a + unat b"
  by (simp add: unat_word_ariths)

text \<open>The end of a section that starts at a page boundary \<open>a\<close> and whose contents are \<open>b\<close> bytes.\<close>

lemma section_end:
  assumes "4096 dvd unat a" and "unat a + unat b + 4095 < 2 ^ 32"
  shows "4096 dvd unat (align_4k (a + b))" and "unat a + unat b \<le> unat (align_4k (a + b))"
    and "unat (align_4k (a + b)) \<le> unat a + unat b + 4095"
proof -
  have e: "unat (align_4k (a + b)) = (unat a + unat b + 4095) div 4096 * 4096"
    using align_4k_nat [of "a + b"] unat_plus_small [of a b] assms(2) by simp
  show "4096 dvd unat (align_4k (a + b))" unfolding e by simp
  show "unat a + unat b \<le> unat (align_4k (a + b))" "unat (align_4k (a + b)) \<le> unat a + unat b + 4095"
    unfolding e by (rule round_up_4k)+
qed

text \<open>Every image that the script lays out from contents that fit is one the boot code can map.\<close>

lemma link_image_ok:
  assumes "contents_ok c"
  shows "image_ok (link c)"
proof -
  note a = assms [unfolded contents_ok_def]
  define i0 where "i0 = align_4k 0x100000"
  define i1 where "i1 = align_4k (i0 + init_bytes c)"
  define i2 where "i2 = align_4k (i1 + init_bss_bytes c)"
  define t0 where "t0 = align_4k 0xE0000000"
  define t1 where "t1 = align_4k (t0 + text_bytes c)"
  define t2 where "t2 = align_4k (t1 + rodata_bytes c)"
  define t3 where "t3 = align_4k (t2 + data_bytes c)"
  define t4 where "t4 = align_4k (t3 + bss_bytes c)"
  have s0: "i0 = 0x100000" "t0 = 0xE0000000" by (simp_all add: i0_def t0_def align_4k_def)
  have u0: "unat i0 = 0x100000" "unat t0 = 0xE0000000" unfolding s0 by simp_all
  note s1 = section_end [of i0 "init_bytes c", folded i1_def]
  note s2 = section_end [of i1 "init_bss_bytes c", folded i2_def]
  note s3 = section_end [of t0 "text_bytes c", folded t1_def]
  note s4 = section_end [of t1 "rodata_bytes c", folded t2_def]
  note s5 = section_end [of t2 "data_bytes c", folded t3_def]
  note s6 = section_end [of t3 "bss_bytes c", folded t4_def]
  have i1: "4096 dvd unat i1" "0x100000 \<le> unat i1" "unat i1 \<le> 0x100000 + unat (init_bytes c) + 4095"
    using s1 u0 a by simp_all
  have i2: "4096 dvd unat i2" "unat i1 + unat (init_bss_bytes c) \<le> unat i2" "unat i2 \<le> unat i1 + unat (init_bss_bytes c) + 4095"
    using s2 i1 a by simp_all
  have t1: "4096 dvd unat t1" "0xE0000000 + unat (text_bytes c) \<le> unat t1" "unat t1 \<le> 0xE0000000 + unat (text_bytes c) + 4095"
    using s3 u0 a by simp_all
  have t2: "4096 dvd unat t2" "unat t1 + unat (rodata_bytes c) \<le> unat t2" "unat t2 \<le> unat t1 + unat (rodata_bytes c) + 4095"
    using s4 t1 a by simp_all
  have t3: "4096 dvd unat t3" "unat t2 + unat (data_bytes c) \<le> unat t3" "unat t3 \<le> unat t2 + unat (data_bytes c) + 4095"
    using s5 t1 t2 a by simp_all
  have t4: "4096 dvd unat t4" "unat t3 + unat (bss_bytes c) \<le> unat t4" "unat t4 \<le> unat t3 + unat (bss_bytes c) + 4095"
    using s6 t1 t2 t3 a by simp_all
  have p: "unat (i1 + page_struct_offset c) = unat i1 + unat (page_struct_offset c)"
    using i1 a by (intro unat_plus_small) simp
  have l: "link c = link c\<lparr>INIT_START := i0, INIT_BSS_END := i2, init_page_struct_addr := i1 + page_struct_offset c,
      RODATA_END_VMA := t2, BSS_END_VMA := t4, KERNEL_END_VMA := t4, KERNEL_START_VMA := 0xE0000000, TEXT_START_VMA := t0\<rparr>"
    unfolding link_def Let_def i0_def [symmetric] i1_def [symmetric] i2_def [symmetric] t0_def [symmetric] t1_def [symmetric]
      t2_def [symmetric] t3_def [symmetric] t4_def [symmetric] by simp
  have d: "4096 dvd unat i1 + unat (page_struct_offset c)" using i1(1) a by (intro dvd_add) simp_all
  have size: "unat i2 + (unat t4 - 0xE0000000) + 12288 < 4194304"
    using a i1(2,3) i2(2,3) t1(2,3) t2(2,3) t3(2,3) t4(2,3) by linarith
  have "unat i1 + unat (page_struct_offset c) + 12288 \<le> unat i2" "0xE0000000 < unat t2" "unat t2 \<le> unat t4"
    "0x100000 \<le> unat i1 + unat (page_struct_offset c)"
    using a i1(2,3) i2(2,3) t1(2,3) t2(2,3) t3(2,3) t4(2,3) by linarith+
  then show ?thesis
    using size i2(1) t2(1) t4(1) d
    by (subst l) (simp add: image_ok_def u0 p s0 word_le_nat_alt word_less_nat_alt)
qed

end
