(* ===== verification/Alloc.thy ===== *)
theory Alloc
  imports Paging Memory_Map
begin

text \<open>
  \<open>alloc.c\<close> and \<open>alloc.h\<close>, with \<open>page_new\<close>, \<open>page_free\<close> and \<open>page_init_cleanup\<close> of \<open>page.c\<close>, which the
  heap calls and which call the heap.  An \<open>alloc_node_t\<close> has \<open>prev\<close> at offset 0 and \<open>next\<close> at 4; an
  \<open>alloc_chunk_desc_t\<close> has \<open>size_prev\<close> at 0 and \<open>size\<close> at 4.  Every caller in the source passes
  \<open>&kernel_ctxt\<close>, so the context is the field \<open>kernel_ctxt\<close> of the state.

  \<open>alloc\<close> takes its page source as an argument, as in C.  The source closes a cycle of calls
  (\<open>alloc\<close>, \<open>page_new\<close>, \<open>kfree\<close>, \<open>page_free\<close>, \<open>kmalloc\<close>, \<open>alloc\<close>), which is tied with a bound on the
  depth of \<open>page_new\<close>: \<open>Too_deep\<close> says that the bound was too small, \<open>Dies\<close> is \<open>die()\<close>, and \<open>Endless\<close>
  a loop that does not end.
\<close>

section \<open>Results and page sources\<close>

datatype kerror = Dies | Endless | Too_deep

definition returns :: "(kerror + 'a) option \<Rightarrow> kerror + 'a" where
  "returns r = (case r of None \<Rightarrow> Inl Endless | Some x \<Rightarrow> x)"

lemma returns_Some [simp]: "returns (Some x) = x"
  by (simp add: returns_def)

type_synonym page_fn = "kstate \<Rightarrow> kerror + (u32 \<times> kstate)"

section \<open>Chunk descriptors\<close>

definition KM_MIN_ALLOC_SIZE :: u32 where "KM_MIN_ALLOC_SIZE = 8"
definition KM_CHUNK_FREE :: u32 where "KM_CHUNK_FREE = 1"
definition DESC_SIZE :: u32 where "DESC_SIZE = 8"

definition alloc_get_desc :: "u32 \<Rightarrow> u32" where
  "alloc_get_desc vma = vma - DESC_SIZE"

definition alloc_get_size :: "kstate \<Rightarrow> u32 \<Rightarrow> u32" where
  "alloc_get_size s node = mem s (alloc_get_desc node + 4) AND NOT 7"

definition alloc_get_size_prev :: "kstate \<Rightarrow> u32 \<Rightarrow> u32" where
  "alloc_get_size_prev s node = mem s (alloc_get_desc node) AND NOT 7"

definition alloc_get_next_desc :: "kstate \<Rightarrow> u32 \<Rightarrow> u32" where
  "alloc_get_next_desc s node = node + alloc_get_size s node"

definition alloc_get_size_next :: "kstate \<Rightarrow> u32 \<Rightarrow> u32" where
  "alloc_get_size_next s node = mem s (alloc_get_next_desc s node + 4) AND NOT 7"

definition alloc_get_prev_desc :: "kstate \<Rightarrow> u32 \<Rightarrow> u32" where
  "alloc_get_prev_desc s node = node - alloc_get_size_prev s node - push_bit 1 DESC_SIZE"

definition alloc_get_node :: "u32 \<Rightarrow> u32" where
  "alloc_get_node chunk = chunk + DESC_SIZE"

section \<open>The free list\<close>

abbreviation free_list :: "kstate \<Rightarrow> u32" where
  "free_list s \<equiv> ac_free_list (kernel_ctxt s)"

abbreviation heap_end :: "kstate \<Rightarrow> u32" where
  "heap_end s \<equiv> ac_end (kernel_ctxt s)"

definition set_free_list :: "u32 \<Rightarrow> kstate \<Rightarrow> kstate" where
  "set_free_list n s = s\<lparr>kernel_ctxt := (kernel_ctxt s)\<lparr>ac_free_list := n\<rparr>\<rparr>"

definition set_heap_end :: "u32 \<Rightarrow> kstate \<Rightarrow> kstate" where
  "set_heap_end e s = s\<lparr>kernel_ctxt := (kernel_ctxt s)\<lparr>ac_end := e\<rparr>\<rparr>"

lemma set_ctxt_fields [simp]:
  "mem (set_free_list n s) = mem s" "mem (set_heap_end n s) = mem s"
  "free_list (set_free_list n s) = n" "free_list (set_heap_end n s) = free_list s"
  "heap_end (set_free_list n s) = heap_end s" "heap_end (set_heap_end n s) = n"
  "page_table_lookup (set_free_list n s) = page_table_lookup s"
  "page_table_lookup (set_heap_end n s) = page_table_lookup s"
  "page_free_list (set_free_list n s) = page_free_list s"
  "page_free_list (set_heap_end n s) = page_free_list s"
  by (simp_all add: set_free_list_def set_heap_end_def)

definition alloc_node_unlink :: "u32 \<Rightarrow> kstate \<Rightarrow> kstate" where
  "alloc_node_unlink node s =
     (let s1 = (if mem s node \<noteq> 0
                then wr (mem s node + 4) (mem s (node + 4)) s
                else set_free_list (mem s (node + 4)) s)
      in if mem s1 (node + 4) \<noteq> 0
         then wr (mem s1 (node + 4)) (mem s1 node) s1
         else s1)"

definition alloc_node_add :: "u32 \<Rightarrow> kstate \<Rightarrow> kstate" where
  "alloc_node_add node s =
     (let s1 = wr node 0 s;
          s2 = wr (node + 4) (free_list s1) s1;
          s3 = (if free_list s2 \<noteq> 0 then wr (free_list s2) node s2 else s2)
      in set_free_list node s3)"

definition alloc_clear_free :: "u32 \<Rightarrow> kstate \<Rightarrow> kstate" where
  "alloc_clear_free vma s =
     (let a = alloc_get_desc vma + 4;
          s1 = wr a (mem s a AND NOT KM_CHUNK_FREE) s;
          b = alloc_get_next_desc s1 vma
      in wr b (mem s1 b AND NOT KM_CHUNK_FREE) s1)"

definition alloc_set_free :: "u32 \<Rightarrow> kstate \<Rightarrow> kstate" where
  "alloc_set_free vma s =
     (let a = alloc_get_desc vma + 4;
          s1 = wr a (mem s a OR KM_CHUNK_FREE) s;
          b = alloc_get_next_desc s1 vma
      in wr b (mem s1 b OR KM_CHUNK_FREE) s1)"

section \<open>\<open>alloc\<close>\<close>

text \<open>
  The scan of the free list writes nothing, so it is a search for the node and the way it fits;
  \<open>None\<close> is a list that never ends.
\<close>

datatype fit = Fit_exact u32 | Fit_split u32 | Fit_none

partial_function (option) alloc_find :: "kstate \<Rightarrow> u32 \<Rightarrow> u32 \<Rightarrow> fit option" where
  "alloc_find s bytes n =
     (if n = 0 then Some Fit_none
      else let size = alloc_get_size s n in
        if size = bytes then Some (Fit_exact n)
        else if size > bytes + DESC_SIZE then Some (Fit_split n)
        else alloc_find s bytes (mem s (n + 4)))"

declare alloc_find.simps [code]

definition alloc_take :: "u32 \<Rightarrow> kstate \<Rightarrow> kstate" where
  "alloc_take n s = alloc_clear_free n (alloc_node_unlink n s)"

definition alloc_split :: "u32 \<Rightarrow> u32 \<Rightarrow> kstate \<Rightarrow> kstate" where
  "alloc_split n bytes s =
     (let chunk = alloc_get_desc n;
          new_chunk = n + bytes;
          s1 = wr new_chunk bytes s;
          s2 = wr (new_chunk + 4) (mem s1 (chunk + 4) - bytes - DESC_SIZE) s1;
          s3 = wr (new_chunk + 4) (mem s2 (new_chunk + 4) OR KM_CHUNK_FREE) s2;
          s4 = wr (alloc_get_next_desc s3 n) (mem s3 (new_chunk + 4) OR KM_CHUNK_FREE) s3;
          s5 = wr (chunk + 4) bytes s4;
          new_node = n + bytes + DESC_SIZE;
          s6 = wr new_node (mem s5 n) s5;
          s7 = wr (new_node + 4) (mem s5 (n + 4)) s6;
          s8 = (if mem s7 new_node \<noteq> 0 then wr (mem s7 new_node + 4) new_node s7
                else set_free_list new_node s7)
      in if mem s8 (new_node + 4) \<noteq> 0 then wr (mem s8 (new_node + 4)) new_node s8 else s8)"

text \<open>
  Extending the heap.  First the aligned start of the new chunk is enforced, by pushing the gap
  to the free list or dying when it is too small; then the end is moved, the missing pages are
  obtained and mapped, and the descriptors are written.
\<close>

definition alloc_align_end :: "u32 \<Rightarrow> kstate \<Rightarrow> kerror + kstate" where
  "alloc_align_end alignment s =
     (let free_block_size = align (heap_end s) alignment - heap_end s in
      if free_block_size \<noteq> 0
      then (if free_block_size \<le> DESC_SIZE then Inl Dies
            else let free_chunk = alloc_get_desc (heap_end s);
                     s1 = wr (free_chunk + 4) (free_block_size - DESC_SIZE) s;
                     s2 = wr (free_chunk + 4) (mem s1 (free_chunk + 4) OR KM_CHUNK_FREE) s1;
                     s3 = wr (alloc_get_next_desc s2 (heap_end s2)) (mem s2 (free_chunk + 4)) s2;
                     s4 = alloc_node_add (heap_end s3) s3
                 in Inr (set_heap_end (heap_end s4 + free_block_size) s4))
      else Inr s)"

definition alloc_map_page :: "page_fn \<Rightarrow> u32 \<Rightarrow> kstate \<Rightarrow> kerror + kstate" where
  "alloc_map_page get_page_pma page_vma s =
     rbind (get_page_pma s) (\<lambda>(page_pma, s1).
       Inr (page_set_entry page_vma (page_pma OR PAGE_WRITE OR PAGE_PRESENT) s1))"

definition alloc_map_pages :: "page_fn \<Rightarrow> u32 \<Rightarrow> u32 \<Rightarrow> kstate \<Rightarrow> kerror + kstate" where
  "alloc_map_pages get_page_pma old_ctxt_end bytes s =
     returns (for_loop PAGE_SIZE (alloc_map_page get_page_pma)
       (align old_ctxt_end PAGE_SIZE) (old_ctxt_end + bytes + DESC_SIZE) s)"

definition alloc_init_chunk :: "u32 \<Rightarrow> u32 \<Rightarrow> kstate \<Rightarrow> kstate" where
  "alloc_init_chunk vma bytes s =
     (let s1 = wr (alloc_get_desc vma + 4) bytes s;
          chunk_next = alloc_get_next_desc s1 vma
      in wr (chunk_next + 4) 0 (wr chunk_next bytes s1))"

definition alloc_extend :: "page_fn \<Rightarrow> u32 \<Rightarrow> u32 \<Rightarrow> kstate \<Rightarrow> kerror + (u32 \<times> kstate)" where
  "alloc_extend get_page_pma alignment bytes s =
     rbind (alloc_align_end alignment s) (\<lambda>s1.
       let old_ctxt_end = heap_end s1;
           s2 = set_heap_end (heap_end s1 + (bytes + DESC_SIZE)) s1
       in rbind (alloc_map_pages get_page_pma old_ctxt_end bytes s2) (\<lambda>s3.
            Inr (old_ctxt_end, alloc_init_chunk old_ctxt_end bytes s3)))"

definition alloc :: "page_fn \<Rightarrow> u32 \<Rightarrow> u32 \<Rightarrow> kstate \<Rightarrow> kerror + (u32 \<times> kstate)" where
  "alloc get_page_pma alignment bytes s =
     (let bytes = (if bytes \<noteq> 0 then align bytes KM_MIN_ALLOC_SIZE else KM_MIN_ALLOC_SIZE) in
      if alignment \<noteq> KM_MIN_ALLOC_SIZE then alloc_extend get_page_pma alignment bytes s
      else (case alloc_find s bytes (free_list s) of
              None \<Rightarrow> Inl Endless
            | Some (Fit_exact n) \<Rightarrow> Inr (n, alloc_take n s)
            | Some (Fit_split n) \<Rightarrow> Inr (n, alloc_split n bytes s)
            | Some Fit_none \<Rightarrow> alloc_extend get_page_pma alignment bytes s))"

section \<open>\<open>free\<close>\<close>

definition free_merge_next :: "u32 \<Rightarrow> kstate \<Rightarrow> kstate" where
  "free_merge_next vma s =
     (let chunk_next = alloc_get_next_desc s vma;
          chunk = alloc_get_desc vma in
      if mem s (chunk_next + 4) AND KM_CHUNK_FREE \<noteq> 0
      then (let s1 = alloc_node_unlink (alloc_get_node chunk_next) s;
                s2 = wr (chunk + 4) (mem s1 (chunk + 4) + (alloc_get_size_next s1 vma + DESC_SIZE)) s1
            in wr (alloc_get_next_desc s2 vma) (mem s2 (chunk + 4)) s2)
      else s)"

text \<open>\<open>chunk_prev\<close> is computed before the merge with the next chunk, which does not change it.\<close>

definition free_merge_prev :: "u32 \<Rightarrow> u32 \<Rightarrow> kstate \<Rightarrow> u32 \<times> kstate" where
  "free_merge_prev chunk_prev vma s =
     (if mem s (alloc_get_desc vma) AND KM_CHUNK_FREE \<noteq> 0
      then (let s1 = alloc_node_unlink (alloc_get_node chunk_prev) s;
                s2 = wr (chunk_prev + 4)
                       (alloc_get_size_prev s1 vma + alloc_get_size s1 vma + DESC_SIZE) s1;
                vma' = alloc_get_node chunk_prev
            in (vma', wr (alloc_get_next_desc s2 vma') (mem s2 (chunk_prev + 4)) s2))
      else (vma, s))"

partial_function (option) free_pages ::
  "(u32 \<Rightarrow> kstate \<Rightarrow> kerror + kstate) \<Rightarrow> u32 \<Rightarrow> u32 \<Rightarrow> kstate \<Rightarrow> (kerror + kstate) option"
where
  "free_pages page_free vma page s =
     (if page \<ge> vma
      then (case page_free page s of
              Inl e \<Rightarrow> Some (Inl e)
            | Inr s' \<Rightarrow> free_pages page_free vma (page - PAGE_SIZE) s')
      else Some (Inr s))"

declare free_pages.simps [code]

definition free_with :: "(u32 \<Rightarrow> kstate \<Rightarrow> kerror + kstate) \<Rightarrow> u32 \<Rightarrow> kstate \<Rightarrow> kerror + kstate" where
  "free_with page_free vma0 s0 =
     (let chunk_prev = alloc_get_prev_desc s0 vma0;
          s1 = free_merge_next vma0 s0;
          (vma, s2) = free_merge_prev chunk_prev vma0 s1 in
      if vma + alloc_get_size s2 vma + DESC_SIZE = heap_end s2
      then rbind (returns (free_pages page_free vma (heap_end s2 AND NOT 0xfff) s2))
             (\<lambda>s3. Inr (set_heap_end vma s3))
      else Inr (alloc_node_add vma (alloc_set_free vma s2)))"

section \<open>Pages from the heap's page source\<close>

text \<open>A \<open>page_free_node_t\<close> has \<open>pma\<close> at offset 0 and \<open>next\<close> at 4.\<close>

definition page_free_with ::
  "(u32 \<Rightarrow> kstate \<Rightarrow> kerror + (u32 \<times> kstate)) \<Rightarrow> u32 \<Rightarrow> kstate \<Rightarrow> kerror + kstate"
where
  "page_free_with kmalloc vma s =
     rbind (kmalloc 8 s) (\<lambda>(new_node, s1).
       let pma = page_get_pma s1 vma;
           s2 = wr (new_node + 4) (page_free_list s1) (wr new_node pma s1);
           s3 = page_unmap vma s2
       in Inr (s3\<lparr>page_free_list := new_node\<rparr>))"

definition page_bump :: "kstate \<Rightarrow> u32 \<times> kstate" where
  "page_bump s =
     (kernel_heap_end_pma s, s\<lparr>kernel_heap_end_pma := kernel_heap_end_pma s + PAGE_SIZE\<rparr>)"

primrec page_new :: "nat \<Rightarrow> page_fn" where
  "page_new 0 s = (if page_free_list s \<noteq> 0 then Inl Too_deep else Inr (page_bump s))"
| "page_new (Suc depth) s =
     (if page_free_list s \<noteq> 0
      then (let old_node = page_free_list s;
                pma = mem s old_node;
                s1 = s\<lparr>page_free_list := mem s (old_node + 4)\<rparr>
            in rbind (free_with (page_free_with (alloc (page_new depth) KM_MIN_ALLOC_SIZE)) old_node s1)
                 (\<lambda>s2. Inr (pma, s2)))
      else Inr (page_bump s))"

definition kmalloc :: "nat \<Rightarrow> u32 \<Rightarrow> kstate \<Rightarrow> kerror + (u32 \<times> kstate)" where
  "kmalloc depth bytes s = alloc (page_new depth) KM_MIN_ALLOC_SIZE bytes s"

definition kmalloc_aligned :: "nat \<Rightarrow> u32 \<Rightarrow> u32 \<Rightarrow> kstate \<Rightarrow> kerror + (u32 \<times> kstate)" where
  "kmalloc_aligned depth bytes alignment s = alloc (page_new depth) alignment bytes s"

definition kalloc :: "page_fn \<Rightarrow> u32 \<Rightarrow> u32 \<Rightarrow> kstate \<Rightarrow> kerror + (u32 \<times> kstate)" where
  "kalloc get_page_pma alignment bytes s = alloc get_page_pma alignment bytes s"

definition page_free :: "nat \<Rightarrow> u32 \<Rightarrow> kstate \<Rightarrow> kerror + kstate" where
  "page_free depth vma s = page_free_with (kmalloc depth) vma s"

definition kfree :: "nat \<Rightarrow> u32 \<Rightarrow> kstate \<Rightarrow> kerror + kstate" where
  "kfree depth vma s = free_with (page_free depth) vma s"

section \<open>Initialisation\<close>

definition alloc_new_heap :: "nat \<Rightarrow> u32 \<Rightarrow> kstate \<Rightarrow> kerror + (alloc_ctxt \<times> kstate)" where
  "alloc_new_heap depth heap_start s =
     (let first_chunk_addr = align heap_start KM_MIN_ALLOC_SIZE in
      rbind (if \<not> page_is_present s first_chunk_addr
             then rbind (page_new depth s) (\<lambda>(pma, s1).
                    Inr (page_set_entry first_chunk_addr (pma OR PAGE_WRITE OR PAGE_PRESENT) s1))
             else Inr s)
        (\<lambda>s1. Inr (\<lparr>ac_free_list = 0, ac_start = heap_start, ac_end = first_chunk_addr + DESC_SIZE\<rparr>,
                   wr first_chunk_addr 0 s1)))"

definition kmalloc_init :: "nat \<Rightarrow> u32 \<Rightarrow> kstate \<Rightarrow> kerror + kstate" where
  "kmalloc_init depth heap_start s =
     rbind (alloc_new_heap depth heap_start s) (\<lambda>(ctxt, s1). Inr (s1\<lparr>kernel_ctxt := ctxt\<rparr>))"

definition cleanup_page :: "nat \<Rightarrow> u32 \<Rightarrow> kstate \<Rightarrow> kerror + kstate" where
  "cleanup_page depth i s = page_free depth i (page_clear i s)"

definition cleanup_table :: "nat \<Rightarrow> u32 \<Rightarrow> kstate \<Rightarrow> kerror + kstate" where
  "cleanup_table depth i s =
     (if page_dir s i AND PAGE_PRESENT = 0
      then rbind (kalloc (page_new depth) PAGE_SIZE PAGE_SIZE s) (\<lambda>(table, s1).
             let s2 = s1\<lparr>page_table_lookup := (page_table_lookup s1)(i := table)\<rparr>
             in Inr (s2\<lparr>page_dir := (page_dir s2)(i := page_get_pma s2 table OR PAGE_PRESENT OR PAGE_WRITE)\<rparr>))
      else Inr s)"

text \<open>
  The three loops over the init pages share one counter, which each loop leaves at its first page
  past the end; it is carried beside the state.
\<close>

definition counted :: "(u32 \<Rightarrow> kstate \<Rightarrow> kerror + kstate) \<Rightarrow> u32 \<Rightarrow> u32 \<times> kstate \<Rightarrow> kerror + (u32 \<times> kstate)" where
  "counted body i is = rbind (body i (snd is)) (\<lambda>s. Inr (i + PAGE_SIZE, s))"

definition page_init_cleanup :: "nat \<Rightarrow> linker \<Rightarrow> kstate \<Rightarrow> kerror + kstate" where
  "page_init_cleanup depth l s =
     rbind (kmalloc_init depth (kernel_heap_end_vma s) s) (\<lambda>s1.
     rbind (returns (for_loop PAGE_SIZE (counted (cleanup_page depth))
                       (INIT_START l) (init_page_struct_addr l) (INIT_START l, s1))) (\<lambda>(i1, s2).
       let (i2, s3) = fold (\<lambda>j (i, s). (i + PAGE_SIZE, page_unmap i s)) [0..<3::nat] (i1, s2) in
     rbind (returns (for_loop PAGE_SIZE (counted (cleanup_page depth)) i2 (INIT_BSS_END l) (i2, s3))) (\<lambda>(i3, s4).
       returns (for_loop 1 (cleanup_table depth) (page_get_dir_idx (KERNEL_START_VMA l)) PAGE_ENTRIES s4))))"

end
