(* ===== verification/Heap_Layout.thy ===== *)
theory Heap_Layout
  imports Alloc
begin

text \<open>
  The abstract heap, and how it lies in memory.  A heap is a list of chunks, each a size and a free
  flag, laid out from the first descriptor \<open>d\<close>; the free list is a list of node addresses.  Addresses
  are naturals here; \<open>cell m a\<close> reads the cell at \<open>a\<close>.  The lemmas say which cells a segment of
  chunks and a segment of the free list depend on, and that the two never overlap.
\<close>

section \<open>Cells at natural addresses\<close>

definition cell :: "(u32 \<Rightarrow> u32) \<Rightarrow> nat \<Rightarrow> u32" where
  "cell m a = m (word_of_nat a)"

lemma cell_upd [addr_simps]:
  "a < 2 ^ 32 \<Longrightarrow> b < 2 ^ 32 \<Longrightarrow> cell (m(word_of_nat a := v)) b = (if a = b then v else cell m b)"
  by (auto simp: cell_def word_of_nat_eq_iff32)

lemma cell_upd_other:
  "a < 2 ^ 32 \<Longrightarrow> b < 2 ^ 32 \<Longrightarrow> a \<noteq> b \<Longrightarrow> cell (m(word_of_nat a := v)) b = cell m b"
  by (simp add: cell_upd)

lemma word_of_nat_nonzero:
  "0 < a \<Longrightarrow> a < 2 ^ 32 \<Longrightarrow> (word_of_nat a :: u32) \<noteq> 0"
  using word_of_nat_eq_iff32 [of a 0] by simp

lemma unat_chunk_word:
  "sz + 1 < 2 ^ 32 \<Longrightarrow> unat (word_of_nat (sz + of_bool f) :: u32) = sz + of_bool f"
  by (rule unat_of_nat32) (cases f; simp)

lemma chunk_size_word:
  assumes "8 dvd sz" and "sz + 1 < 2 ^ 32"
  shows "word_of_nat (sz + of_bool f) AND NOT (7 :: u32) = word_of_nat sz"
proof -
  have seven: "(7 :: u32) = mask 3" by (simp add: mask_eq_exp_minus_1)
  have "unat (word_of_nat (sz + of_bool f) AND NOT (7 :: u32)) = (sz + of_bool f) div 8 * 8"
    unfolding seven unat_and_not_mask unat_chunk_word [OF assms(2)] by simp
  also have "\<dots> = sz"
    using assms(1) by (cases f) (auto elim!: dvdE)
  finally show ?thesis
    using assms(2) by (simp add: word_unat_eq_iff unat_of_nat32)
qed

lemma chunk_flag_word:
  assumes "8 dvd sz" and "sz + 1 < 2 ^ 32"
  shows "word_of_nat (sz + of_bool f) AND (1 :: u32) = of_bool f"
proof -
  have one: "(1 :: u32) = mask 1" by simp
  have "unat (word_of_nat (sz + of_bool f) AND (1 :: u32)) = (sz + of_bool f) mod 2"
    unfolding one unat_and_mask unat_chunk_word [OF assms(2)] by simp
  also have "\<dots> = of_bool f"
    using assms(1) by (cases f) (simp_all, presburger+)
  finally show ?thesis
    by (simp add: word_unat_eq_iff)
qed

lemma chunk_clear_word:
  assumes "8 dvd sz" and "sz + 1 < 2 ^ 32"
  shows "word_of_nat (sz + of_bool f) AND NOT (1 :: u32) = word_of_nat sz"
proof -
  have one: "(1 :: u32) = mask 1" by simp
  have "unat (word_of_nat (sz + of_bool f) AND NOT (1 :: u32)) = (sz + of_bool f) div 2 * 2"
    unfolding one unat_and_not_mask unat_chunk_word [OF assms(2)] by simp
  also have "\<dots> = sz"
    using assms(1) by (cases f) (auto elim!: dvdE)
  finally show ?thesis
    using assms(2) by (simp add: word_unat_eq_iff unat_of_nat32)
qed

lemma chunk_set_word:
  assumes "8 dvd sz" and "sz + 1 < 2 ^ 32"
  shows "word_of_nat (sz + of_bool f) OR (1 :: u32) = word_of_nat (sz + 1)"
proof -
  let ?w = "word_of_nat (sz + of_bool f) :: u32"
  have "?w OR 1 = (?w AND NOT 1) OR 1"
    by (rule bit_word_eqI) (auto simp: bit_simps)
  also have "\<dots> = (?w AND NOT 1) + 1"
    by (rule disjunctive_add_eq_or [symmetric]) (simp add: and.assoc)
  also have "\<dots> = word_of_nat sz + 1"
    by (simp only: chunk_clear_word [OF assms])
  finally show ?thesis
    by (simp only: of_nat_add of_nat_1)
qed

section \<open>Chunks in memory\<close>

type_synonym chunk = "nat \<times> bool"

fun total :: "chunk list \<Rightarrow> nat" where
  "total [] = 0"
| "total ((sz, f) # cs) = 8 + sz + total cs"

fun seg :: "(u32 \<Rightarrow> u32) \<Rightarrow> nat \<Rightarrow> chunk list \<Rightarrow> bool" where
  "seg m d [] \<longleftrightarrow> True"
| "seg m d ((sz, f) # cs) \<longleftrightarrow>
     8 dvd sz \<and> 8 \<le> sz \<and> cell m (d + 4) = word_of_nat (sz + of_bool f) \<and>
     cell m (d + 8 + sz) = word_of_nat (sz + of_bool f) \<and> seg m (d + 8 + sz) cs"

fun free_nodes :: "nat \<Rightarrow> chunk list \<Rightarrow> nat list" where
  "free_nodes d [] = []"
| "free_nodes d ((sz, f) # cs) = (if f then [d + 8] else []) @ free_nodes (d + 8 + sz) cs"

fun descs :: "nat \<Rightarrow> chunk list \<Rightarrow> nat set" where
  "descs d [] = {}"
| "descs d ((sz, f) # cs) = {d + 4, d + 8 + sz} \<union> descs (d + 8 + sz) cs"

lemma total_append [simp]: "total (xs @ ys) = total xs + total ys"
  by (induction xs rule: total.induct) simp_all

lemma seg_append [simp]: "seg m d (xs @ ys) \<longleftrightarrow> seg m d xs \<and> seg m (d + total xs) ys"
  by (induction m d xs rule: seg.induct) (auto simp: ac_simps)

lemma free_nodes_append [simp]:
  "free_nodes d (xs @ ys) = free_nodes d xs @ free_nodes (d + total xs) ys"
  by (induction d xs rule: free_nodes.induct) (simp_all add: ac_simps)

lemma descs_append [simp]: "descs d (xs @ ys) = descs d xs \<union> descs (d + total xs) ys"
  by (induction d xs rule: descs.induct) (auto simp: ac_simps)

lemma descs_range: "a \<in> descs d cs \<Longrightarrow> d + 4 \<le> a \<and> a \<le> d + total cs"
  by (induction d cs rule: descs.induct) fastforce+

lemma node_range: "seg m d cs \<Longrightarrow> n \<in> set (free_nodes d cs) \<Longrightarrow> d + 8 \<le> n \<and> n + 8 \<le> d + total cs"
  by (induction m d cs rule: seg.induct) (fastforce split: if_splits)+

lemma node_not_desc:
  "seg m d cs \<Longrightarrow> n \<in> set (free_nodes d cs) \<Longrightarrow> a \<in> descs d cs \<Longrightarrow> a + 4 \<le> n \<or> n + 8 \<le> a"
proof (induction m d cs rule: seg.induct)
  case (2 m d sz f cs)
  have rest: "n \<in> set (free_nodes (d + 8 + sz) cs) \<Longrightarrow> d + 16 + sz \<le> n"
    using node_range [of m "d + 8 + sz" cs n] 2(2) by auto
  have rest': "a \<in> descs (d + 8 + sz) cs \<Longrightarrow> d + 12 + sz \<le> a"
    using descs_range [of a "d + 8 + sz" cs] by auto
  show ?case
    using 2 rest rest' by (auto split: if_splits)
qed simp

lemma node_sep:
  "seg m d cs \<Longrightarrow> n \<in> set (free_nodes d cs) \<Longrightarrow> n' \<in> set (free_nodes d cs) \<Longrightarrow> n \<noteq> n' \<Longrightarrow>
     n + 8 \<le> n' \<or> n' + 8 \<le> n"
proof (induction m d cs rule: seg.induct)
  case (2 m d sz f cs)
  have rest: "k \<in> set (free_nodes (d + 8 + sz) cs) \<Longrightarrow> d + 16 + sz \<le> k" for k
    using node_range [of m "d + 8 + sz" cs k] 2(2) by auto
  show ?case
    using 2 rest [of n] rest [of n'] by (auto split: if_splits)
qed simp

lemma distinct_free_nodes: "seg m d cs \<Longrightarrow> distinct (free_nodes d cs)"
proof (induction m d cs rule: seg.induct)
  case (2 m d sz f cs)
  then show ?case
    using node_range [of m "d + 8 + sz" cs "d + 8"] by auto
qed simp

lemma seg_cong:
  "(\<And>a. a \<in> descs d cs \<Longrightarrow> cell m' a = cell m a) \<Longrightarrow> seg m d cs \<Longrightarrow> seg m' d cs"
  by (induction m d cs rule: seg.induct) auto

lemma seg_dvd: "seg m d cs \<Longrightarrow> 8 dvd total cs"
  by (induction m d cs rule: seg.induct) auto

text \<open>Replacing a run of chunks by another of the same length.\<close>

lemma seg_replace:
  assumes "seg m d (xs @ ys @ zs)" and "seg m' (d + total xs) ys'" and "total ys' = total ys"
    and "\<And>a. a \<le> d + total xs \<or> d + total xs + total ys + 4 \<le> a \<Longrightarrow> a \<le> d + total (xs @ ys @ zs) \<Longrightarrow>
      cell m' a = cell m a"
  shows "seg m' d (xs @ ys' @ zs)"
proof -
  have "seg m' d xs"
  proof (rule seg_cong)
    fix a assume "a \<in> descs d xs"
    then show "cell m' a = cell m a" using assms(4) [of a] descs_range [of a d xs] by auto
  qed (use assms(1) in simp)
  moreover have "seg m' (d + total xs + total ys) zs"
  proof (rule seg_cong)
    fix a assume "a \<in> descs (d + total xs + total ys) zs"
    then show "cell m' a = cell m a"
      using assms(4) [of a] descs_range [of a _ zs] by fastforce
  qed (use assms(1) in simp)
  ultimately show ?thesis
    using assms(2,3) by (simp add: add.assoc)
qed

section \<open>The free list in memory\<close>

fun dls :: "(u32 \<Rightarrow> u32) \<Rightarrow> u32 \<Rightarrow> u32 \<Rightarrow> nat list \<Rightarrow> u32 \<Rightarrow> bool" where
  "dls m p h [] q \<longleftrightarrow> h = q"
| "dls m p h (n # ns) q \<longleftrightarrow>
     h = word_of_nat n \<and> cell m n = p \<and> dls m (word_of_nat n) (cell m (n + 4)) ns q"

definition end_of :: "u32 \<Rightarrow> nat list \<Rightarrow> u32" where
  "end_of p ns = (if ns = [] then p else word_of_nat (last ns))"

lemma end_of_simps [simp]: "end_of p [] = p" "end_of p (ns @ [n]) = word_of_nat n"
  by (simp_all add: end_of_def)

lemma end_of_Cons [simp]: "end_of p (n # ns) = end_of (word_of_nat n) ns"
  by (simp add: end_of_def)

lemma dls_append:
  "dls m p h (xs @ ys) q \<longleftrightarrow> (\<exists>r. dls m p h xs r \<and> dls m (end_of p xs) r ys q)"
  by (induction xs arbitrary: p h) auto

lemma dls_cong:
  "(\<And>n. n \<in> set ns \<Longrightarrow> cell m' n = cell m n \<and> cell m' (n + 4) = cell m (n + 4)) \<Longrightarrow>
     dls m p h ns q \<Longrightarrow> dls m' p h ns q"
proof (induction ns arbitrary: p h)
  case (Cons n ns)
  have n: "cell m' n = cell m n" "cell m' (n + 4) = cell m (n + 4)"
    using Cons.prems(1) [of n] by simp_all
  have "dls m' (word_of_nat n) (cell m (n + 4)) ns q"
    using Cons.prems by (intro Cons.IH) simp_all
  then show ?case
    using Cons.prems(2) unfolding dls.simps n by blast
qed simp

text \<open>The nodes of a list lie apart from each other, above 0 and within the address space.\<close>

definition apart :: "nat list \<Rightarrow> bool" where
  "apart ns \<longleftrightarrow> distinct ns \<and> (\<forall>n\<in>set ns. 0 < n \<and> n + 8 \<le> 2 ^ 32) \<and>
     (\<forall>n\<in>set ns. \<forall>n'\<in>set ns. n \<noteq> n' \<longrightarrow> n + 8 \<le> n' \<or> n' + 8 \<le> n)"

lemma apart_sub: "apart ns \<Longrightarrow> set ns' \<subseteq> set ns \<Longrightarrow> distinct ns' \<Longrightarrow> apart ns'"
  unfolding apart_def by (simp add: subset_iff)

lemma apart_node: "apart ns \<Longrightarrow> n \<in> set ns \<Longrightarrow> 0 < n \<and> n + 8 \<le> 2 ^ 32"
  by (simp add: apart_def)

lemma apart_neq:
  "apart ns \<Longrightarrow> n \<in> set ns \<Longrightarrow> n' \<in> set ns \<Longrightarrow> n \<noteq> n' \<Longrightarrow> n + 8 \<le> n' \<or> n' + 8 \<le> n"
  unfolding apart_def by simp

lemma dls_write_elsewhere:
  assumes "dls m p h ns q" and "a < 2 ^ 32" and "\<And>n. n \<in> set ns \<Longrightarrow> n + 8 \<le> 2 ^ 32 \<and> a \<noteq> n \<and> a \<noteq> n + 4"
  shows "dls (m(word_of_nat a := v)) p h ns q"
proof (rule dls_cong [OF _ assms(1)])
  fix n assume "n \<in> set ns"
  with assms(3) [of n] assms(2) show "cell (m(word_of_nat a := v)) n = cell m n \<and>
      cell (m(word_of_nat a := v)) (n + 4) = cell m (n + 4)"
    by (auto simp: cell_upd_other)
qed

lemma dls_set_prev:
  assumes "dls m p h (n # ns) q" and "apart (n # ns)"
  shows "dls (m(word_of_nat n := p')) p' h (n # ns) q"
proof -
  have n: "0 < n" "n + 8 \<le> 2 ^ 32" using apart_node [OF assms(2), of n] by auto
  have "dls (m(word_of_nat n := p')) (word_of_nat n) (cell m (n + 4)) ns q"
  proof (rule dls_write_elsewhere)
    show "dls m (word_of_nat n) (cell m (n + 4)) ns q" using assms(1) by simp
    show "n < 2 ^ 32" using n by simp
    fix k assume k: "k \<in> set ns"
    then have "n \<noteq> k" using assms(2) by (auto simp: apart_def)
    then show "k + 8 \<le> 2 ^ 32 \<and> n \<noteq> k \<and> n \<noteq> k + 4"
      using apart_neq [OF assms(2), of n k] apart_node [OF assms(2), of k] k by auto
  qed
  then show ?thesis
    using assms(1) n by (simp add: cell_upd)
qed

lemma dls_set_next:
  assumes "dls m p h (ns @ [n]) q" and "apart (ns @ [n])"
  shows "dls (m(word_of_nat (n + 4) := q')) p h (ns @ [n]) q'"
proof -
  have n: "0 < n" "n + 8 \<le> 2 ^ 32" using apart_node [OF assms(2), of n] by auto
  obtain r where r: "dls m p h ns r" "r = word_of_nat n" "cell m n = end_of p ns"
    using assms(1) by (auto simp: dls_append)
  have "dls (m(word_of_nat (n + 4) := q')) p h ns r"
  proof (rule dls_write_elsewhere [OF r(1)])
    show "n + 4 < 2 ^ 32" using n by simp
    fix k assume k: "k \<in> set ns"
    then have "n \<noteq> k" using assms(2) by (auto simp: apart_def)
    then show "k + 8 \<le> 2 ^ 32 \<and> n + 4 \<noteq> k \<and> n + 4 \<noteq> k + 4"
      using apart_neq [OF assms(2), of n k] apart_node [OF assms(2), of k] k by auto
  qed
  then show ?thesis
    using r n by (auto simp: dls_append cell_upd simp del: of_nat_add)
qed

section \<open>Blocks in use and the cells of the heap's structure\<close>

text \<open>The blocks in use, as pairs of an address and a size.\<close>

fun blocks :: "nat \<Rightarrow> chunk list \<Rightarrow> (nat \<times> nat) list" where
  "blocks d [] = []"
| "blocks d ((sz, f) # cs) = (if f then [] else [(d + 8, sz)]) @ blocks (d + 8 + sz) cs"

lemma blocks_append [simp]: "blocks d (xs @ ys) = blocks d xs @ blocks (d + total xs) ys"
  by (induction d xs rule: blocks.induct) (simp_all add: ac_simps)

lemma blocks_range: "(n, sz) \<in> set (blocks d cs) \<Longrightarrow> d + 8 \<le> n \<and> n + sz \<le> d + total cs"
  by (induction d cs rule: blocks.induct) (fastforce split: if_splits)+

lemma blocks_disjoint:
  "(n, a) \<in> set (blocks d cs) \<Longrightarrow> (k, b) \<in> set (blocks d cs) \<Longrightarrow> (n, a) = (k, b) \<or> n + a + 8 \<le> k \<or> k + b + 8 \<le> n"
proof (induction d cs rule: blocks.induct)
  case (2 d sz f cs)
  have r: "(j, c) \<in> set (blocks (d + 8 + sz) cs) \<Longrightarrow> d + 16 + sz \<le> j" for j c
    using blocks_range [of j c "d + 8 + sz" cs] by simp
  show ?case
    using 2 r [of n a] r [of k b] by (auto split: if_splits)
qed simp

lemma distinct_blocks: "distinct (blocks d cs)"
proof (induction d cs rule: blocks.induct)
  case (2 d sz f cs)
  then show ?case using blocks_range [of "d + 8" sz "d + 8 + sz" cs] by auto
qed simp

text \<open>
  The structure of a heap: the descriptors, the first and the last one included, and the free nodes.
  A frame says that a step wrote only structure.
\<close>

definition struct_cells :: "nat \<Rightarrow> chunk list \<Rightarrow> nat set" where
  "struct_cells d cs = {d, d + total cs + 4} \<union> descs d cs \<union> set (free_nodes d cs) \<union> (\<lambda>n. n + 4) ` set (free_nodes d cs)"

definition frame :: "nat \<Rightarrow> chunk list \<Rightarrow> chunk list \<Rightarrow> (u32 \<Rightarrow> u32) \<Rightarrow> (u32 \<Rightarrow> u32) \<Rightarrow> bool" where
  "frame d cs cs' m m' \<longleftrightarrow> (\<forall>a<2 ^ 32. a \<notin> struct_cells d cs \<union> struct_cells d cs' \<longrightarrow> cell m' a = cell m a)"

lemma frameI:
  "(\<And>a. a < 2 ^ 32 \<Longrightarrow> a \<notin> struct_cells d cs \<Longrightarrow> a \<notin> struct_cells d cs' \<Longrightarrow> cell m' a = cell m a) \<Longrightarrow> frame d cs cs' m m'"
  by (simp add: frame_def)

lemma frame_refl [simp]: "frame d cs cs m m"
  by (simp add: frame_def)

lemma struct_cellsD:
  assumes "a \<notin> struct_cells d cs"
  shows "a \<notin> descs d cs" and "a \<noteq> d" and "a \<noteq> d + total cs + 4"
    and "k \<in> set (free_nodes d cs) \<Longrightarrow> a \<noteq> k \<and> a \<noteq> k + 4"
  using assms by (auto simp: struct_cells_def)

text \<open>No cell of a block is structure.\<close>

lemma block_not_desc:
  "seg m d cs \<Longrightarrow> (n, sz) \<in> set (blocks d cs) \<Longrightarrow> a \<in> descs d cs \<Longrightarrow> a + 4 \<le> n \<or> n + sz \<le> a"
proof (induction m d cs rule: seg.induct)
  case (2 m d z f cs)
  have rest: "(n, sz) \<in> set (blocks (d + 8 + z) cs) \<Longrightarrow> d + 16 + z \<le> n"
    using blocks_range [of n sz "d + 8 + z" cs] by auto
  have rest': "a \<in> descs (d + 8 + z) cs \<Longrightarrow> d + 12 + z \<le> a"
    using descs_range [of a "d + 8 + z" cs] by auto
  show ?case using 2 rest rest' by (auto split: if_splits)
qed simp

lemma block_not_node:
  "seg m d cs \<Longrightarrow> (n, sz) \<in> set (blocks d cs) \<Longrightarrow> k \<in> set (free_nodes d cs) \<Longrightarrow> k + 8 \<le> n \<or> n + sz \<le> k"
proof (induction m d cs rule: seg.induct)
  case (2 m d z f cs)
  have rest: "(n, sz) \<in> set (blocks (d + 8 + z) cs) \<Longrightarrow> d + 16 + z \<le> n"
    using blocks_range [of n sz "d + 8 + z" cs] by auto
  have rest': "k \<in> set (free_nodes (d + 8 + z) cs) \<Longrightarrow> d + 16 + z \<le> k"
    using node_range [of m "d + 8 + z" cs k] 2(2) by auto
  show ?case using 2 rest rest' by (auto split: if_splits)
qed simp

lemma block_not_struct:
  assumes "seg m d cs" and "(n, sz) \<in> set (blocks d cs)" and "n \<le> a" and "a + 4 \<le> n + sz"
  shows "a \<notin> struct_cells d cs"
proof -
  have "a \<notin> descs d cs" using block_not_desc [OF assms(1,2), of a] assms(3,4) by auto
  moreover have "a \<noteq> k \<and> a \<noteq> k + 4" if "k \<in> set (free_nodes d cs)" for k
    using block_not_node [OF assms(1,2) that] assms(3,4) by auto
  moreover have "a \<noteq> d" "a \<noteq> d + total cs + 4" using blocks_range [OF assms(2)] assms(3,4) by auto
  ultimately show ?thesis by (auto simp: struct_cells_def)
qed

text \<open>Only the cells of a set differ.\<close>

definition changes :: "nat set \<Rightarrow> (u32 \<Rightarrow> u32) \<Rightarrow> (u32 \<Rightarrow> u32) \<Rightarrow> bool" where
  "changes S m m' \<longleftrightarrow> (\<forall>a<2 ^ 32. a \<notin> S \<longrightarrow> cell m' a = cell m a)"

lemma changesD: "changes S m m' \<Longrightarrow> a < 2 ^ 32 \<Longrightarrow> a \<notin> S \<Longrightarrow> cell m' a = cell m a"
  by (simp add: changes_def)

lemma changesI: "(\<And>a. a < 2 ^ 32 \<Longrightarrow> a \<notin> S \<Longrightarrow> cell m' a = cell m a) \<Longrightarrow> changes S m m'"
  by (simp add: changes_def)

lemma changes_refl [simp]: "changes S m m"
  by (simp add: changes_def)

lemma changes_trans: "changes S m m1 \<Longrightarrow> changes S' m1 m2 \<Longrightarrow> S \<subseteq> S'' \<Longrightarrow> S' \<subseteq> S'' \<Longrightarrow> changes S'' m m2"
  unfolding changes_def by (metis subsetD)

lemma frame_changes: "frame d cs cs' m m' \<Longrightarrow> struct_cells d cs \<subseteq> S \<Longrightarrow> struct_cells d cs' \<subseteq> S \<Longrightarrow> changes S m m'"
  unfolding frame_def changes_def by blast

text \<open>The contents of a set of blocks are kept, up to a set of cells written on purpose.\<close>

definition keeps :: "nat set \<Rightarrow> (nat \<times> nat) set \<Rightarrow> (u32 \<Rightarrow> u32) \<Rightarrow> (u32 \<Rightarrow> u32) \<Rightarrow> bool" where
  "keeps E B m m' \<longleftrightarrow>
     (\<forall>(n, sz)\<in>B. \<forall>a. n \<le> a \<longrightarrow> a + 4 \<le> n + sz \<longrightarrow> a \<notin> E \<longrightarrow> cell m' a = cell m a)"

lemma keeps_refl [simp]: "keeps E B m m"
  by (simp add: keeps_def)

lemma keeps_trans: "keeps E B m m1 \<Longrightarrow> keeps E B m1 m2 \<Longrightarrow> keeps E B m m2"
  by (fastforce simp: keeps_def)

lemma keeps_mono: "keeps E B m m' \<Longrightarrow> E \<subseteq> E' \<Longrightarrow> B' \<subseteq> B \<Longrightarrow> keeps E' B' m m'"
  unfolding keeps_def by blast

lemma keepsI:
  "(\<And>n sz a. (n, sz) \<in> B \<Longrightarrow> n \<le> a \<Longrightarrow> a + 4 \<le> n + sz \<Longrightarrow> a \<notin> E \<Longrightarrow> cell m' a = cell m a) \<Longrightarrow> keeps E B m m'"
  by (auto simp: keeps_def)

lemma keepsD: "keeps E B m m' \<Longrightarrow> (n, sz) \<in> B \<Longrightarrow> n \<le> a \<Longrightarrow> a + 4 \<le> n + sz \<Longrightarrow> a \<notin> E \<Longrightarrow> cell m' a = cell m a"
  by (auto simp: keeps_def)

lemma frame_keeps:
  assumes "frame d cs cs' m m'" and "seg m d cs" and "seg m' d cs'" and "d + total cs \<le> 2 ^ 32"
    and "B \<subseteq> set (blocks d cs)" and "B \<subseteq> set (blocks d cs')"
  shows "keeps E B m m'"
proof (rule keepsI)
  fix n sz a assume b: "(n, sz) \<in> B" and a: "n \<le> a" "a + 4 \<le> n + sz"
  have "a \<notin> struct_cells d cs" by (rule block_not_struct [OF assms(2) subsetD [OF assms(5) b] a])
  moreover have "a \<notin> struct_cells d cs'" by (rule block_not_struct [OF assms(3) subsetD [OF assms(6) b] a])
  moreover have "a < 2 ^ 32" using blocks_range [OF subsetD [OF assms(5) b]] a assms(4) by simp
  ultimately show "cell m' a = cell m a" using assms(1) by (simp add: frame_def)
qed

end
