(* ===== verification/Heap_List.thy ===== *)
theory Heap_List
  imports Heap_Layout
begin

text \<open>
  The free list operations on the abstract list: \<open>alloc_node_unlink\<close> removes a node wherever it is,
  \<open>alloc_node_add\<close> puts one in front, and both write only cells of the nodes of the list.
\<close>

section \<open>What the list operations leave alone\<close>

definition same_env :: "kstate \<Rightarrow> kstate \<Rightarrow> bool" where
  "same_env s s' \<longleftrightarrow>
     heap_end s' = heap_end s \<and> ac_start (kernel_ctxt s') = ac_start (kernel_ctxt s) \<and>
     page_table_lookup s' = page_table_lookup s \<and> page_dir s' = page_dir s \<and>
     page_free_list s' = page_free_list s \<and> kernel_heap_end_pma s' = kernel_heap_end_pma s \<and>
     kernel_heap_end_vma s' = kernel_heap_end_vma s \<and> get_page_first_run s' = get_page_first_run s"

lemma same_env_simps [simp]:
  "same_env s s" "same_env s (wr a v s') = same_env s s'" "same_env s (set_free_list n s') = same_env s s'"
  by (simp_all add: same_env_def set_free_list_def)

lemma same_env_trans: "same_env s s1 \<Longrightarrow> same_env s1 s2 \<Longrightarrow> same_env s s2"
  by (simp add: same_env_def)

lemma mem_node [simp]: "mem s (word_of_nat n) = cell (mem s) n"
  "mem s (word_of_nat n + 4) = cell (mem s) (n + 4)"
  by (simp_all add: cell_def)

lemma node_plus: "(word_of_nat n + 4 :: u32) = word_of_nat (n + 4)"
  by simp

text \<open>Only cells of the given nodes differ.\<close>

definition only_nodes :: "nat list \<Rightarrow> (u32 \<Rightarrow> u32) \<Rightarrow> (u32 \<Rightarrow> u32) \<Rightarrow> bool" where
  "only_nodes ns m m' \<longleftrightarrow>
     (\<forall>a<2 ^ 32. (\<forall>k\<in>set ns. a \<noteq> k \<and> a \<noteq> k + 4) \<longrightarrow> cell m' a = cell m a)"

lemma only_nodesI:
  "(\<And>a. a < 2 ^ 32 \<Longrightarrow> (\<And>k. k \<in> set ns \<Longrightarrow> a \<noteq> k \<and> a \<noteq> k + 4) \<Longrightarrow> cell m' a = cell m a) \<Longrightarrow> only_nodes ns m m'"
  by (simp add: only_nodes_def)

lemma only_nodesD:
  "only_nodes ns m m' \<Longrightarrow> a < 2 ^ 32 \<Longrightarrow> (\<And>k. k \<in> set ns \<Longrightarrow> a \<noteq> k \<and> a \<noteq> k + 4) \<Longrightarrow> cell m' a = cell m a"
  by (simp add: only_nodes_def)

lemma only_nodes_mono: "only_nodes ns m m' \<Longrightarrow> set ns \<subseteq> set ns' \<Longrightarrow> only_nodes ns' m m'"
  by (simp add: only_nodes_def subset_iff)

section \<open>Removing a node\<close>

lemma dls_at:
  assumes "dls m p h (xs @ n # ys) q"
  shows "cell m n = end_of p xs" and "dls m p h xs (word_of_nat n)"
    and "dls m (word_of_nat n) (cell m (n + 4)) ys q"
  using assms by (auto simp: dls_append)

text \<open>Redirecting where a run of the list ends, and what its first node points back to.\<close>

lemma dls_retarget:
  assumes "dls m p h xs r" and "apart xs"
    and "m' = (if xs = [] then m else m(word_of_nat (last xs + 4) := r'))"
    and "h' = (if xs = [] then r' else h)"
  shows "dls m' p h' xs r'"
proof (cases xs rule: rev_cases)
  case Nil
  then show ?thesis using assms(4) by simp
next
  case (snoc as k)
  then have "dls (m(word_of_nat (k + 4) := r')) p h (as @ [k]) r'"
    using assms(1,2) by (intro dls_set_next) simp_all
  then show ?thesis using assms(3,4) snoc by simp
qed

lemma dls_rehead:
  assumes "dls m p h ys q" and "apart ys"
    and "m' = (if ys = [] then m else m(word_of_nat (hd ys) := p'))"
  shows "dls m' p' h ys q"
proof (cases ys)
  case Nil
  then show ?thesis using assms by simp
next
  case (Cons y bs)
  have "dls (m(word_of_nat y := p')) p' h (y # bs) q"
    by (rule dls_set_prev) (use assms(1,2) Cons in \<open>simp_all only:\<close>)
  then show ?thesis using assms(3) Cons by simp
qed

text \<open>Memory that changed at some nodes only is the same at a node apart from them, and so is a run of others.\<close>

lemma apart_cells:
  assumes "apart js" and "n \<in> set js" and "k \<in> set js" and "n \<noteq> k"
  shows "n + 4 < 2 ^ 32" "n \<noteq> k + 4" "n + 4 \<noteq> k" "n + 4 \<noteq> k + 4"
  using apart_neq [OF assms] apart_node [OF assms(1,2)] assms(4) by auto

lemma other_node_cells:
  assumes o: "only_nodes ks m m'" and ap: "apart js" and n: "n \<in> set js" and sub: "set ks \<subseteq> set js" and out: "n \<notin> set ks"
  shows "cell m' n = cell m n" and "cell m' (n + 4) = cell m (n + 4)"
proof -
  have "n \<noteq> k \<and> n \<noteq> k + 4 \<and> n + 4 \<noteq> k \<and> n + 4 \<noteq> k + 4" if "k \<in> set ks" for k
  proof -
    have "k \<in> set js" "n \<noteq> k" using that sub out by auto
    from apart_cells(2-4) [OF ap n this] this(2) show ?thesis by simp
  qed
  moreover have "n + 8 \<le> 2 ^ 32" using apart_node [OF ap n] by simp
  ultimately show "cell m' n = cell m n" "cell m' (n + 4) = cell m (n + 4)"
    by (intro only_nodesD [OF o]; simp)+
qed

lemma dls_other:
  assumes "dls m p h ns q" and "only_nodes ks m m'" and "apart js" and "set ns \<union> set ks \<subseteq> set js" and "set ns \<inter> set ks = {}"
  shows "dls m' p h ns q"
proof (rule dls_cong [OF _ assms(1)])
  fix n assume "n \<in> set ns"
  then have "n \<in> set js" "set ks \<subseteq> set js" "n \<notin> set ks" using assms(4,5) by auto
  from other_node_cells [OF assms(2,3) this] show "cell m' n = cell m n \<and> cell m' (n + 4) = cell m (n + 4)" by simp
qed

text \<open>Writing both words of a node.\<close>

lemma node_written:
  fixes s :: kstate and x y :: u32
  assumes "n + 8 \<le> 2 ^ 32"
  defines "s' \<equiv> wr (word_of_nat (n + 4)) y (wr (word_of_nat n) x s)"
  shows "cell (mem s') n = x" "cell (mem s') (n + 4) = y" "only_nodes [n] (mem s) (mem s')"
  unfolding s'_def wr_fields using assms(1) by (auto simp: cell_upd only_nodes_def simp del: of_nat_add)

lemma end_of_zero: "apart xs \<Longrightarrow> (end_of 0 xs = 0) = (xs = [])"
  using apart_node [of xs "last xs"] word_of_nat_nonzero [of "last xs"] by (auto simp: end_of_def)

lemma dls_head: "dls m p h ns 0 \<Longrightarrow> apart ns \<Longrightarrow> h = (if ns = [] then 0 else word_of_nat (hd ns)) \<and> (h = 0) = (ns = [])"
  using apart_node [of ns "hd ns"] word_of_nat_nonzero [of "hd ns"] by (cases ns) auto

text \<open>
  What the list operations share: the end of the run before a place, or the head of the list, is set to
  \<open>w\<close>, and the back pointer of the run behind it to \<open>v\<close>.
\<close>

definition link_prev :: "nat list \<Rightarrow> u32 \<Rightarrow> kstate \<Rightarrow> kstate" where
  "link_prev xs w s = (if xs = [] then set_free_list w s else wr (word_of_nat (last xs + 4)) w s)"

definition link_next :: "nat list \<Rightarrow> u32 \<Rightarrow> kstate \<Rightarrow> kstate" where
  "link_next ys v s = (if ys = [] then s else wr (word_of_nat (hd ys)) v s)"

lemma link_env [simp]:
  "same_env s (link_prev xs w s)" "same_env s (link_next ys v s)" "free_list (link_next ys v s) = free_list s"
  by (simp_all add: link_prev_def link_next_def)

lemma link_prev_test:
  "apart xs \<Longrightarrow> (if end_of 0 xs \<noteq> 0 then wr (end_of 0 xs + 4) w s else set_free_list w s) = link_prev xs w s"
  using end_of_zero [of xs] by (auto simp: link_prev_def end_of_def)

lemma link_next_test:
  "dls m p q ys 0 \<Longrightarrow> apart ys \<Longrightarrow> (if q \<noteq> 0 then wr q v s else s) = link_next ys v s"
  using dls_head [of m p q ys] by (auto simp: link_next_def)

lemma link_prev_nodes: "apart xs \<Longrightarrow> only_nodes xs (mem s) (mem (link_prev xs w s))"
proof (rule only_nodesI)
  fix a assume ap: "apart xs" and a: "a < 2 ^ 32" "\<And>k. k \<in> set xs \<Longrightarrow> a \<noteq> k \<and> a \<noteq> k + 4"
  show "cell (mem (link_prev xs w s)) a = cell (mem s) a"
    using apart_node [OF ap, of "last xs"] a(1) a(2) [of "last xs"]
    by (cases "xs = []") (simp_all add: link_prev_def cell_upd_other del: of_nat_add)
qed

lemma link_next_nodes: "apart ys \<Longrightarrow> only_nodes ys (mem s) (mem (link_next ys v s))"
proof (rule only_nodesI)
  fix a assume ap: "apart ys" and a: "a < 2 ^ 32" "\<And>k. k \<in> set ys \<Longrightarrow> a \<noteq> k \<and> a \<noteq> k + 4"
  show "cell (mem (link_next ys v s)) a = cell (mem s) a"
    using apart_node [OF ap, of "hd ys"] a(1) a(2) [of "hd ys"]
    by (cases "ys = []") (simp_all add: link_next_def cell_upd_other)
qed

lemma link_ends_ok:
  fixes s :: kstate and v w :: u32
  assumes x: "dls (mem s) 0 (free_list s) xs r" and y: "dls (mem s) p q ys 0" and ap: "apart (xs @ ys)"
  defines "s' \<equiv> link_next ys v (link_prev xs w s)"
  shows "dls (mem s') 0 (free_list s') xs w" and "dls (mem s') v q ys 0" and "only_nodes (xs @ ys) (mem s) (mem s')"
    and "same_env s s'"
proof -
  let ?s1 = "link_prev xs w s"
  have a: "apart xs" "apart ys" by (rule apart_sub [OF ap]; use ap in \<open>auto simp: apart_def\<close>)+
  have dj: "set xs \<inter> set ys = {}" using ap by (simp add: apart_def)
  note o = link_prev_nodes [OF a(1), of s w] link_next_nodes [OF a(2), of ?s1 v]
  have "dls (mem ?s1) 0 (free_list ?s1) xs w" by (rule dls_retarget [OF x a(1)]) (simp_all add: link_prev_def)
  then show "dls (mem s') 0 (free_list s') xs w"
    unfolding s'_def link_env using dj by (intro dls_other [OF _ o(2) ap]) simp_all
  have "dls (mem ?s1) p q ys 0" using dj by (intro dls_other [OF y o(1) ap]) auto
  then show "dls (mem s') v q ys 0" unfolding s'_def by (rule dls_rehead [OF _ a(2)]) (simp add: link_next_def)
  show "only_nodes (xs @ ys) (mem s) (mem s')"
    using o unfolding s'_def by (simp add: only_nodes_def)
  show "same_env s s'" unfolding s'_def by (rule same_env_trans [OF link_env(1,2)])
qed

theorem unlink_ok:
  fixes s :: kstate
  defines "s' n \<equiv> alloc_node_unlink (word_of_nat n) s"
  assumes l: "dls (mem s) 0 (free_list s) (xs @ n # ys) 0" and ap: "apart (xs @ n # ys)"
  shows "dls (mem (s' n)) 0 (free_list (s' n)) (xs @ ys) 0"
    and "only_nodes (xs @ ys) (mem s) (mem (s' n))"
    and "same_env s (s' n)"
proof -
  let ?q = "cell (mem s) (n + 4)"
  let ?s1 = "link_prev xs ?q s"
  note at = dls_at [OF l]
  have a: "apart xs" "apart ys" "apart (xs @ ys)" by (rule apart_sub [OF ap]; use ap in \<open>auto simp: apart_def\<close>)+
  have s1: "(if mem s (word_of_nat n) \<noteq> 0 then wr (mem s (word_of_nat n) + 4) (mem s (word_of_nat n + 4)) s
      else set_free_list (mem s (word_of_nat n + 4)) s) = ?s1"
    unfolding mem_node at(1) by (rule link_prev_test [OF a(1)])
  have "cell (mem ?s1) n = cell (mem s) n" "cell (mem ?s1) (n + 4) = ?q"
    by (rule other_node_cells [OF link_prev_nodes [OF a(1)] ap]; use ap in \<open>auto simp: apart_def\<close>)+
  note c = this [unfolded at(1)]
  have "s' n = (if mem ?s1 (word_of_nat n + 4) \<noteq> 0 then wr (mem ?s1 (word_of_nat n + 4)) (mem ?s1 (word_of_nat n)) ?s1 else ?s1)"
    unfolding s'_def alloc_node_unlink_def Let_def s1 by (rule refl)
  then have eq: "s' n = link_next ys (end_of 0 xs) ?s1"
    unfolding mem_node c link_next_test [OF at(3) a(2)] .
  note ends = link_ends_ok [OF at(2,3) a(3), of "end_of 0 xs" ?q, folded eq]
  show "dls (mem (s' n)) 0 (free_list (s' n)) (xs @ ys) 0" unfolding dls_append using ends(1,2) by blast
  show "only_nodes (xs @ ys) (mem s) (mem (s' n))" "same_env s (s' n)" by (rule ends)+
qed

section \<open>Adding a node\<close>

theorem add_ok:
  fixes s :: kstate
  defines "s' n \<equiv> alloc_node_add (word_of_nat n) s"
  assumes l: "dls (mem s) 0 (free_list s) ns 0" and ap: "apart (n # ns)"
  shows "dls (mem (s' n)) 0 (free_list (s' n)) (n # ns) 0"
    and "only_nodes (n # ns) (mem s) (mem (s' n))"
    and "same_env s (s' n)"
proof -
  let ?h = "free_list s" and ?w = "word_of_nat n :: u32"
  let ?s2 = "wr (word_of_nat (n + 4)) ?h (wr ?w 0 s)" and ?s3 = "link_next ns ?w"
  have a: "apart ns" by (rule apart_sub [OF ap]) (use ap in \<open>auto simp: apart_def\<close>)
  have n: "n + 8 \<le> 2 ^ 32" "n \<notin> set ns" using ap by (simp_all add: apart_def)
  note w = node_written [OF n(1), where s = s and x = 0 and y = ?h]
  have "alloc_node_add ?w s = set_free_list ?w (if ?h \<noteq> 0 then wr ?h ?w ?s2 else ?s2)"
    unfolding alloc_node_add_def Let_def by (simp add: node_plus del: of_nat_add)
  then have eq: "s' n = set_free_list ?w (?s3 ?s2)"
    unfolding s'_def link_next_test [OF l a] .
  have "dls (mem ?s2) 0 ?h ns 0" using n(2) by (intro dls_other [OF l w(3) ap]) auto
  then have l3: "dls (mem (?s3 ?s2)) ?w ?h ns 0" by (rule dls_rehead [OF _ a]) (simp add: link_next_def)
  have o: "only_nodes ns (mem ?s2) (mem (?s3 ?s2))" by (rule link_next_nodes [OF a])
  have "cell (mem (?s3 ?s2)) n = 0" "cell (mem (?s3 ?s2)) (n + 4) = ?h"
    using other_node_cells [OF o ap, of n] n(2) w(1,2) by auto
  then show "dls (mem (s' n)) 0 (free_list (s' n)) (n # ns) 0" using l3 unfolding eq by simp
  show "only_nodes (n # ns) (mem s) (mem (s' n))" using w(3) o unfolding eq by (simp add: only_nodes_def)
  show "same_env s (s' n)" unfolding eq by (simp add: link_next_def)
qed

end
