(* ===== verification/Heap_Ops.thy ===== *)
theory Heap_Ops
  imports Heap_List
begin

text \<open>
  What each of the allocator's steps does to the abstract heap: taking a whole chunk, splitting one,
  merging with the next and the previous chunk, and marking a chunk free.
\<close>

section \<open>A heap in memory\<close>

definition heap_at :: "kstate \<Rightarrow> nat \<Rightarrow> chunk list \<Rightarrow> nat list \<Rightarrow> bool" where
  "heap_at s d cs ns \<longleftrightarrow>
     8 dvd d \<and> 0 < d \<and> d + total cs + 16 \<le> 2 ^ 32 \<and> seg (mem s) d cs \<and> cell (mem s) d AND 1 = 0 \<and>
     dls (mem s) 0 (free_list s) ns 0 \<and> distinct ns \<and> set ns = set (free_nodes d cs)"

lemma heap_atD:
  assumes "heap_at s d cs ns"
  shows "8 dvd d" "0 < d" "d + total cs + 16 \<le> 2 ^ 32" "seg (mem s) d cs" "cell (mem s) d AND 1 = 0"
    "dls (mem s) 0 (free_list s) ns 0" "distinct ns" "set ns = set (free_nodes d cs)"
  using assms by (simp_all add: heap_at_def)

lemma heap_node:
  assumes "heap_at s d cs ns" and "k \<in> set ns"
  shows "d + 8 \<le> k" and "k + 8 \<le> d + total cs" and "k + 8 \<le> 2 ^ 32"
  using node_range [OF heap_atD(4) [OF assms(1)], of k] heap_atD(3,8) [OF assms(1)] assms(2) by auto

lemma seg_apart:
  assumes "seg m d cs" and "d + total cs + 16 \<le> 2 ^ 32" and "distinct ns" and "set ns \<subseteq> set (free_nodes d cs)"
  shows "apart ns"
  unfolding apart_def
proof (intro conjI ballI impI)
  show "distinct ns" by (rule assms(3))
  show "0 < n" "n + 8 \<le> 2 ^ 32" if "n \<in> set ns" for n
    using node_range [OF assms(1) subsetD [OF assms(4) that]] assms(2) by simp_all
  show "n + 8 \<le> n' \<or> n' + 8 \<le> n" if "n \<in> set ns" "n' \<in> set ns" "n \<noteq> n'" for n n'
    by (rule node_sep [OF assms(1) subsetD [OF assms(4) that(1)] subsetD [OF assms(4) that(2)] that(3)])
qed

lemma heap_apart:
  assumes "heap_at s d cs ns"
  shows "apart ns"
  by (rule seg_apart [OF heap_atD(4,3,7) [OF assms]]) (use heap_atD(8) [OF assms] in simp)

text \<open>Other free nodes lie outside a run of chunks they are not in.\<close>

lemma other_nodes:
  assumes "seg m d (xs @ ys @ zs)" and "k \<in> set (free_nodes d (xs @ ys @ zs))"
    and "k \<notin> set (free_nodes (d + total xs) ys)"
  shows "k + 8 \<le> d + total xs \<or> d + total xs + total ys + 8 \<le> k"
proof -
  have "k \<in> set (free_nodes d xs) \<or> k \<in> set (free_nodes (d + total xs + total ys) zs)"
    using assms(2,3) by (auto simp: add.assoc)
  then show ?thesis
    using node_range [of m d xs k] node_range [of m "d + total xs + total ys" zs k] assms(1)
    by (auto simp: add.assoc)
qed

text \<open>Writing only cells of free nodes does not disturb the descriptors.\<close>

lemma seg_unlisted:
  assumes "seg m d cs" and "d + total cs + 16 \<le> 2 ^ 32" and "set ns \<subseteq> set (free_nodes d cs)"
    and "only_nodes ns m m'"
  shows "seg m' d cs" and "cell m' d = cell m d"
    and "\<And>a. a \<in> descs d cs \<Longrightarrow> cell m' a = cell m a"
    and "\<And>a. d + total cs \<le> a \<Longrightarrow> a < 2 ^ 32 \<Longrightarrow> cell m' a = cell m a"
proof -
  have r: "d + 8 \<le> k \<and> k + 8 \<le> d + total cs" if "k \<in> set ns" for k
    by (rule node_range [OF assms(1) subsetD [OF assms(3) that]])
  show c: "cell m' a = cell m a" if a: "a \<in> descs d cs" for a
  proof (rule only_nodesD [OF assms(4)])
    show "a < 2 ^ 32" using descs_range [OF a] assms(2) by simp
    show "a \<noteq> k \<and> a \<noteq> k + 4" if "k \<in> set ns" for k
      using node_not_desc [OF assms(1) subsetD [OF assms(3) that] a] by linarith
  qed
  show "seg m' d cs" by (rule seg_cong [OF c assms(1)])
  show "cell m' d = cell m d"
  proof (rule only_nodesD [OF assms(4)])
    show "d < 2 ^ 32" using assms(2) by simp
    show "d \<noteq> k \<and> d \<noteq> k + 4" if "k \<in> set ns" for k using r [OF that] by linarith
  qed
  show "cell m' a = cell m a" if "d + total cs \<le> a" "a < 2 ^ 32" for a
  proof (rule only_nodesD [OF assms(4)])
    show "a < 2 ^ 32" by (rule that(2))
    show "a \<noteq> k \<and> a \<noteq> k + 4" if "k \<in> set ns" for k
      using r [OF that] \<open>d + total cs \<le> a\<close> by linarith
  qed
qed

lemma seg_keep:
  assumes "heap_at s d cs ns" and "only_nodes ns (mem s) m'"
  shows "seg m' d cs" and "cell m' d = cell (mem s) d"
    and "\<And>a. a \<in> descs d cs \<Longrightarrow> cell m' a = cell (mem s) a"
    and "\<And>a. d + total cs \<le> a \<Longrightarrow> a < 2 ^ 32 \<Longrightarrow> cell m' a = cell (mem s) a"
  using seg_unlisted [OF heap_atD(4,3) [OF assms(1)] _ assms(2)] heap_atD(8) [OF assms(1)] by simp_all

section \<open>Reading a descriptor\<close>

lemma desc_of_node:
  "alloc_get_desc (word_of_nat (D + 8)) = word_of_nat D"
  "alloc_get_desc (word_of_nat (D + 8)) + 4 = word_of_nat (D + 4)"
  "alloc_get_node (word_of_nat D) = word_of_nat (D + 8)"
  by (simp_all add: alloc_get_desc_def alloc_get_node_def DESC_SIZE_def)

lemma size_of_node:
  assumes "cell (mem s) (D + 4) = word_of_nat (sz + of_bool f)" and "8 dvd sz" and "sz + 1 < 2 ^ 32"
  shows "alloc_get_size s (word_of_nat (D + 8)) = word_of_nat sz"
    and "alloc_get_next_desc s (word_of_nat (D + 8)) = word_of_nat (D + 8 + sz)"
proof -
  show "alloc_get_size s (word_of_nat (D + 8)) = word_of_nat sz"
    unfolding alloc_get_size_def desc_of_node(1) node_plus mem_node(1) assms(1)
    by (rule chunk_size_word [OF assms(2,3)])
  then show "alloc_get_next_desc s (word_of_nat (D + 8)) = word_of_nat (D + 8 + sz)"
    unfolding alloc_get_next_desc_def by simp
qed

lemma flag_clear_word: "8 dvd sz \<Longrightarrow> sz + 1 < 2 ^ 32 \<Longrightarrow> word_of_nat sz AND (1 :: u32) = 0"
  using chunk_flag_word [of sz False] by simp

section \<open>Marking a chunk\<close>

text \<open>The memory after the flag of the chunk at \<open>D\<close> has been written in both descriptors.\<close>

definition mark :: "nat \<Rightarrow> nat \<Rightarrow> bool \<Rightarrow> kstate \<Rightarrow> kstate" where
  "mark D sz f s = wr (word_of_nat (D + 8 + sz)) (word_of_nat (sz + of_bool f))
     (wr (word_of_nat (D + 4)) (word_of_nat (sz + of_bool f)) s)"

lemma chunk_cells:
  assumes "heap_at s d (xs @ (sz, f) # ys) ns"
  shows "cell (mem s) (d + total xs + 4) = word_of_nat (sz + of_bool f)"
    and "cell (mem s) (d + total xs + 8 + sz) = word_of_nat (sz + of_bool f)"
    and "8 dvd sz" and "8 \<le> sz" and "d + total xs + sz + total ys + 24 \<le> 2 ^ 32"
  using heap_atD(3,4) [OF assms] by simp_all

lemma clear_free_eq:
  assumes "cell (mem s) (D + 4) = word_of_nat (sz + of_bool f)" and "cell (mem s) (D + 8 + sz) = word_of_nat (sz + of_bool f)"
    and "8 dvd sz" and "D + 16 + sz \<le> 2 ^ 32"
  shows "alloc_clear_free (word_of_nat (D + 8)) s = mark D sz False s"
proof -
  have sz: "sz + 1 < 2 ^ 32" using assms(4) by simp
  let ?s1 = "wr (word_of_nat (D + 4)) (word_of_nat sz) s"
  have c1: "cell (mem ?s1) (D + 4) = word_of_nat (sz + of_bool False)"
    using assms(4) by (simp add: cell_upd del: of_nat_add)
  have c2: "cell (mem ?s1) (D + 8 + sz) = word_of_nat (sz + of_bool f)"
    unfolding wr_fields using assms(2,4) by (subst cell_upd_other) auto
  show ?thesis
    unfolding alloc_clear_free_def Let_def desc_of_node(1) node_plus mem_node(1) KM_CHUNK_FREE_def assms(1)
      chunk_clear_word [OF assms(3) sz] size_of_node(2) [OF c1 assms(3) sz] c2
    by (simp add: mark_def)
qed

lemma set_free_eq:
  assumes "cell (mem s) (D + 4) = word_of_nat (sz + of_bool f)" and "cell (mem s) (D + 8 + sz) = word_of_nat (sz + of_bool f)"
    and "8 dvd sz" and "D + 16 + sz \<le> 2 ^ 32"
  shows "alloc_set_free (word_of_nat (D + 8)) s = mark D sz True s"
proof -
  have sz: "sz + 1 < 2 ^ 32" using assms(4) by simp
  let ?s1 = "wr (word_of_nat (D + 4)) (word_of_nat (sz + 1)) s"
  have c1: "cell (mem ?s1) (D + 4) = word_of_nat (sz + of_bool True)"
    using assms(4) by (simp add: cell_upd del: of_nat_add)
  have c2: "cell (mem ?s1) (D + 8 + sz) = word_of_nat (sz + of_bool f)"
    unfolding wr_fields using assms(2,4) by (subst cell_upd_other) auto
  show ?thesis
    unfolding alloc_set_free_def Let_def desc_of_node(1) node_plus mem_node(1) KM_CHUNK_FREE_def assms(1)
      chunk_set_word [OF assms(3) sz] size_of_node(2) [OF c1 assms(3) sz] c2
    by (simp add: mark_def)
qed

lemma descs_ends: "cs \<noteq> [] \<Longrightarrow> d + 4 \<in> descs d cs \<and> d + total cs \<in> descs d cs"
proof (induction d cs rule: descs.induct)
  case (2 d sz f cs)
  then show ?case by (cases "cs = []") (auto simp: ac_simps)
qed simp

lemma mark_seg:
  assumes "seg (mem s) d (xs @ mid @ ys)" and "total mid = 8 + sz" and "8 dvd sz" and "8 \<le> sz"
    and "d + total (xs @ mid @ ys) + 16 \<le> 2 ^ 32"
  shows "seg (mem (mark (d + total xs) sz f s)) d (xs @ (sz, f) # ys)"
proof -
  have "seg (mem (mark (d + total xs) sz f s)) d (xs @ [(sz, f)] @ ys)"
  proof (rule seg_replace [OF assms(1)])
    show "seg (mem (mark (d + total xs) sz f s)) (d + total xs) [(sz, f)]"
      using assms unfolding mark_def wr_fields by (auto simp: cell_upd simp del: of_nat_add)
    show "total [(sz, f)] = total mid" using assms(2) by simp
    fix a
    assume "a \<le> d + total xs \<or> d + total xs + total mid + 4 \<le> a" "a \<le> d + total (xs @ mid @ ys)"
    then show "cell (mem (mark (d + total xs) sz f s)) a = cell (mem s) a"
      using assms(2,5) unfolding mark_def wr_fields by (auto simp: cell_upd simp del: of_nat_add)
  qed
  then show ?thesis by simp
qed

lemma mark_cell_other:
  assumes "D + 16 + sz \<le> 2 ^ 32" and "a < 2 ^ 32" and "a \<noteq> D + 4" and "a \<noteq> D + 8 + sz"
  shows "cell (mem (mark D sz f s)) a = cell (mem s) a"
  using assms unfolding mark_def wr_fields by (simp add: cell_upd del: of_nat_add)

lemma mark_env [simp]: "same_env s (mark D sz f s)" "free_list (mark D sz f s) = free_list s"
  by (simp_all add: mark_def)

lemma mark_dls:
  assumes "dls (mem s) 0 (free_list s) ns 0" and "seg m d (xs @ mid @ ys)" and "mid \<noteq> []" and "total mid = 8 + sz"
    and "set ns \<subseteq> set (free_nodes d (xs @ mid @ ys))" and "d + total (xs @ mid @ ys) + 16 \<le> 2 ^ 32"
  shows "dls (mem (mark (d + total xs) sz f s)) 0 (free_list (mark (d + total xs) sz f s)) ns 0"
proof -
  have w: "k + 8 \<le> 2 ^ 32 \<and> D \<noteq> k \<and> D \<noteq> k + 4"
    if "D \<in> descs (d + total xs) mid" "k \<in> set ns" for D k
  proof -
    have k: "k \<in> set (free_nodes d (xs @ mid @ ys))" by (rule subsetD [OF assms(5) that(2)])
    have D: "D \<in> descs d (xs @ mid @ ys)" using that(1) by simp
    have "D + 4 \<le> k \<or> k + 8 \<le> D" by (rule node_not_desc [OF assms(2) k D])
    moreover have "k + 8 \<le> 2 ^ 32" using node_range [OF assms(2) k] assms(6) by linarith
    ultimately show ?thesis by linarith
  qed
  have e: "d + total xs + 4 \<in> descs (d + total xs) mid" "d + total xs + 8 + sz \<in> descs (d + total xs) mid"
    using descs_ends [OF assms(3), of "d + total xs"] assms(4) by (simp_all add: add.assoc)
  have "dls ((mem s)(word_of_nat (d + total xs + 4) := word_of_nat (sz + of_bool f))) 0 (free_list s) ns 0"
    by (rule dls_write_elsewhere [OF assms(1) _ w [OF e(1)]]) (use assms(4,6) in auto)
  then have "dls ((mem s)(word_of_nat (d + total xs + 4) := word_of_nat (sz + of_bool f),
      word_of_nat (d + total xs + 8 + sz) := word_of_nat (sz + of_bool f))) 0 (free_list s) ns 0"
    by (rule dls_write_elsewhere [OF _ _ w [OF e(2)]]) (use assms(4,6) in auto)
  then show ?thesis unfolding mark_def wr_fields .
qed

text \<open>Rewriting a run of chunks as one allocated chunk, once its free nodes are off the list.\<close>

lemma mark_heap:
  assumes h: "heap_at s d (xs @ mid @ ys) ns" and on: "only_nodes ns (mem s) (mem s1)"
    and l: "dls (mem s1) 0 (free_list s1) ns' 0"
    and ns': "distinct ns'" "set ns' = set ns - set (free_nodes (d + total xs) mid)"
    and mid: "mid \<noteq> []" "total mid = 8 + sz" "8 dvd sz" "8 \<le> sz"
  shows "heap_at (mark (d + total xs) sz False s1) d (xs @ (sz, False) # ys) ns'"
    and "\<And>a. d + total (xs @ mid @ ys) < a \<Longrightarrow> a < 2 ^ 32 \<Longrightarrow>
      cell (mem (mark (d + total xs) sz False s1)) a = cell (mem s) a"
    and "frame d (xs @ mid @ ys) (xs @ (sz, False) # ys) (mem s) (mem (mark (d + total xs) sz False s1))"
proof -
  note hd = heap_atD [OF h] and k = seg_keep [OF h on]
  let ?s' = "mark (d + total xs) sz False s1"
  have D: "d + total xs + 16 + sz \<le> 2 ^ 32" using hd(3) mid(2) by simp
  have dist: "distinct (free_nodes d (xs @ mid @ ys))" by (rule distinct_free_nodes [OF hd(4)])
  have st: "set ns' = set (free_nodes d (xs @ (sz, False) # ys))"
    unfolding ns'(2) hd(8) using dist mid(2) by (auto simp: add.assoc add.left_commute)
  show "heap_at ?s' d (xs @ (sz, False) # ys) ns'"
    unfolding heap_at_def
  proof (intro conjI)
    show "seg (mem ?s') d (xs @ (sz, False) # ys)"
      by (rule mark_seg [OF k(1) mid(2-4)]) (use hd(3) in simp)
    show "cell (mem ?s') d AND 1 = 0"
      using D hd(2,3,5) k(2) by (subst mark_cell_other) auto
    show "dls (mem ?s') 0 (free_list ?s') ns' 0"
      by (rule mark_dls [OF l hd(4) mid(1,2)]) (use ns'(2) hd(3,8) in auto)
    show "d + total (xs @ (sz, False) # ys) + 16 \<le> 2 ^ 32" using hd(3) mid(2) by simp
    show "set ns' = set (free_nodes d (xs @ (sz, False) # ys))" by (rule st)
  qed (use hd ns'(1) in simp_all)
  show "cell (mem ?s') a = cell (mem s) a" if "d + total (xs @ mid @ ys) < a" "a < 2 ^ 32" for a
    using that k(4) D mid(2) by (subst mark_cell_other) auto
  show "frame d (xs @ mid @ ys) (xs @ (sz, False) # ys) (mem s) (mem ?s')"
  proof (rule frameI)
    fix a assume a: "a < 2 ^ 32" "a \<notin> struct_cells d (xs @ mid @ ys)" "a \<notin> struct_cells d (xs @ (sz, False) # ys)"
    have "a \<noteq> d + total xs + 4" "a \<noteq> d + total xs + 8 + sz" using struct_cellsD(1) [OF a(3)] by auto
    then have "cell (mem ?s') a = cell (mem s1) a" by (rule mark_cell_other [OF D a(1)])
    also have "\<dots> = cell (mem s) a"
      by (rule only_nodesD [OF on a(1) struct_cellsD(4) [OF a(2)]]) (simp add: hd(8))
    finally show "cell (mem ?s') a = cell (mem s) a" .
  qed
qed

section \<open>Taking a chunk of the right size\<close>

theorem take_ok:
  assumes h: "heap_at s d (xs @ (sz, True) # ys) (as @ (d + total xs + 8) # bs)"
  defines "s' \<equiv> alloc_take (word_of_nat (d + total xs + 8)) s"
  shows "heap_at s' d (xs @ (sz, False) # ys) (as @ bs)" and "same_env s s'"
    and "\<And>a. d + total (xs @ (sz, True) # ys) < a \<Longrightarrow> a < 2 ^ 32 \<Longrightarrow> cell (mem s') a = cell (mem s) a"
    and "frame d (xs @ (sz, True) # ys) (xs @ (sz, False) # ys) (mem s) (mem s')"
proof -
  let ?n = "d + total xs + 8" and ?cs = "xs @ (sz, True) # ys"
  let ?s1 = "alloc_node_unlink (word_of_nat ?n) s"
  note hd = heap_atD [OF h] and c = chunk_cells [OF h]
  note u = unlink_ok [OF hd(6) heap_apart [OF h]]
  have u2: "only_nodes (as @ ?n # bs) (mem s) (mem ?s1)"
    by (rule only_nodes_mono [OF u(2)]) auto
  note k = seg_keep [OF h u2]
  have c1: "cell (mem ?s1) (d + total xs + 4) = word_of_nat (sz + of_bool True)"
    "cell (mem ?s1) (d + total xs + 8 + sz) = word_of_nat (sz + of_bool True)"
    using k(1) by simp_all
  have eq: "s' = mark (d + total xs) sz False ?s1"
    unfolding s'_def alloc_take_def by (rule clear_free_eq [OF c1 c(3)]) (use c(5) in simp)
  have "set (as @ bs) = set (as @ ?n # bs) - set (free_nodes (d + total xs) [(sz, True)])"
    using hd(7) by auto
  note m = mark_heap [where mid = "[(sz, True)]", simplified append.simps, OF h u2 u(1) _ this _ _ c(3,4)]
  show "heap_at s' d (xs @ (sz, False) # ys) (as @ bs)"
    unfolding eq by (rule m(1)) (use hd(7) in simp_all)
  show "same_env s s'"
    unfolding eq by (rule same_env_trans [OF u(3) mark_env(1)])
  show "cell (mem s') a = cell (mem s) a" if "d + total ?cs < a" "a < 2 ^ 32" for a
    unfolding eq by (rule m(2)) (use hd(7) that in simp_all)
  show "frame d ?cs (xs @ (sz, False) # ys) (mem s) (mem s')"
    unfolding eq by (rule m(3)) (use hd(7) in simp_all)
qed

section \<open>Freeing a chunk inside the heap\<close>

theorem give_ok:
  assumes h: "heap_at s d (xs @ (sz, False) # ys) ns"
  defines "n \<equiv> d + total xs + 8"
  defines "s' \<equiv> alloc_node_add (word_of_nat n) (alloc_set_free (word_of_nat n) s)"
  shows "heap_at s' d (xs @ (sz, True) # ys) (n # ns)" and "same_env s s'"
    and "\<And>a. d + total (xs @ (sz, False) # ys) < a \<Longrightarrow> a < 2 ^ 32 \<Longrightarrow> cell (mem s') a = cell (mem s) a"
    and "frame d (xs @ (sz, False) # ys) (xs @ (sz, True) # ys) (mem s) (mem s')"
proof -
  note hd = heap_atD [OF h] and c = chunk_cells [OF h]
  let ?cs = "xs @ (sz, True) # ys"
  let ?s1 = "mark (d + total xs) sz True s"
  have eq: "s' = alloc_node_add (word_of_nat n) ?s1"
    unfolding s'_def n_def by (subst set_free_eq [OF c(1,2,3)]) (use c(5) in simp_all)
  have bound: "d + total (xs @ (sz, f) # ys) + 16 \<le> 2 ^ 32" for f using hd(3) by simp
  have sg: "seg (mem ?s1) d ?cs"
    by (rule mark_seg [where mid = "[(sz, False)]"]) (use hd(3,4) c(3,4) in simp_all)
  have l1: "dls (mem ?s1) 0 (free_list ?s1) ns 0"
    by (rule mark_dls [where mid = "[(sz, False)]" and m = "mem s"]) (use hd(3,4,6,8) in simp_all)
  have st: "set (n # ns) = set (free_nodes d ?cs)" using hd(8) by (auto simp: n_def)
  have new: "n \<notin> set ns"
  proof
    assume "n \<in> set ns"
    then have "n \<in> set (free_nodes d xs) \<or> n \<in> set (free_nodes (d + total xs + 8 + sz) ys)"
      using hd(8) by (simp add: n_def)
    then show False
      using node_range [of "mem s" d xs n] node_range [of "mem s" "d + total xs + 8 + sz" ys n] hd(4) c(4)
      by (auto simp: n_def)
  qed
  have ap: "apart (n # ns)"
    by (rule seg_apart [OF sg bound]) (use new hd(7) st in simp_all)
  note ad = add_ok [OF l1 ap, folded eq]
  have "set (n # ns) \<subseteq> set (free_nodes d ?cs)" using st by simp
  note k = seg_unlisted [OF sg bound this ad(2)]
  show "heap_at s' d ?cs (n # ns)"
    unfolding heap_at_def
  proof (intro conjI)
    show "cell (mem s') d AND 1 = 0"
      using k(2) mark_cell_other [of "d + total xs" sz d True s] hd(5) c(5) by simp
  qed (use hd st ad(1) ap bound k(1) in \<open>auto simp: apart_def\<close>)
  show "same_env s s'"
    by (rule same_env_trans [OF mark_env(1) ad(3)])
  show "cell (mem s') a = cell (mem s) a" if "d + total (xs @ (sz, False) # ys) < a" "a < 2 ^ 32" for a
  proof -
    have "cell (mem s') a = cell (mem ?s1) a" using that by (intro k(4)) auto
    then show ?thesis using that c(5) by (simp add: mark_cell_other)
  qed
  show "frame d (xs @ (sz, False) # ys) ?cs (mem s) (mem s')"
  proof (rule frameI)
    fix a assume a: "a < 2 ^ 32" "a \<notin> struct_cells d ?cs"
    have "cell (mem s') a = cell (mem ?s1) a"
      by (rule only_nodesD [OF ad(2) a(1) struct_cellsD(4) [OF a(2)]]) (simp only: st)
    also have "\<dots> = cell (mem s) a"
      by (rule mark_cell_other) (use c(5) a(1) struct_cellsD(1) [OF a(2)] in auto)
    finally show "cell (mem s') a = cell (mem s) a" .
  qed
qed

end
