(* ===== verification/Heap_Free.thy ===== *)
theory Heap_Free
  imports Heap_Ops
begin

text \<open>
  \<open>free\<close> on the abstract heap: the freed chunk absorbs its free neighbours, and either joins the
  free list or, when it is the last one, becomes unused space past the new end of the heap.
\<close>

section \<open>Merging with the next chunk\<close>

lemma word_sum: "word_of_nat a + (word_of_nat b + 8 :: u32) = word_of_nat (a + 8 + b)"
  "word_of_nat a + word_of_nat b + 8 = (word_of_nat (a + 8 + b) :: u32)"
  by (simp_all add: ac_simps)

lemma merge_next_none:
  assumes "heap_at s d (xs @ (a, f) # ys) ns"
    and "ys = [] \<Longrightarrow> cell (mem s) (d + total xs + 8 + a + 4) AND 1 = 0" and "ys \<noteq> [] \<Longrightarrow> \<not> snd (hd ys)"
  shows "free_merge_next (word_of_nat (d + total xs + 8)) s = s"
proof -
  note c = chunk_cells [OF assms(1)]
  have a: "a + 1 < 2 ^ 32" using c(5) by simp
  have "cell (mem s) (d + total xs + 8 + a + 4) AND 1 = 0"
  proof (cases ys)
    case (Cons y zs)
    obtain b g where y: "y = (b, g)" by (cases y)
    then have g: "\<not> g" using assms(3) Cons by simp
    have "8 dvd b" "b + 1 < 2 ^ 32" and "cell (mem s) (d + total xs + 8 + a + 4) = word_of_nat (b + of_bool g)"
      using heap_atD(3,4) [OF assms(1)] Cons y by (simp_all add: ac_simps)
    then show ?thesis using chunk_flag_word [of b g] g by simp
  qed (use assms(2) in simp)
  then show ?thesis
    unfolding free_merge_next_def Let_def size_of_node(2) [OF c(1,3) a] KM_CHUNK_FREE_def node_plus mem_node(1)
    by simp
qed

theorem merge_next_ok:
  assumes h: "heap_at s d (xs @ (a, False) # (b, True) # ys) (as @ (d + total xs + 16 + a) # bs)"
  defines "s' \<equiv> free_merge_next (word_of_nat (d + total xs + 8)) s"
  shows "heap_at s' d (xs @ (a + 8 + b, False) # ys) (as @ bs)" and "same_env s s'"
    and "\<And>i. d + total (xs @ (a + 8 + b, False) # ys) < i \<Longrightarrow> i < 2 ^ 32 \<Longrightarrow> cell (mem s') i = cell (mem s) i"
    and "frame d (xs @ (a, False) # (b, True) # ys) (xs @ (a + 8 + b, False) # ys) (mem s) (mem s')"
proof -
  let ?D = "d + total xs" and ?mid = "[(a, False), (b, True)]"
  let ?n = "?D + 16 + a"
  let ?s1 = "alloc_node_unlink (word_of_nat ?n) s"
  have h': "heap_at s d (xs @ ?mid @ ys) (as @ ?n # bs)" using h by simp
  note hd = heap_atD [OF h'] and c = chunk_cells [OF h]
  have b: "8 dvd b" "8 \<le> b" "?D + a + b + 32 \<le> 2 ^ 32" "cell (mem s) (?D + 8 + a + 4) = word_of_nat (b + of_bool True)"
    using hd(3,4) by (simp_all add: ac_simps)
  have sz: "a + 1 < 2 ^ 32" "b + 1 < 2 ^ 32" "a + 8 + b + 1 < 2 ^ 32" using b(3) by simp_all
  note u = unlink_ok [OF hd(6) heap_apart [OF h]]
  have u2: "only_nodes (as @ ?n # bs) (mem s) (mem ?s1)" by (rule only_nodes_mono [OF u(2)]) auto
  note k = seg_keep [OF h' u2]
  have k1: "cell (mem ?s1) (?D + 4) = word_of_nat (a + of_bool False)"
    "cell (mem ?s1) (?D + 8 + a + 4) = word_of_nat (b + of_bool True)"
    using k(1) by (simp_all add: ac_simps)
  let ?s2 = "wr (word_of_nat (?D + 4)) (word_of_nat (a + 8 + b)) ?s1"
  have k2: "cell (mem ?s2) (?D + 4) = word_of_nat (a + 8 + b + of_bool False)"
    unfolding wr_fields using b(3) by (subst cell_upd) auto
  have dv: "8 dvd a + 8 + b" using c(3) b(1) by simp
  have fl: "word_of_nat (b + of_bool True) AND (1 :: u32) \<noteq> 0"
    using chunk_flag_word [OF b(1) sz(2), of True] by simp
  have node: "alloc_get_node (word_of_nat (?D + 8 + a)) = word_of_nat ?n"
    by (simp add: alloc_get_node_def DESC_SIZE_def)
  have nx: "alloc_get_size_next ?s1 (word_of_nat (?D + 8)) = word_of_nat b"
    unfolding alloc_get_size_next_def size_of_node(2) [OF k1(1) c(3) sz(1)] node_plus mem_node(1) k1(2)
    by (rule chunk_size_word [OF b(1) sz(2)])
  have eq: "s' = mark ?D (a + 8 + b) False ?s1"
  proof -
    have "s' = wr (alloc_get_next_desc ?s2 (word_of_nat (?D + 8))) (mem ?s2 (word_of_nat (?D + 4))) ?s2"
      unfolding s'_def free_merge_next_def Let_def size_of_node(2) [OF c(1,3) sz(1)] KM_CHUNK_FREE_def
        desc_of_node(1) node_plus mem_node(1) b(4) node nx k1(1) DESC_SIZE_def
      using fl by (simp add: word_sum)
    then show ?thesis
      unfolding size_of_node(2) [OF k2 dv sz(3)] mem_node(1) k2 mark_def by simp
  qed
  have "set (as @ bs) = set (as @ ?n # bs) - set (free_nodes ?D ?mid)"
    using hd(7) by (auto simp: ac_simps)
  note m = mark_heap [OF h' u2 u(1) _ this _ _ dv]
  show "heap_at s' d (xs @ (a + 8 + b, False) # ys) (as @ bs)"
    unfolding eq by (rule m(1)) (use hd(7) in simp_all)
  show "same_env s s'"
    unfolding eq by (rule same_env_trans [OF u(3) mark_env(1)])
  show "cell (mem s') i = cell (mem s) i" if "d + total (xs @ (a + 8 + b, False) # ys) < i" "i < 2 ^ 32" for i
    unfolding eq by (rule m(2)) (use hd(7) that in simp_all)
  have "frame d (xs @ ?mid @ ys) (xs @ (a + 8 + b, False) # ys) (mem s) (mem s')"
    unfolding eq by (rule m(3)) (use hd(7) in simp_all)
  then show "frame d (xs @ (a, False) # (b, True) # ys) (xs @ (a + 8 + b, False) # ys) (mem s) (mem s')" by simp
qed

section \<open>Merging with the previous chunk\<close>

lemma merge_prev_none:
  assumes "heap_at s d (xs @ (a, f) # ys) ns" and "xs \<noteq> [] \<Longrightarrow> \<not> snd (last xs)"
  shows "free_merge_prev c (word_of_nat (d + total xs + 8)) s = (word_of_nat (d + total xs + 8), s)"
proof -
  note hd = heap_atD [OF assms(1)]
  have "cell (mem s) (d + total xs) AND 1 = 0"
  proof (cases xs rule: rev_cases)
    case Nil
    then show ?thesis using hd(5) by simp
  next
    case (snoc ws w)
    obtain b g where w: "w = (b, g)" by (cases w)
    then have "\<not> g" using assms(2) snoc by simp
    moreover have "8 dvd b" "b + 1 < 2 ^ 32" "cell (mem s) (d + total xs) = word_of_nat (b + of_bool g)"
      using hd(3,4) snoc w by (simp_all add: ac_simps)
    ultimately show ?thesis using chunk_flag_word [of b g] by simp
  qed
  then show ?thesis
    unfolding free_merge_prev_def desc_of_node(1) KM_CHUNK_FREE_def mem_node(1) by simp
qed

theorem merge_prev_ok:
  assumes h: "heap_at s d (xs @ (a, True) # (b, False) # ys) (as @ (d + total xs + 8) # bs)"
  defines "s' \<equiv> snd (free_merge_prev (word_of_nat (d + total xs)) (word_of_nat (d + total xs + 8 + a + 8)) s)"
  shows "heap_at s' d (xs @ (a + 8 + b, False) # ys) (as @ bs)" and "same_env s s'"
    and "fst (free_merge_prev (word_of_nat (d + total xs)) (word_of_nat (d + total xs + 8 + a + 8)) s) =
      word_of_nat (d + total xs + 8)"
    and "\<And>i. d + total (xs @ (a + 8 + b, False) # ys) < i \<Longrightarrow> i < 2 ^ 32 \<Longrightarrow> cell (mem s') i = cell (mem s) i"
    and "frame d (xs @ (a, True) # (b, False) # ys) (xs @ (a + 8 + b, False) # ys) (mem s) (mem s')"
proof -
  let ?D = "d + total xs" and ?mid = "[(a, True), (b, False)]"
  let ?n = "?D + 8" and ?v = "?D + 8 + a"
  let ?s1 = "alloc_node_unlink (word_of_nat ?n) s"
  have h': "heap_at s d (xs @ ?mid @ ys) (as @ ?n # bs)" using h by simp
  note hd = heap_atD [OF h'] and c = chunk_cells [OF h]
  have b: "8 dvd b" "8 \<le> b" "?D + a + b + 32 \<le> 2 ^ 32" "cell (mem s) (?v + 4) = word_of_nat (b + of_bool False)"
    using hd(3,4) by (simp_all add: ac_simps)
  have sz: "a + 1 < 2 ^ 32" "b + 1 < 2 ^ 32" "a + 8 + b + 1 < 2 ^ 32" using b(3) by simp_all
  note u = unlink_ok [OF hd(6) heap_apart [OF h]]
  have u2: "only_nodes (as @ ?n # bs) (mem s) (mem ?s1)" by (rule only_nodes_mono [OF u(2)]) auto
  note k = seg_keep [OF h' u2]
  have k1: "cell (mem ?s1) ?v = word_of_nat (a + of_bool True)"
    "cell (mem ?s1) (?v + 4) = word_of_nat (b + of_bool False)"
    using k(1) by (simp_all add: ac_simps)
  let ?s2 = "wr (word_of_nat (?D + 4)) (word_of_nat (a + 8 + b)) ?s1"
  have k2: "cell (mem ?s2) (?D + 4) = word_of_nat (a + 8 + b + of_bool False)"
    unfolding wr_fields using b(3) by (subst cell_upd) auto
  have dv: "8 dvd a + 8 + b" using c(3) b(1) by simp
  have fl: "cell (mem s) ?v AND (1 :: u32) \<noteq> 0"
    unfolding c(2) using chunk_flag_word [OF c(3) sz(1), of True] by simp
  have pv: "alloc_get_size_prev ?s1 (word_of_nat (?v + 8)) = word_of_nat a"
    unfolding alloc_get_size_prev_def desc_of_node(1) mem_node(1) k1(1) by (rule chunk_size_word [OF c(3) sz(1)])
  have "free_merge_prev (word_of_nat ?D) (word_of_nat (?v + 8)) s =
      (word_of_nat ?n, wr (alloc_get_next_desc ?s2 (word_of_nat ?n)) (mem ?s2 (word_of_nat (?D + 4))) ?s2)"
    unfolding free_merge_prev_def Let_def desc_of_node(1,3) KM_CHUNK_FREE_def mem_node(1) pv
      size_of_node(1) [OF k1(2) b(1) sz(2)] DESC_SIZE_def node_plus
    using fl by (simp add: word_sum)
  also have "\<dots> = (word_of_nat ?n, mark ?D (a + 8 + b) False ?s1)"
    unfolding size_of_node(2) [OF k2 dv sz(3)] mem_node(1) k2 mark_def by simp
  finally have eq2: "free_merge_prev (word_of_nat ?D) (word_of_nat (?v + 8)) s =
      (word_of_nat ?n, mark ?D (a + 8 + b) False ?s1)" .
  have eq: "s' = mark ?D (a + 8 + b) False ?s1" unfolding s'_def eq2 by simp
  show "fst (free_merge_prev (word_of_nat ?D) (word_of_nat (?v + 8)) s) = word_of_nat ?n"
    unfolding eq2 by simp
  have "set (as @ bs) = set (as @ ?n # bs) - set (free_nodes ?D ?mid)"
    using hd(7) by (auto simp: ac_simps)
  note m = mark_heap [OF h' u2 u(1) _ this _ _ dv]
  show "heap_at s' d (xs @ (a + 8 + b, False) # ys) (as @ bs)"
    unfolding eq by (rule m(1)) (use hd(7) in simp_all)
  show "same_env s s'"
    unfolding eq by (rule same_env_trans [OF u(3) mark_env(1)])
  show "cell (mem s') i = cell (mem s) i" if "d + total (xs @ (a + 8 + b, False) # ys) < i" "i < 2 ^ 32" for i
    unfolding eq by (rule m(2)) (use hd(7) that in simp_all)
  have "frame d (xs @ ?mid @ ys) (xs @ (a + 8 + b, False) # ys) (mem s) (mem s')"
    unfolding eq by (rule m(3)) (use hd(7) in simp_all)
  then show "frame d (xs @ (a, True) # (b, False) # ys) (xs @ (a + 8 + b, False) # ys) (mem s) (mem s')" by simp
qed

section \<open>The whole of \<open>free\<close>\<close>

text \<open>The abstract operation: chunk \<open>a\<close> between \<open>xs\<close> and \<open>ys\<close> is freed.\<close>

fun absorb_next :: "nat \<Rightarrow> chunk list \<Rightarrow> nat \<times> chunk list" where
  "absorb_next a ((b, True) # ys) = (a + 8 + b, ys)"
| "absorb_next a ys = (a, ys)"

definition absorb_prev :: "chunk list \<Rightarrow> nat \<Rightarrow> chunk list \<times> nat" where
  "absorb_prev xs a = (if xs \<noteq> [] \<and> snd (last xs) then (butlast xs, fst (last xs) + 8 + a) else (xs, a))"

definition freed :: "chunk list \<Rightarrow> nat \<Rightarrow> chunk list \<Rightarrow> chunk list" where
  "freed xs a ys =
     (let (a1, ys1) = absorb_next a ys; (xs1, a2) = absorb_prev xs a1
      in if ys1 = [] then xs1 else xs1 @ (a2, True) # ys1)"

text \<open>Merging leaves every other block, and freeing takes exactly one block out of use.\<close>

lemma absorb_blocks:
  fixes xs ys a
  defines "a1 \<equiv> fst (absorb_next a ys)" and "ys1 \<equiv> snd (absorb_next a ys)"
  defines "xs1 \<equiv> fst (absorb_prev xs a1)" and "a2 \<equiv> snd (absorb_prev xs a1)"
  shows "blocks (e + 8 + a) ys = blocks (e + 8 + a1) ys1" and "blocks d xs = blocks d xs1"
    and "d + total xs + 8 + a1 = d + total xs1 + 8 + a2"
    and "blocks d (freed xs a ys) = blocks d xs @ blocks (d + total xs + 8 + a) ys"
proof -
  show n: "blocks (e + 8 + a) ys = blocks (e + 8 + a1) ys1" for e
    unfolding a1_def ys1_def by (cases "(a, ys)" rule: absorb_next.cases) (simp_all add: ac_simps)
  have "blocks d xs = blocks d xs1 \<and> total xs + a1 = total xs1 + a2"
  proof (cases xs rule: rev_cases)
    case (snoc ws w)
    then show ?thesis unfolding xs1_def a2_def by (cases w) (auto simp: absorb_prev_def)
  qed (simp add: xs1_def a2_def absorb_prev_def)
  then show p: "blocks d xs = blocks d xs1" "d + total xs + 8 + a1 = d + total xs1 + 8 + a2" by simp_all
  have "blocks d (freed xs a ys) = blocks d xs1 @ blocks (d + total xs1 + 8 + a2) ys1"
    unfolding xs1_def a2_def ys1_def a1_def by (simp add: freed_def split: prod.splits)
  then show "blocks d (freed xs a ys) = blocks d xs @ blocks (d + total xs + 8 + a) ys"
    unfolding n [of "d + total xs"] p .
qed

lemma freed_blocks:
  "set (blocks d (freed xs a ys)) = set (blocks d (xs @ (a, False) # ys)) - {(d + total xs + 8, a)}"
proof -
  have "set (blocks d (freed xs a ys)) = set (blocks d xs) \<union> set (blocks (d + total xs + 8 + a) ys)"
    unfolding absorb_blocks(4) by simp
  moreover have "(d + total xs + 8, a) \<notin> set (blocks d xs) \<union> set (blocks (d + total xs + 8 + a) ys)"
    using blocks_range [of "d + total xs + 8" a d xs] blocks_range [of "d + total xs + 8" a "d + total xs + 8 + a" ys]
    by auto
  ultimately show ?thesis by auto
qed

definition coalesced :: "chunk list \<Rightarrow> bool" where
  "coalesced cs \<longleftrightarrow> successively (\<lambda>c c'. \<not> (snd c \<and> snd c')) cs"

text \<open>
  A heap between two calls: the context's end is right after the last descriptor, whose flag is
  clear; the last chunk is in use and no two free chunks are adjacent.
\<close>

definition heap_ok :: "kstate \<Rightarrow> nat \<Rightarrow> chunk list \<Rightarrow> nat list \<Rightarrow> bool" where
  "heap_ok s d cs ns \<longleftrightarrow>
     heap_at s d cs ns \<and> heap_end s = word_of_nat (d + total cs + 8) \<and> coalesced cs \<and>
     (cs \<noteq> [] \<longrightarrow> cell (mem s) (d + total cs + 4) AND 1 = 0 \<and> \<not> snd (last cs))"

lemma heap_okD:
  assumes "heap_ok s d cs ns"
  shows "heap_at s d cs ns" "heap_end s = word_of_nat (d + total cs + 8)" "coalesced cs"
    "cs \<noteq> [] \<Longrightarrow> cell (mem s) (d + total cs + 4) AND 1 = 0" "cs \<noteq> [] \<Longrightarrow> \<not> snd (last cs)"
  using assms by (simp_all add: heap_ok_def)

lemma coalesced_append:
  "coalesced (xs @ ys) \<longleftrightarrow> coalesced xs \<and> coalesced ys \<and> (xs \<noteq> [] \<longrightarrow> ys \<noteq> [] \<longrightarrow> \<not> (snd (last xs) \<and> snd (hd ys)))"
  by (auto simp: coalesced_def successively_append_iff)

lemma coalesced_Cons:
  "coalesced (x # ys) \<longleftrightarrow> coalesced ys \<and> (ys \<noteq> [] \<longrightarrow> \<not> (snd x \<and> snd (hd ys)))"
  by (cases ys) (auto simp: coalesced_def)

lemma absorb_next_step:
  assumes h: "heap_at s d (xs @ (a, False) # ys) ns" and co: "coalesced ys"
    and fl: "ys = [] \<longrightarrow> cell (mem s) (d + total (xs @ (a, False) # ys) + 4) AND 1 = 0"
  defines "s1 \<equiv> free_merge_next (word_of_nat (d + total xs + 8)) s"
    and "a1 \<equiv> fst (absorb_next a ys)" and "ys1 \<equiv> snd (absorb_next a ys)"
  shows "\<exists>ns1. heap_at s1 d (xs @ (a1, False) # ys1) ns1" and "same_env s s1"
    and "cell (mem s1) (d + total (xs @ (a, False) # ys) + 4) = cell (mem s) (d + total (xs @ (a, False) # ys) + 4)"
    and "total (xs @ (a1, False) # ys1) = total (xs @ (a, False) # ys)"
    and "coalesced ys1" and "ys1 \<noteq> [] \<Longrightarrow> \<not> snd (hd ys1) \<and> last ys1 = last ys"
    and "frame d (xs @ (a, False) # ys) (xs @ (a1, False) # ys1) (mem s) (mem s1)"
    and "struct_cells d (xs @ (a1, False) # ys1) \<subseteq> struct_cells d (xs @ (a, False) # ys)"
proof -
  show tot: "total (xs @ (a1, False) # ys1) = total (xs @ (a, False) # ys)"
    unfolding a1_def ys1_def by (cases "(a, ys)" rule: absorb_next.cases) auto
  have *: "(\<exists>ns1. heap_at s1 d (xs @ (a1, False) # ys1) ns1) \<and> same_env s s1 \<and>
    cell (mem s1) (d + total (xs @ (a, False) # ys) + 4) = cell (mem s) (d + total (xs @ (a, False) # ys) + 4) \<and>
    frame d (xs @ (a, False) # ys) (xs @ (a1, False) # ys1) (mem s) (mem s1)"
  proof (cases "ys \<noteq> [] \<and> snd (hd ys)")
    case True
    then obtain b zs where ys: "ys = (b, True) # zs" by (cases ys) auto
    then have e: "a1 = a + 8 + b" "ys1 = zs" by (simp_all add: a1_def ys1_def)
    have h': "heap_at s d (xs @ (a, False) # (b, True) # zs) ns" using h ys by simp
    have "d + total xs + 16 + a \<in> set ns"
      using heap_atD(8) [OF h'] by (simp add: ac_simps)
    then obtain as bs where ns: "ns = as @ (d + total xs + 16 + a) # bs" by (auto dest: split_list)
    note m = merge_next_ok [OF h' [unfolded ns], folded s1_def]
    have "cell (mem s1) (d + total (xs @ (a, False) # ys) + 4) = cell (mem s) (d + total (xs @ (a, False) # ys) + 4)"
      by (rule m(3)) (use ys heap_atD(3) [OF h'] in simp_all)
    then show ?thesis
      using m(1,2,4) e ys by auto
  next
    case False
    then have e: "a1 = a" "ys1 = ys"
      by (simp_all add: a1_def ys1_def) (cases "(a, ys)" rule: absorb_next.cases; simp)+
    have "s1 = s"
      unfolding s1_def using False fl
      by (intro merge_next_none [OF h]) (auto simp: ac_simps)
    then show ?thesis using h e by auto
  qed
  then show "\<exists>ns1. heap_at s1 d (xs @ (a1, False) # ys1) ns1" "same_env s s1"
    "cell (mem s1) (d + total (xs @ (a, False) # ys) + 4) = cell (mem s) (d + total (xs @ (a, False) # ys) + 4)"
    "frame d (xs @ (a, False) # ys) (xs @ (a1, False) # ys1) (mem s) (mem s1)" by blast+
  show "coalesced ys1" "ys1 \<noteq> [] \<Longrightarrow> \<not> snd (hd ys1) \<and> last ys1 = last ys"
    using co unfolding ys1_def by (cases "(a, ys)" rule: absorb_next.cases; auto simp: coalesced_Cons)+
  show "struct_cells d (xs @ (a1, False) # ys1) \<subseteq> struct_cells d (xs @ (a, False) # ys)"
    unfolding struct_cells_def tot unfolding a1_def ys1_def
    by (cases "(a, ys)" rule: absorb_next.cases) (auto simp: ac_simps)
qed

lemma absorb_prev_step:
  assumes h: "heap_at s1 d (xs @ (a, False) # ys) ns"
    and c: "xs \<noteq> [] \<longrightarrow> c = word_of_nat (d + total (butlast xs))" and co: "coalesced xs"
  defines "r \<equiv> free_merge_prev c (word_of_nat (d + total xs + 8)) s1"
    and "xs1 \<equiv> fst (absorb_prev xs a)" and "a2 \<equiv> snd (absorb_prev xs a)"
  shows "\<exists>ns1. heap_at (snd r) d (xs1 @ (a2, False) # ys) ns1" and "same_env s1 (snd r)"
    and "fst r = word_of_nat (d + total xs1 + 8)"
    and "cell (mem (snd r)) (d + total (xs @ (a, False) # ys) + 4) = cell (mem s1) (d + total (xs @ (a, False) # ys) + 4)"
    and "total (xs1 @ (a2, False) # ys) = total (xs @ (a, False) # ys)"
    and "coalesced xs1" and "xs1 \<noteq> [] \<Longrightarrow> \<not> snd (last xs1)"
    and "frame d (xs @ (a, False) # ys) (xs1 @ (a2, False) # ys) (mem s1) (mem (snd r))"
    and "struct_cells d (xs1 @ (a2, False) # ys) \<subseteq> struct_cells d (xs @ (a, False) # ys)"
    and "d + total xs1 + 8 = d + total xs + 8 \<or> d + total xs1 + 8 \<in> set (free_nodes d xs)"
proof -
  have tot: "total (xs1 @ (a2, False) # ys) = total (xs @ (a, False) # ys)"
    unfolding xs1_def a2_def absorb_prev_def by (cases xs rule: rev_cases) auto
  have *: "(\<exists>ns1. heap_at (snd r) d (xs1 @ (a2, False) # ys) ns1) \<and> same_env s1 (snd r) \<and>
    fst r = word_of_nat (d + total xs1 + 8) \<and>
    cell (mem (snd r)) (d + total (xs @ (a, False) # ys) + 4) = cell (mem s1) (d + total (xs @ (a, False) # ys) + 4) \<and>
    coalesced xs1 \<and> (xs1 \<noteq> [] \<longrightarrow> \<not> snd (last xs1)) \<and>
    frame d (xs @ (a, False) # ys) (xs1 @ (a2, False) # ys) (mem s1) (mem (snd r))"
  proof (cases "xs \<noteq> [] \<and> snd (last xs)")
    case True
    then obtain b ws where xs: "xs = ws @ [(b, True)]" by (cases xs rule: rev_cases) auto
    then have e: "xs1 = ws" "a2 = b + 8 + a" by (simp_all add: xs1_def a2_def absorb_prev_def)
    have h': "heap_at s1 d (ws @ (b, True) # (a, False) # ys) ns" using h xs by simp
    have "d + total ws + 8 \<in> set ns" using heap_atD(8) [OF h'] by simp
    then obtain as bs where ns: "ns = as @ (d + total ws + 8) # bs" by (auto dest: split_list)
    have r: "r = free_merge_prev (word_of_nat (d + total ws)) (word_of_nat (d + total ws + 8 + b + 8)) s1"
      using c xs unfolding r_def by (simp add: ac_simps)
    note m = merge_prev_ok [OF h' [unfolded ns], folded r]
    have "cell (mem (snd r)) (d + total (xs @ (a, False) # ys) + 4) = cell (mem s1) (d + total (xs @ (a, False) # ys) + 4)"
      by (rule m(4)) (use xs heap_atD(3) [OF h] in simp_all)
    then show ?thesis
      using m(1-3,5) co unfolding e by (auto simp: xs coalesced_append coalesced_Cons)
  next
    case False
    then have e: "xs1 = xs" "a2 = a" unfolding xs1_def a2_def absorb_prev_def by auto
    have "r = (word_of_nat (d + total xs + 8), s1)"
      unfolding r_def using False by (intro merge_prev_none [OF h]) simp
    then show ?thesis using h co False e by auto
  qed
  then show "\<exists>ns1. heap_at (snd r) d (xs1 @ (a2, False) # ys) ns1" "same_env s1 (snd r)"
    "fst r = word_of_nat (d + total xs1 + 8)"
    "cell (mem (snd r)) (d + total (xs @ (a, False) # ys) + 4) = cell (mem s1) (d + total (xs @ (a, False) # ys) + 4)"
    "total (xs1 @ (a2, False) # ys) = total (xs @ (a, False) # ys)" "coalesced xs1"
    "xs1 \<noteq> [] \<Longrightarrow> \<not> snd (last xs1)" "frame d (xs @ (a, False) # ys) (xs1 @ (a2, False) # ys) (mem s1) (mem (snd r))"
    using tot by blast+
  show "struct_cells d (xs1 @ (a2, False) # ys) \<subseteq> struct_cells d (xs @ (a, False) # ys)"
    "d + total xs1 + 8 = d + total xs + 8 \<or> d + total xs1 + 8 \<in> set (free_nodes d xs)"
    unfolding struct_cells_def tot unfolding xs1_def a2_def absorb_prev_def
    by (cases xs rule: rev_cases; auto simp: ac_simps)+
qed

lemma free_pages_done: "page < vma \<Longrightarrow> free_pages pf vma page s = Some (Inr s)"
  by (subst free_pages.simps) (simp flip: not_less)

lemma prev_desc_ok:
  assumes h: "heap_at s d (xs @ (a, f) # ys) ns" and "xs \<noteq> []"
  shows "alloc_get_prev_desc s (word_of_nat (d + total xs + 8)) = word_of_nat (d + total (butlast xs))"
proof -
  obtain ws b g where xs: "xs = ws @ [(b, g)]" using assms(2) by (cases xs rule: rev_cases) auto
  have "8 dvd b" "b + 1 < 2 ^ 32" "cell (mem s) (d + total xs) = word_of_nat (b + of_bool g)"
    using heap_atD(3,4) [OF h] xs by (simp_all add: ac_simps)
  then have "alloc_get_size_prev s (word_of_nat (d + total xs + 8)) = word_of_nat b"
    unfolding alloc_get_size_prev_def desc_of_node(1) mem_node(1) using chunk_size_word [of b g] by simp
  then show ?thesis
    unfolding alloc_get_prev_desc_def using xs by (simp add: DESC_SIZE_def)
qed

text \<open>The two merges of \<open>free\<close> together: the chunk absorbs its free neighbours.\<close>

lemma merge_ok:
  fixes a :: nat and xs ys :: "chunk list"
  assumes h: "heap_at s d (xs @ (a, False) # ys) ns" and co: "coalesced (xs @ (a, False) # ys)"
    and fl: "ys = [] \<longrightarrow> cell (mem s) (d + total (xs @ (a, False) # ys) + 4) AND 1 = 0"
  defines "cs \<equiv> xs @ (a, False) # ys" and "v \<equiv> word_of_nat (d + total xs + 8) :: u32"
    and "a1 \<equiv> fst (absorb_next a ys)" and "ys1 \<equiv> snd (absorb_next a ys)"
  defines "xs1 \<equiv> fst (absorb_prev xs a1)" and "a2 \<equiv> snd (absorb_prev xs a1)"
  defines "r \<equiv> free_merge_prev (alloc_get_prev_desc s v) v (free_merge_next v s)"
  shows "\<exists>ns2. heap_at (snd r) d (xs1 @ (a2, False) # ys1) ns2" and "same_env s (snd r)"
    and "fst r = word_of_nat (d + total xs1 + 8)"
    and "cell (mem (snd r)) (d + total cs + 4) = cell (mem s) (d + total cs + 4)"
    and "total xs1 + a2 + 8 + total ys1 = total cs"
    and "coalesced (xs1 @ (a2, f) # ys1)" and "xs1 \<noteq> [] \<Longrightarrow> \<not> snd (last xs1)" and "ys1 \<noteq> [] \<Longrightarrow> last ys1 = last ys"
    and "changes (struct_cells d cs) (mem s) (mem (snd r))"
    and "struct_cells d (xs1 @ (a2, False) # ys1) \<subseteq> struct_cells d cs"
    and "d + total xs1 + 8 = d + total xs + 8 \<or> d + total xs1 + 8 \<in> set (free_nodes d xs)"
proof -
  let ?s1 = "free_merge_next v s"
  have cx: "coalesced xs" "coalesced ys" using co by (simp_all add: coalesced_append coalesced_Cons)
  note n = absorb_next_step [OF h cx(2) fl, folded v_def a1_def ys1_def, folded cs_def]
  obtain ns1 where h1: "heap_at ?s1 d (xs @ (a1, False) # ys1) ns1" using n(1) by blast
  have "xs \<noteq> [] \<longrightarrow> alloc_get_prev_desc s v = word_of_nat (d + total (butlast xs))"
    using prev_desc_ok [OF h] unfolding v_def by blast
  note p = absorb_prev_step [OF h1 this cx(1), folded v_def, folded r_def xs1_def a2_def]
  show "\<exists>ns2. heap_at (snd r) d (xs1 @ (a2, False) # ys1) ns2" by (rule p(1))
  show "same_env s (snd r)" by (rule same_env_trans [OF n(2) p(2)])
  show "fst r = word_of_nat (d + total xs1 + 8)" by (rule p(3))
  show "cell (mem (snd r)) (d + total cs + 4) = cell (mem s) (d + total cs + 4)"
    by (simp only: p(4) [unfolded n(4)] n(3))
  show "total xs1 + a2 + 8 + total ys1 = total cs" using p(5) n(4) by simp
  show "xs1 \<noteq> [] \<Longrightarrow> \<not> snd (last xs1)" by (rule p(7))
  then show "coalesced (xs1 @ (a2, f) # ys1)"
    using p(6) n(5,6) by (auto simp: coalesced_append coalesced_Cons)
  show "ys1 \<noteq> [] \<Longrightarrow> last ys1 = last ys" using n(6) by blast
  show "struct_cells d (xs1 @ (a2, False) # ys1) \<subseteq> struct_cells d cs" using p(9) n(8) by blast
  show "changes (struct_cells d cs) (mem s) (mem (snd r))"
    by (rule changes_trans [OF frame_changes [OF n(7) subset_refl n(8)] frame_changes [OF p(8) n(8)] subset_refl subset_refl])
      (use p(9) n(8) in blast)
  show "d + total xs1 + 8 = d + total xs + 8 \<or> d + total xs1 + 8 \<in> set (free_nodes d xs)" by (rule p(10))
qed

lemma free_with_eq:
  assumes h: "heap_at s d (xs @ (a, False) # ys) ns" and co: "coalesced (xs @ (a, False) # ys)"
    and fl: "ys = [] \<longrightarrow> cell (mem s) (d + total (xs @ (a, False) # ys) + 4) AND 1 = 0"
  defines "v \<equiv> word_of_nat (d + total xs + 8) :: u32"
    and "xs1 \<equiv> fst (absorb_prev xs (fst (absorb_next a ys)))" and "a2 \<equiv> snd (absorb_prev xs (fst (absorb_next a ys)))"
  defines "v2 \<equiv> word_of_nat (d + total xs1 + 8) :: u32"
    and "s2 \<equiv> snd (free_merge_prev (alloc_get_prev_desc s v) v (free_merge_next v s))"
  shows "free_with pf v s = (if word_of_nat (d + total xs1 + a2 + 16) = heap_end s
      then rbind (returns (free_pages pf v2 (heap_end s AND NOT 0xfff) s2)) (\<lambda>s3. Inr (set_heap_end v2 s3))
      else Inr (alloc_node_add v2 (alloc_set_free v2 s2)))"
proof -
  note m = merge_ok [OF h co fl, folded v_def, folded xs1_def a2_def s2_def]
  obtain ns2 where h2: "heap_at s2 d (xs1 @ (a2, False) # snd (absorb_next a ys)) ns2" using m(1) by blast
  note c2 = chunk_cells [OF h2]
  have "a2 + 1 < 2 ^ 32" using c2(5) by simp
  then have sz: "alloc_get_size s2 v2 = word_of_nat a2"
    unfolding v2_def using size_of_node(1) [OF c2(1,3)] by simp
  have e: "heap_end s2 = heap_end s" using m(2) by (simp add: same_env_def)
  have "v2 + alloc_get_size s2 v2 + DESC_SIZE = word_of_nat (d + total xs1 + a2 + 16)"
    unfolding sz unfolding v2_def by (simp add: DESC_SIZE_def)
  then show ?thesis
    unfolding free_with_def Let_def case_prod_beta v_def [symmetric] s2_def [symmetric] m(3) v2_def [symmetric] e by simp
qed

text \<open>A freed chunk inside the heap is marked and joins the free list.\<close>

lemma free_inner_ok:
  assumes h: "heap_at s d (xs @ (a, False) # ys) ns" and co: "coalesced (xs @ (a, False) # ys)"
    and fl: "ys = [] \<longrightarrow> cell (mem s) (d + total (xs @ (a, False) # ys) + 4) AND 1 = 0"
    and ne: "word_of_nat (d + total xs1 + a2 + 16) \<noteq> heap_end s"
    and xs1: "xs1 = fst (absorb_prev xs (fst (absorb_next a ys)))" and a2: "a2 = snd (absorb_prev xs (fst (absorb_next a ys)))"
    and ys1: "ys1 = snd (absorb_next a ys)"
  shows "\<exists>s' ns'. free_with pf (word_of_nat (d + total xs + 8)) s = Inr s' \<and> heap_at s' d (xs1 @ (a2, True) # ys1) ns' \<and>
    same_env s s' \<and> frame d (xs @ (a, False) # ys) (xs1 @ (a2, True) # ys1) (mem s) (mem s') \<and>
    cell (mem s') (d + total (xs @ (a, False) # ys) + 4) = cell (mem s) (d + total (xs @ (a, False) # ys) + 4)"
proof -
  let ?v = "word_of_nat (d + total xs + 8) :: u32" and ?v2 = "word_of_nat (d + total xs1 + 8) :: u32"
  let ?cs = "xs @ (a, False) # ys" and ?cs' = "xs1 @ (a2, True) # ys1"
  let ?s2 = "snd (free_merge_prev (alloc_get_prev_desc s ?v) ?v (free_merge_next ?v s))"
  note m = merge_ok [OF h co fl, folded xs1 a2 ys1]
  obtain ns2 where h2: "heap_at ?s2 d (xs1 @ (a2, False) # ys1) ns2" using m(1) by blast
  let ?s3 = "alloc_node_add ?v2 (alloc_set_free ?v2 ?s2)"
  note g = give_ok [OF h2]
  have "free_with pf ?v s = Inr ?s3" using free_with_eq [OF h co fl, of pf, folded xs1 a2] ne by simp
  moreover have "same_env s ?s3" by (rule same_env_trans [OF m(2) g(2)])
  moreover have "changes (struct_cells d ?cs \<union> struct_cells d ?cs') (mem ?s2) (mem ?s3)"
    by (rule frame_changes [OF g(4)]) (use m(10) in blast)+
  from changes_trans [OF m(9) this, of "struct_cells d ?cs \<union> struct_cells d ?cs'"]
  have "frame d ?cs ?cs' (mem s) (mem ?s3)" by (simp add: frame_def changes_def)
  moreover have "cell (mem ?s3) (d + total ?cs + 4) = cell (mem s) (d + total ?cs + 4)"
    using m(4) g(3) [of "d + total ?cs + 4"] m(5) heap_atD(3) [OF h] by simp
  ultimately show ?thesis using g(1) by blast
qed

text \<open>
  Every call of \<open>free\<close> on a chunk in use keeps the heap well formed, as long as it has no whole page
  to give back: either the merged chunk is not the last, or it starts in the page of the heap's end.
\<close>

theorem free_with_ok:
  assumes k: "heap_ok s d (xs @ (a, False) # ys) ns"
    and page: "freed xs a ys = fst (absorb_prev xs (fst (absorb_next a ys))) \<Longrightarrow>
      heap_end s AND NOT 0xfff < (word_of_nat (d + total (freed xs a ys) + 8) :: u32)"
  shows "\<exists>s' ns'. free_with pf (word_of_nat (d + total xs + 8)) s = Inr s' \<and>
    heap_ok s' d (freed xs a ys) ns' \<and> same_env (set_heap_end (heap_end s') s) s' \<and>
    changes (struct_cells d (xs @ (a, False) # ys) \<union> struct_cells d (freed xs a ys)) (mem s) (mem s')"
proof -
  let ?cs = "xs @ (a, False) # ys"
  let ?v = "word_of_nat (d + total xs + 8) :: u32"
  let ?xs1 = "fst (absorb_prev xs (fst (absorb_next a ys)))" and ?a2 = "snd (absorb_prev xs (fst (absorb_next a ys)))"
  let ?ys1 = "snd (absorb_next a ys)"
  let ?v2 = "word_of_nat (d + total ?xs1 + 8) :: u32"
  let ?s2 = "snd (free_merge_prev (alloc_get_prev_desc s ?v) ?v (free_merge_next ?v s))"
  note k' = heap_okD [OF k]
  have fl': "cell (mem s) (d + total ?cs + 4) AND 1 = 0" using k'(4) by simp
  then have fl: "ys = [] \<longrightarrow> cell (mem s) (d + total ?cs + 4) AND 1 = 0" by (rule impI)
  note m = merge_ok [OF k'(1,3) fl]
  obtain ns2 where h2: "heap_at ?s2 d (?xs1 @ (?a2, False) # ?ys1) ns2" using m(1) by blast
  have fr: "freed xs a ys = (if ?ys1 = [] then ?xs1 else ?xs1 @ (?a2, True) # ?ys1)"
    by (simp add: freed_def split: prod.splits)
  have cond: "(word_of_nat (d + total ?xs1 + ?a2 + 16) = heap_end s) = (?ys1 = [])"
  proof -
    have "((word_of_nat (d + total ?xs1 + ?a2 + 16) :: u32) = word_of_nat (d + total ?cs + 8))
        = (d + total ?xs1 + ?a2 + 16 = d + total ?cs + 8)"
      by (rule word_of_nat_eq_iff32) (use heap_atD(3) [OF k'(1)] m(5) in simp_all)
    moreover have "total ?ys1 = 0 \<longleftrightarrow> ?ys1 = []" by (cases ?ys1 rule: total.cases) simp_all
    ultimately show ?thesis unfolding k'(2) using m(5) by auto
  qed
  show ?thesis
  proof (cases "?ys1 = []")
    case True
    have "heap_end s AND NOT 0xfff < ?v2" using page fr True by simp
    then have "free_pages pf ?v2 (heap_end s AND NOT 0xfff) ?s2 = Some (Inr ?s2)" by (rule free_pages_done)
    then have f: "free_with pf ?v s = Inr (set_heap_end ?v2 ?s2)"
      using free_with_eq [OF k'(1,3) fl, of pf] cond True by simp
    have "heap_at (set_heap_end ?v2 ?s2) d ?xs1 ns2" using h2 True unfolding heap_at_def by simp
    moreover have "cell (mem ?s2) (d + total ?xs1 + 4) AND 1 = 0"
      using chunk_cells [OF h2] flag_clear_word [of ?a2] by simp
    moreover have "coalesced ?xs1" using m(6) [of False] by (simp add: coalesced_append)
    ultimately have "heap_ok (set_heap_end ?v2 ?s2) d ?xs1 ns2" using m(7) by (simp add: heap_ok_def)
    moreover have "changes (struct_cells d ?cs \<union> struct_cells d ?xs1) (mem s) (mem ?s2)"
      by (rule changes_trans [OF m(9) changes_refl]) auto
    moreover have "same_env (set_heap_end ?v2 s) (set_heap_end ?v2 ?s2)"
      using m(2) by (simp add: same_env_def set_heap_end_def)
    ultimately show ?thesis using f fr True by auto
  next
    case False
    then have "word_of_nat (d + total ?xs1 + ?a2 + 16) \<noteq> heap_end s" using cond by simp
    from free_inner_ok [OF k'(1,3) fl this refl refl refl, of pf]
    obtain s3 ns3 where g: "free_with pf ?v s = Inr s3" "heap_at s3 d (?xs1 @ (?a2, True) # ?ys1) ns3" "same_env s s3"
        "frame d ?cs (?xs1 @ (?a2, True) # ?ys1) (mem s) (mem s3)" "cell (mem s3) (d + total ?cs + 4) = cell (mem s) (d + total ?cs + 4)"
      by blast
    have tt: "total (?xs1 @ (?a2, True) # ?ys1) = total ?cs" using m(5) by simp
    have "ys \<noteq> []" using False by (cases ys) auto
    then have "\<not> snd (last (?xs1 @ (?a2, True) # ?ys1))" using m(8) False k'(5) by simp
    moreover have "heap_end s3 = heap_end s" using g(3) by (simp add: same_env_def)
    ultimately have "heap_ok s3 d (?xs1 @ (?a2, True) # ?ys1) ns3"
      using g(2,5) k'(2) fl' m(6) [of True] unfolding heap_ok_def tt by simp
    moreover have "same_env (set_heap_end (heap_end s3) s) s3" using g(3) by (simp add: same_env_def set_heap_end_def)
    moreover have "changes (struct_cells d ?cs \<union> struct_cells d (?xs1 @ (?a2, True) # ?ys1)) (mem s) (mem s3)"
      using g(4) by (simp add: frame_def changes_def)
    ultimately show ?thesis using g(1) fr False by auto
  qed
qed

text \<open>The blocks that stay live keep their contents.\<close>

lemma changes_keeps:
  assumes "changes (struct_cells d cs \<union> struct_cells d cs' \<union> E) m m'" and "seg m d cs" and "seg m' d cs'"
    and "d + total cs \<le> 2 ^ 32" and "B \<subseteq> set (blocks d cs)" and "B \<subseteq> set (blocks d cs')"
  shows "keeps E B m m'"
proof (rule keepsI)
  fix n sz a assume b: "(n, sz) \<in> B" and a: "n \<le> a" "a + 4 \<le> n + sz" "a \<notin> E"
  have "a \<notin> struct_cells d cs" by (rule block_not_struct [OF assms(2) subsetD [OF assms(5) b] a(1,2)])
  moreover have "a \<notin> struct_cells d cs'" by (rule block_not_struct [OF assms(3) subsetD [OF assms(6) b] a(1,2)])
  moreover have "a < 2 ^ 32" using blocks_range [OF subsetD [OF assms(5) b]] a assms(4) by simp
  ultimately show "cell m' a = cell m a" using assms(1) a(3) by (simp add: changes_def)
qed

end
