(* ===== verification/Heap_Split.thy ===== *)
theory Heap_Split
  imports Heap_Free
begin

text \<open>
  Splitting a free chunk: the front becomes the allocated chunk, the rest keeps the place of the old
  node in the free list.
\<close>

text \<open>The descriptors \<open>alloc_split\<close> writes, before it moves the list node.\<close>

definition split_descs :: "nat \<Rightarrow> nat \<Rightarrow> nat \<Rightarrow> kstate \<Rightarrow> kstate" where
  "split_descs D b R s =
     wr (word_of_nat (D + 4)) (word_of_nat b)
       (wr (word_of_nat (D + 16 + b + R)) (word_of_nat (R + 1))
          (wr (word_of_nat (D + 12 + b)) (word_of_nat (R + 1))
             (wr (word_of_nat (D + 12 + b)) (word_of_nat (R + 1))
                (wr (word_of_nat (D + 8 + b)) (word_of_nat b) s))))"

lemma split_descs_cell:
  assumes "D + 24 + b + R \<le> 2 ^ 32" and "a < 2 ^ 32" and "8 \<le> b" and "8 \<le> R"
  shows "cell (mem (split_descs D b R s)) a =
    (if a = D + 4 \<or> a = D + 8 + b then word_of_nat b
     else if a = D + 12 + b \<or> a = D + 16 + b + R then word_of_nat (R + 1) else cell (mem s) a)"
  unfolding split_descs_def wr_fields using assms by (auto simp: cell_upd simp del: of_nat_add)

lemma split_descs_env [simp]: "same_env s (split_descs D b R s)" "free_list (split_descs D b R s) = free_list s"
  by (simp_all add: split_descs_def)

text \<open>The list part of \<open>alloc_split\<close>, from the memory with the new descriptors.\<close>

definition split_move :: "u32 \<Rightarrow> u32 \<Rightarrow> kstate \<Rightarrow> kstate" where
  "split_move n new_node s5 =
     (let s7 = wr (new_node + 4) (mem s5 (n + 4)) (wr new_node (mem s5 n) s5);
          s8 = (if mem s7 new_node \<noteq> 0 then wr (mem s7 new_node + 4) new_node s7
                else set_free_list new_node s7)
      in if mem s8 (new_node + 4) \<noteq> 0 then wr (mem s8 (new_node + 4)) new_node s8 else s8)"

lemma split_eq:
  assumes c: "cell (mem s) (D + 4) = word_of_nat (sz + 1)" and b: "8 dvd sz" "8 dvd b" "8 \<le> b" "b + 8 < sz"
    and D: "D + 16 + sz \<le> 2 ^ 32"
  shows "alloc_split (word_of_nat (D + 8)) (word_of_nat b) s =
    split_move (word_of_nat (D + 8)) (word_of_nat (D + 16 + b)) (split_descs D b (sz - b - 8) s)"
proof -
  let ?R = "sz - b - 8"
  have R: "?R + b + 8 = sz" "8 dvd ?R" using b by auto
  have dif: "word_of_nat (sz + 1) - word_of_nat b - 8 = (word_of_nat (?R + 1) :: u32)"
  proof -
    have "(word_of_nat (sz + 1) :: u32) = word_of_nat (?R + 1 + b + 8)" using R(1) by simp
    then show ?thesis by simp
  qed
  have or1: "word_of_nat (?R + 1) OR 1 = (word_of_nat (?R + 1) :: u32)"
    using chunk_set_word [of ?R True] R D by simp
  let ?s1 = "wr (word_of_nat (D + 8 + b)) (word_of_nat b) s"
  let ?s2 = "wr (word_of_nat (D + 12 + b)) (word_of_nat (?R + 1)) ?s1"
  let ?s3 = "wr (word_of_nat (D + 12 + b)) (word_of_nat (?R + 1)) ?s2"
  have c1: "cell (mem ?s1) (D + 4) = word_of_nat (sz + 1)"
    unfolding wr_fields using c b D by (subst cell_upd_other) auto
  have c2: "cell (mem ?s2) (D + 12 + b) = word_of_nat (?R + 1)"
    unfolding wr_fields using b D by (subst cell_upd) auto
  have c3: "cell (mem ?s3) (D + 4) = word_of_nat (sz + of_bool True)" "cell (mem ?s3) (D + 12 + b) = word_of_nat (?R + 1)"
    unfolding wr_fields using c b D by (auto simp: cell_upd simp del: of_nat_add)
  have nx: "alloc_get_next_desc ?s3 (word_of_nat (D + 8)) = word_of_nat (D + 16 + b + ?R)"
    using size_of_node(2) [OF c3(1) b(1)] D R(1) by (simp add: ac_simps)
  have a1: "word_of_nat (D + 8) + word_of_nat b = (word_of_nat (D + 8 + b) :: u32)"
    "word_of_nat (D + 8 + b) + 4 = (word_of_nat (D + 12 + b) :: u32)"
    "word_of_nat (D + 8 + b) + 8 = (word_of_nat (D + 16 + b) :: u32)" by simp_all
  show ?thesis
    unfolding alloc_split_def split_move_def split_descs_def Let_def desc_of_node(1) a1 node_plus [of D] mem_node(1)
      c1 DESC_SIZE_def dif c2 KM_CHUNK_FREE_def or1 nx c3(2)
    by (rule refl)
qed

text \<open>Moving a list node to a place apart from the others, keeping its neighbours.\<close>

lemma split_move_ok:
  fixes s5 :: kstate
  assumes l: "dls (mem s5) 0 (free_list s5) (as @ n # bs) 0" and ap: "apart (as @ n # bs)" "apart (as @ N # bs)"
  defines "s' \<equiv> split_move (word_of_nat n) (word_of_nat N) s5"
  shows "dls (mem s') 0 (free_list s') (as @ N # bs) 0" and "only_nodes (as @ N # bs) (mem s5) (mem s')"
    and "same_env s5 s'"
proof -
  let ?p = "end_of 0 as" and ?q = "cell (mem s5) (n + 4)" and ?w = "word_of_nat N :: u32"
  let ?s7 = "wr (word_of_nat (N + 4)) ?q (wr ?w ?p s5)"
  let ?s8 = "link_prev as ?w ?s7"
  note at = dls_at [OF l]
  have a: "apart as" "apart bs" "apart (as @ bs)" by (rule apart_sub [OF ap(1)]; use ap(1) in \<open>auto simp: apart_def\<close>)+
  have N: "N + 8 \<le> 2 ^ 32" "N \<notin> set as \<union> set bs" using ap(2) by (auto simp: apart_def)
  note w = node_written [OF N(1), where s = s5 and x = ?p and y = ?q]
  have "cell (mem ?s8) N = cell (mem ?s7) N" "cell (mem ?s8) (N + 4) = cell (mem ?s7) (N + 4)"
    by (rule other_node_cells [OF link_prev_nodes [OF a(1)] ap(2)]; use N(2) in auto)+
  note c8 = this [unfolded w]
  have "s' = (if ?q \<noteq> 0 then wr ?q ?w ?s8 else ?s8)"
    unfolding s'_def split_move_def Let_def node_plus mem_node(1) at(1) w(1) link_prev_test [OF a(1), unfolded node_plus] c8(2)
    by (rule refl)
  then have eq: "s' = link_next bs ?w ?s8" unfolding link_next_test [OF at(3) a(2)] .
  have "dls (mem ?s7) 0 (free_list ?s7) as (word_of_nat n)" "dls (mem ?s7) (word_of_nat n) ?q bs 0"
    using N(2) dls_other [OF at(2) w(3) ap(2)] dls_other [OF at(3) w(3) ap(2)] by auto
  note ends = link_ends_ok [OF this a(3), of ?w ?w, folded eq]
  have o: "only_nodes (as @ N # bs) (mem s5) (mem s')" using w(3) ends(3) by (simp add: only_nodes_def)
  then show "only_nodes (as @ N # bs) (mem s5) (mem s')" .
  have "cell (mem s') N = ?p" "cell (mem s') (N + 4) = ?q"
    using other_node_cells [OF ends(3) ap(2), of N] N(2) w(1,2) by auto
  then show "dls (mem s') 0 (free_list s') (as @ N # bs) 0"
    unfolding dls_append dls.simps using ends(1,2) by (intro exI [of _ ?w]) simp
  show "same_env s5 s'" by (rule same_env_trans [OF _ ends(4)]) simp
qed

end
