(* ===== verification/Heap_Alloc.thy ===== *)
theory Heap_Alloc
  imports Heap_Split
begin

text \<open>
  \<open>alloc\<close> on the abstract heap.  The locale \<open>page_source\<close> is the contract between \<open>alloc\<close> and the
  function it is given for obtaining physical pages.
\<close>

section \<open>Splitting, on the heap\<close>

text \<open>A chunk of \<open>sz\<close> bytes at \<open>D\<close> is cut into \<open>b\<close> bytes, a descriptor pair and the rest.\<close>

lemma split_rest:
  fixes sz b :: nat
  assumes "8 dvd sz" and "8 dvd b" and "b + 8 < sz"
  shows "8 dvd sz - b - 8" "8 \<le> sz - b - 8" "sz - b - 8 + b + 8 = sz"
proof -
  show d: "8 dvd sz - b - 8" using assms by auto
  show "8 \<le> sz - b - 8" by (rule dvd_imp_le [OF d]) (use assms(3) in simp)
  show "sz - b - 8 + b + 8 = sz" using assms(3) by simp
qed

lemma split_descs_seg:
  assumes h: "heap_at s d (xs @ (b + 8 + R, True) # ys) ns" and b: "8 dvd b" "8 \<le> b" and R: "8 dvd R" "8 \<le> R"
  shows "seg (mem (split_descs (d + total xs) b R s)) d (xs @ (b, False) # (R, True) # ys)"
proof -
  let ?D = "d + total xs" and ?s = "split_descs (d + total xs) b R s"
  have lim: "?D + 24 + b + R + total ys \<le> 2 ^ 32" using heap_atD(3) [OF h] by simp
  then have D: "?D + 24 + b + R \<le> 2 ^ 32" by simp
  note c = split_descs_cell [OF D _ b(2) R(2), of _ s]
  have "seg (mem ?s) d (xs @ [(b, False), (R, True)] @ ys)"
  proof (rule seg_replace)
    show "seg (mem s) d (xs @ [(b + 8 + R, True)] @ ys)" using heap_atD(4) [OF h] by simp
    show "seg (mem ?s) ?D [(b, False), (R, True)]"
      using c [of "?D + 4"] c [of "?D + 8 + b"] c [of "?D + 8 + b + 4"] c [of "?D + 8 + b + 8 + R"] b R D
      by (simp add: ac_simps)
    fix a assume "a \<le> ?D \<or> ?D + total [(b + 8 + R, True)] + 4 \<le> a" "a \<le> d + total (xs @ [(b + 8 + R, True)] @ ys)"
    then show "cell (mem ?s) a = cell (mem s) a" using c [of a] lim by auto
  qed simp
  then show ?thesis by simp
qed

lemma split_descs_dls:
  assumes h: "heap_at s d (xs @ (b + 8 + R, True) # ys) (as @ (d + total xs + 8) # bs)" and b: "8 \<le> b" "8 \<le> R"
  shows "dls (mem (split_descs (d + total xs) b R s)) 0 (free_list s) (as @ (d + total xs + 8) # bs) 0"
    and "k \<in> set as \<union> set bs \<Longrightarrow> k + 8 \<le> d + total xs \<or> d + total xs + 24 + b + R \<le> k"
proof -
  let ?D = "d + total xs" and ?ns = "as @ (d + total xs + 8) # bs"
  note hd = heap_atD [OF h]
  have D: "?D + 24 + b + R \<le> 2 ^ 32" using hd(3) by simp
  show out: "k + 8 \<le> ?D \<or> ?D + 24 + b + R \<le> k" if "k \<in> set as \<union> set bs" for k
  proof -
    have "k \<in> set (free_nodes d (xs @ [(b + 8 + R, True)] @ ys))" "k \<noteq> ?D + 8" using that hd(7,8) by auto
    then show ?thesis
      using other_nodes [of "mem s" d xs "[(b + 8 + R, True)]" ys k] hd(4) by (simp add: ac_simps)
  qed
  show "dls (mem (split_descs ?D b R s)) 0 (free_list s) ?ns 0"
  proof (rule dls_cong [OF _ hd(6)])
    fix k assume k: "k \<in> set ?ns"
    have "a \<notin> {?D + 4, ?D + 8 + b, ?D + 12 + b, ?D + 16 + b + R} \<and> a < 2 ^ 32" if "a = k \<or> a = k + 4" for a
      using k out [of k] heap_node [OF h k] b that by auto
    from this [of k] this [of "k + 4"] show "cell (mem (split_descs ?D b R s)) k = cell (mem s) k \<and>
        cell (mem (split_descs ?D b R s)) (k + 4) = cell (mem s) (k + 4)"
      using split_descs_cell [OF D _ b, of k s] split_descs_cell [OF D _ b, of "k + 4" s] by simp
  qed
qed

lemma split_nodes:
  assumes "heap_at s d (xs @ (b + 8 + R, True) # ys) (as @ (d + total xs + 8) # bs)"
  shows "set (as @ (d + total xs + 16 + b) # bs) = set (free_nodes d (xs @ (b, False) # (R, True) # ys))"
proof -
  note hd = heap_atD [OF assms]
  have "set (as @ bs) = set (as @ (d + total xs + 8) # bs) - {d + total xs + 8}" using hd(7) by auto
  also have "\<dots> = set (free_nodes d xs) \<union> set (free_nodes (d + total xs + 8 + (b + 8 + R)) ys)"
    unfolding hd(8) using distinct_free_nodes [OF hd(4)] by auto
  finally show ?thesis by (auto simp: ac_simps)
qed

theorem split_ok:
  assumes h: "heap_at s d (xs @ (sz, True) # ys) (as @ (d + total xs + 8) # bs)"
    and b: "8 dvd b" "8 \<le> b" "b + 8 < sz"
  defines "s' \<equiv> alloc_split (word_of_nat (d + total xs + 8)) (word_of_nat b) s"
  shows "heap_at s' d (xs @ (b, False) # (sz - b - 8, True) # ys) (as @ (d + total xs + 16 + b) # bs)"
    and "same_env s s'"
    and "\<And>a. d + total (xs @ (sz, True) # ys) < a \<Longrightarrow> a < 2 ^ 32 \<Longrightarrow> cell (mem s') a = cell (mem s) a"
    and "frame d (xs @ (sz, True) # ys) (xs @ (b, False) # (sz - b - 8, True) # ys) (mem s) (mem s')"
proof -
  let ?D = "d + total xs" and ?R = "sz - b - 8" and ?cs = "xs @ (sz, True) # ys"
  let ?N = "?D + 16 + b" and ?cs' = "xs @ (b, False) # (?R, True) # ys"
  let ?s5 = "split_descs ?D b ?R s"
  note hd = heap_atD [OF h] and c = chunk_cells [OF h] and R = split_rest [OF chunk_cells(3) [OF h] b(1,3)]
  have sz: "b + 8 + ?R = sz" using R(3) by simp
  have h': "heap_at s d (xs @ (b + 8 + ?R, True) # ys) (as @ (?D + 8) # bs)" using h unfolding sz .
  have tot: "total ?cs' = total ?cs" and bound: "d + total ?cs' + 16 \<le> 2 ^ 32" using R(3) hd(3) by simp_all
  have D: "?D + 24 + b + ?R \<le> 2 ^ 32" "?D + 16 + sz \<le> 2 ^ 32" using c(5) R(3) by simp_all
  note c5 = split_descs_cell [OF D(1) _ b(2) R(2)] and sg = split_descs_seg [OF h' b(1,2) R(1,2)]
    and st = split_nodes [OF h'] and l5 = split_descs_dls [OF h' b(2) R(2)]
  have c1: "cell (mem s) (?D + 4) = word_of_nat (sz + 1)" using c(1) by simp
  have eq: "s' = split_move (word_of_nat (?D + 8)) (word_of_nat ?N) ?s5"
    unfolding s'_def by (rule split_eq [OF c1 c(3) b D(2)])
  have dN: "distinct (as @ ?N # bs)" using hd(7) l5(2) [of ?N] b(2) by auto
  have sub: "set (as @ ?N # bs) \<subseteq> set (free_nodes d ?cs')" using st by (rule equalityD1)
  have "dls (mem ?s5) 0 (free_list ?s5) (as @ (?D + 8) # bs) 0" using l5(1) by simp
  note mv = split_move_ok [OF this heap_apart [OF h] seg_apart [OF sg bound dN sub], folded eq]
  note k = seg_unlisted [OF sg bound sub mv(2)]
  have d5: "cell (mem ?s5) d = cell (mem s) d" using c5 [of d] hd(3) by simp
  show "heap_at s' d ?cs' (as @ ?N # bs)"
    unfolding heap_at_def
    by (intro conjI hd(1,2) bound k(1) mv(1) dN st) (simp only: k(2) d5 hd(5))
  show "same_env s s'" by (rule same_env_trans [OF split_descs_env(1) mv(3)])
  show "cell (mem s') a = cell (mem s) a" if a: "d + total ?cs < a" "a < 2 ^ 32" for a
    using k(4) [of a] c5 [OF a(2)] a tot R(3) by simp
  show "frame d ?cs ?cs' (mem s) (mem s')"
  proof (rule frameI)
    fix a assume a: "a < 2 ^ 32" "a \<notin> struct_cells d ?cs'"
    have "cell (mem s') a = cell (mem ?s5) a"
      by (rule only_nodesD [OF mv(2) a(1) struct_cellsD(4) [OF a(2)]]) (simp only: st)
    also have "\<dots> = cell (mem s) a"
      using c5 [OF a(1)] struct_cellsD(1) [OF a(2)] by (simp add: ac_simps)
    finally show "cell (mem s') a = cell (mem s) a" .
  qed
qed

section \<open>The search of the free list\<close>

fun size_at :: "nat \<Rightarrow> chunk list \<Rightarrow> nat \<Rightarrow> nat" where
  "size_at d [] n = 0"
| "size_at d ((sz, f) # cs) n = (if n = d + 8 then sz else size_at (d + 8 + sz) cs n)"

fun first_fit :: "(nat \<Rightarrow> nat) \<Rightarrow> nat \<Rightarrow> nat list \<Rightarrow> fit" where
  "first_fit sz b [] = Fit_none"
| "first_fit sz b (n # ns) =
     (if sz n = b then Fit_exact (word_of_nat n)
      else if b + 8 < sz n then Fit_split (word_of_nat n) else first_fit sz b ns)"

lemma node_decomp:
  "n \<in> set (free_nodes d cs) \<Longrightarrow> seg m d cs \<Longrightarrow>
     \<exists>xs sz ys. cs = xs @ (sz, True) # ys \<and> n = d + total xs + 8 \<and> size_at d cs n = sz"
proof (induction m d cs rule: seg.induct)
  case (2 m d sz f cs)
  show ?case
  proof (cases "n = d + 8")
    case True
    have "f"
    proof (rule ccontr)
      assume "\<not> f"
      then have "n \<in> set (free_nodes (d + 8 + sz) cs)" using 2(2) by simp
      then show False using node_range [of m "d + 8 + sz" cs n] 2(3) True by simp
    qed
    then show ?thesis using True by (intro exI [of _ "[]"] exI [of _ sz] exI [of _ cs]) simp
  next
    case False
    then have "n \<in> set (free_nodes (d + 8 + sz) cs)" "seg m (d + 8 + sz) cs"
      using 2(2,3) by (auto split: if_splits)
    then obtain xs z ys where e: "cs = xs @ (z, True) # ys" "n = d + 8 + sz + total xs + 8" "size_at (d + 8 + sz) cs n = z"
      using 2(1) by blast
    then show ?thesis
      using False by (intro exI [of _ "(sz, f) # xs"] exI [of _ z] exI [of _ ys]) (simp add: ac_simps)
  qed
qed simp

lemma find_ok:
  assumes h: "heap_at s d cs ns0" and b: "b + 8 < 2 ^ 32"
  shows "dls (mem s) p hd' ns 0 \<Longrightarrow> set ns \<subseteq> set (free_nodes d cs) \<Longrightarrow>
    alloc_find s (word_of_nat b) hd' = Some (first_fit (size_at d cs) b ns)"
proof (induction ns arbitrary: p hd')
  case Nil
  then show ?case by (simp add: alloc_find.simps)
next
  case (Cons n ns)
  note hd = heap_atD [OF h]
  have n: "n \<in> set (free_nodes d cs)" using Cons.prems(2) by simp
  obtain xs sz ys where e: "cs = xs @ (sz, True) # ys" "n = d + total xs + 8" "size_at d cs n = sz"
    using node_decomp [OF n hd(4)] by blast
  have h': "heap_at s d (xs @ (sz, True) # ys) ns0" using h e(1) by simp
  note c = chunk_cells [OF h']
  have sz: "sz + 1 < 2 ^ 32" using c(5) by simp
  have size: "alloc_get_size s (word_of_nat n) = word_of_nat sz"
    unfolding e(2) by (rule size_of_node(1) [OF c(1,3) sz])
  have nz: "(word_of_nat n :: u32) \<noteq> 0"
    using word_of_nat_nonzero [of n] e(2) c(5) by simp
  have cmp: "(word_of_nat sz = (word_of_nat b :: u32)) = (sz = b)"
    "(word_of_nat b + DESC_SIZE < (word_of_nat sz :: u32)) = (b + 8 < sz)"
    using word_of_nat_eq_iff32 [of sz b] word_of_nat_less_iff32 [of "b + 8" sz] sz b
    by (simp_all add: DESC_SIZE_def)
  have hd': "hd' = word_of_nat n" and tl: "dls (mem s) (word_of_nat n) (cell (mem s) (n + 4)) ns 0"
    using Cons.prems(1) by simp_all
  have "alloc_find s (word_of_nat b) (cell (mem s) (n + 4)) = Some (first_fit (size_at d cs) b ns)"
    using Cons.prems(2) by (intro Cons.IH [OF tl]) simp
  then show ?case
    unfolding hd' alloc_find.simps [of s "word_of_nat b" "word_of_nat n"] Let_def size cmp first_fit.simps e(3)
      node_plus mem_node(1)
    using nz by simp
qed

lemma first_fit_cases:
  obtains (none) "first_fit sz b ns = Fit_none" "\<forall>n\<in>set ns. sz n \<noteq> b \<and> sz n \<le> b + 8"
  | (exact) as n bs where "first_fit sz b ns = Fit_exact (word_of_nat n)" "ns = as @ n # bs" "sz n = b"
  | (split) as n bs where "first_fit sz b ns = Fit_split (word_of_nat n)" "ns = as @ n # bs" "b + 8 < sz n"
proof (induction ns arbitrary: thesis)
  case Nil
  then show ?case by simp
next
  case (Cons n ns)
  show ?case
  proof (cases "sz n = b \<or> b + 8 < sz n")
    case True
    then show ?thesis using Cons.prems(2) [of n "[]" ns] Cons.prems(3) [of n "[]" ns] by auto
  next
    case False
    show ?thesis
    proof (rule Cons.IH)
      assume "first_fit sz b ns = Fit_none" "\<forall>n\<in>set ns. sz n \<noteq> b \<and> sz n \<le> b + 8"
      then show ?thesis using False Cons.prems(1) by auto
    next
      fix as k bs assume "first_fit sz b ns = Fit_exact (word_of_nat k)" "ns = as @ k # bs" "sz k = b"
      then show ?thesis using False Cons.prems(2) [of k "n # as" bs] by auto
    next
      fix as k bs assume "first_fit sz b ns = Fit_split (word_of_nat k)" "ns = as @ k # bs" "b + 8 < sz k"
      then show ?thesis using False Cons.prems(3) [of k "n # as" bs] by auto
    qed
  qed
qed

end
