(* ===== verification/Heap_Pool.thy ===== *)
theory Heap_Pool
  imports Heap_Free
begin

text \<open>
  The free page list.  Its nodes are blocks of 8 bytes of the heap, so taking a page off the list frees a
  block, in the middle of the \<open>alloc\<close> that needs the page: \<open>page_new\<close> on a heap whose end has been moved
  but whose new chunk is not there yet.
\<close>

section \<open>The list in memory\<close>

fun page_list :: "(u32 \<Rightarrow> u32) \<Rightarrow> u32 \<Rightarrow> nat list \<Rightarrow> bool" where
  "page_list m h [] \<longleftrightarrow> h = 0"
| "page_list m h (p # ps) \<longleftrightarrow> h = word_of_nat p \<and> page_list m (cell m (p + 4)) ps"

lemma page_list_cong:
  "(\<And>p. p \<in> set ps \<Longrightarrow> cell m' (p + 4) = cell m (p + 4)) \<Longrightarrow> page_list m h ps \<Longrightarrow> page_list m' h ps"
  by (induction ps arbitrary: h) auto

definition pool_blocks :: "nat set \<Rightarrow> (nat \<times> nat) set" where
  "pool_blocks P = (\<lambda>p. (p, 8)) ` P"

definition pool_cells :: "nat list \<Rightarrow> nat set" where
  "pool_cells ps = set ps \<union> (\<lambda>p. p + 4) ` set ps"

text \<open>The nodes \<open>ps\<close> of the list are live blocks; \<open>clients\<close> are the other live blocks.\<close>

definition pool_ok :: "kstate \<Rightarrow> nat \<Rightarrow> chunk list \<Rightarrow> nat list \<Rightarrow> bool" where
  "pool_ok s d cs ps \<longleftrightarrow> page_list (mem s) (page_free_list s) ps \<and> distinct ps \<and> pool_blocks (set ps) \<subseteq> set (blocks d cs)"

definition clients :: "nat \<Rightarrow> chunk list \<Rightarrow> nat list \<Rightarrow> (nat \<times> nat) set" where
  "clients d cs ps = set (blocks d cs) - pool_blocks (set ps)"

lemma pool_simps [simp]:
  "pool_blocks {} = {}" "pool_cells [] = {}" "clients d cs [] = set (blocks d cs)"
  "pool_blocks (insert p P) = insert (p, 8) (pool_blocks P)" "pool_cells (p # ps) = {p, p + 4} \<union> pool_cells ps"
  by (auto simp: pool_blocks_def pool_cells_def clients_def)

lemma pool_okD:
  assumes "pool_ok s d cs ps"
  shows "page_list (mem s) (page_free_list s) ps" "distinct ps" "p \<in> set ps \<Longrightarrow> (p, 8) \<in> set (blocks d cs)"
  using assms by (auto simp: pool_ok_def pool_blocks_def)

lemma pool_empty [simp]: "pool_ok s d cs [] \<longleftrightarrow> page_free_list s = 0"
  by (simp add: pool_ok_def)

lemma pool_blocks_iff: "(n, sz) \<in> pool_blocks P \<longleftrightarrow> n \<in> P \<and> sz = 8"
  by (auto simp: pool_blocks_def)

lemma pool_cellsE:
  assumes "a \<in> pool_cells ps"
  obtains p where "p \<in> set ps" "p \<le> a" "a + 4 \<le> p + 8"
  using assms by (auto simp: pool_cells_def)

lemma pool_ok_keeps:
  assumes "pool_ok s d cs ps" and "keeps {} (pool_blocks (set ps)) (mem s) (mem s')"
    and "page_free_list s' = page_free_list s" and "pool_blocks (set ps) \<subseteq> set (blocks d cs')"
  shows "pool_ok s' d cs' ps"
proof -
  have "cell (mem s') (p + 4) = cell (mem s) (p + 4)" if "p \<in> set ps" for p
    by (rule keepsD [OF assms(2), of p 8]) (use that in \<open>simp_all add: pool_blocks_iff\<close>)
  then have "page_list (mem s') (page_free_list s) ps"
    by (rule page_list_cong) (use pool_okD(1) [OF assms(1)] in simp_all)
  then show ?thesis using assms(1,3,4) by (simp add: pool_ok_def)
qed

text \<open>No cell of the list belongs to a client's block.\<close>

lemma client_not_pool:
  assumes "pool_ok s d cs ps" and "(n, sz) \<in> clients d cs ps" and "n \<le> a" and "a + 4 \<le> n + sz"
  shows "a \<notin> pool_cells ps"
proof
  assume "a \<in> pool_cells ps"
  then obtain p where p: "p \<in> set ps" "p \<le> a" "a + 4 \<le> p + 8" by (rule pool_cellsE)
  have "(n, sz) \<noteq> (p, 8)" using assms(2) p(1) by (auto simp: clients_def pool_blocks_iff)
  then show False
    using blocks_disjoint [of n sz d cs p 8] pool_okD(3) [OF assms(1) p(1)] assms(2-4) p(2,3) by (auto simp: clients_def)
qed

lemma block_decomp:
  "(n, sz) \<in> set (blocks d cs) \<Longrightarrow> \<exists>xs ys. cs = xs @ (sz, False) # ys \<and> n = d + total xs + 8"
proof (induction d cs rule: blocks.induct)
  case (2 d z f cs)
  then consider "\<not> f" "n = d + 8" "sz = z" | "(n, sz) \<in> set (blocks (d + 8 + z) cs)" by (auto split: if_splits)
  then show ?case
  proof cases
    case 1
    then show ?thesis by (intro exI [of _ "[]"] exI [of _ cs]) simp
  next
    case 2
    then obtain xs ys where "cs = xs @ (sz, False) # ys" "n = d + 8 + z + total xs + 8" using "2.IH" by blast
    then show ?thesis by (intro exI [of _ "(z, f) # xs"] exI [of _ ys]) simp
  qed
qed simp

section \<open>A heap that is being extended\<close>

text \<open>
  The end of the heap has been moved to \<open>E\<close>, beyond the last chunk, which may be free.
\<close>

definition heap_mid :: "kstate \<Rightarrow> nat \<Rightarrow> chunk list \<Rightarrow> nat list \<Rightarrow> nat \<Rightarrow> bool" where
  "heap_mid s d cs ns E \<longleftrightarrow>
     heap_at s d cs ns \<and> coalesced cs \<and> heap_end s = word_of_nat E \<and> d + total cs + 8 < E \<and> E < 2 ^ 32 \<and>
     (cs \<noteq> [] \<and> \<not> snd (last cs) \<longrightarrow> cell (mem s) (d + total cs + 4) AND 1 = 0)"

lemma heap_midD:
  assumes "heap_mid s d cs ns E"
  shows "heap_at s d cs ns" "coalesced cs" "heap_end s = word_of_nat E" "d + total cs + 8 < E" "E < 2 ^ 32"
    "cs \<noteq> [] \<Longrightarrow> \<not> snd (last cs) \<Longrightarrow> cell (mem s) (d + total cs + 4) AND 1 = 0"
  using assms by (simp_all add: heap_mid_def)

text \<open>Nodes are shed from the list: their blocks become free, and no new cells become structure.\<close>

definition shed :: "nat \<Rightarrow> chunk list \<Rightarrow> nat list \<Rightarrow> chunk list \<Rightarrow> nat list \<Rightarrow> bool" where
  "shed d cs ps cs' ps' \<longleftrightarrow> set ps' \<subseteq> set ps \<and> total cs' = total cs \<and>
     set (blocks d cs') = set (blocks d cs) - pool_blocks (set ps - set ps') \<and>
     struct_cells d cs' \<union> pool_cells ps' \<subseteq> struct_cells d cs \<union> pool_cells ps"

lemma shed_refl [simp]: "shed d cs ps cs ps"
  by (simp add: shed_def)

lemma shed_trans:
  assumes "shed d cs ps cs1 ps1" and "shed d cs1 ps1 cs2 ps2"
  shows "shed d cs ps cs2 ps2"
proof -
  have "set ps - set ps2 = (set ps - set ps1) \<union> (set ps1 - set ps2)" using assms by (auto simp: shed_def)
  then have "pool_blocks (set ps - set ps2) = pool_blocks (set ps - set ps1) \<union> pool_blocks (set ps1 - set ps2)"
    by (simp add: pool_blocks_def image_Un)
  then show ?thesis using assms by (auto simp: shed_def)
qed

lemma shed_clients: "shed d cs ps cs' ps' \<Longrightarrow> clients d cs' ps' = clients d cs ps"
  by (auto simp: shed_def clients_def pool_blocks_def)

text \<open>What obtaining pages leaves alone, and what it may write, \<open>T\<close> being page table cells.\<close>

definition page_env :: "kstate \<Rightarrow> kstate \<Rightarrow> bool" where
  "page_env s s' \<longleftrightarrow> page_table_lookup s' = page_table_lookup s \<and> page_dir s' = page_dir s \<and>
     ac_start (kernel_ctxt s') = ac_start (kernel_ctxt s) \<and> kernel_heap_end_vma s' = kernel_heap_end_vma s"

lemma page_env_refl [simp]: "page_env s s"
  by (simp add: page_env_def)

lemma page_env_trans: "page_env s s1 \<Longrightarrow> page_env s1 s2 \<Longrightarrow> page_env s s2"
  by (simp add: page_env_def)

lemma same_env_page_env: "same_env s s' \<Longrightarrow> page_env s s'"
  by (simp add: same_env_def page_env_def)

definition page_step ::
  "nat set \<Rightarrow> nat \<Rightarrow> nat \<Rightarrow> kstate \<Rightarrow> chunk list \<Rightarrow> nat list \<Rightarrow> kstate \<Rightarrow> chunk list \<Rightarrow> nat list \<Rightarrow> nat list \<Rightarrow> bool"
where
  "page_step T d E s cs ps s' cs' ns' ps' \<longleftrightarrow>
     heap_mid s' d cs' ns' E \<and> pool_ok s' d cs' ps' \<and> shed d cs ps cs' ps' \<and> page_env s s' \<and>
     changes (struct_cells d cs \<union> pool_cells ps \<union> T) (mem s) (mem s') \<and>
     (\<forall>c\<in>pool_cells ps'. cell (mem s') c = cell (mem s) c)"

lemma page_stepD:
  assumes "page_step T d E s cs ps s' cs' ns' ps'"
  shows "heap_mid s' d cs' ns' E" "pool_ok s' d cs' ps'" "shed d cs ps cs' ps'" "page_env s s'"
    "changes (struct_cells d cs \<union> pool_cells ps \<union> T) (mem s) (mem s')"
    "c \<in> pool_cells ps' \<Longrightarrow> cell (mem s') c = cell (mem s) c"
  using assms by (simp_all add: page_step_def)

lemma page_step_refl: "heap_mid s d cs ns E \<Longrightarrow> pool_ok s d cs ps \<Longrightarrow> page_step T d E s cs ps s cs ns ps"
  by (simp add: page_step_def)

lemma page_step_trans:
  assumes "page_step T d E s cs ps s1 cs1 ns1 ps1" and "page_step T' d E s1 cs1 ps1 s2 cs2 ns2 ps2"
  shows "page_step (T \<union> T') d E s cs ps s2 cs2 ns2 ps2"
proof -
  note a = page_stepD [OF assms(1)] and b = page_stepD [OF assms(2)]
  have "struct_cells d cs1 \<union> pool_cells ps1 \<subseteq> struct_cells d cs \<union> pool_cells ps" using a(3) by (simp add: shed_def)
  then have "changes (struct_cells d cs \<union> pool_cells ps \<union> (T \<union> T')) (mem s) (mem s2)"
    by (intro changes_trans [OF a(5) b(5)]) auto
  moreover have "pool_cells ps2 \<subseteq> pool_cells ps1" using b(3) by (auto simp: shed_def pool_cells_def)
  then have "\<forall>c\<in>pool_cells ps2. cell (mem s2) c = cell (mem s) c" using a(6) b(6) by auto
  ultimately show ?thesis
    using b(1,2) shed_trans [OF a(3) b(3)] page_env_trans [OF a(4) b(4)] by (simp add: page_step_def)
qed

section \<open>The supply of frames\<close>

text \<open>
  The frames a page source has to give, in order: its own, then those of the free page list, then the
  ones after the kernel's heap.  \<open>takes k\<close> says that the first \<open>k\<close> of them are gone, and that a source
  without frames of its own leaves the flag of the other kind of source alone.
\<close>

definition frame_of :: "u32 list \<Rightarrow> kstate \<Rightarrow> nat list \<Rightarrow> nat \<Rightarrow> u32" where
  "frame_of own s ps i =
     (let fs = own @ map (cell (mem s)) ps in
      if i < length fs then fs ! i else kernel_heap_end_pma s + word_of_nat (i - length fs) * PAGE_SIZE)"

definition takes :: "nat \<Rightarrow> u32 list \<Rightarrow> kstate \<Rightarrow> nat list \<Rightarrow> u32 list \<Rightarrow> kstate \<Rightarrow> nat list \<Rightarrow> bool" where
  "takes k own s ps own' s' ps' \<longleftrightarrow> (\<forall>i. frame_of own' s' ps' i = frame_of own s ps (k + i)) \<and>
     length own' + length ps' = length own + length ps - k \<and> length own' = length own - k \<and>
     (own = [] \<longrightarrow> get_page_first_run s' = get_page_first_run s)"

lemma takesD:
  assumes "takes k own s ps own' s' ps'"
  shows "frame_of own' s' ps' i = frame_of own s ps (k + i)" "length own' + length ps' = length own + length ps - k"
    "own = [] \<Longrightarrow> get_page_first_run s' = get_page_first_run s" "length own' = length own - k"
  using assms by (simp_all add: takes_def)

lemma takes_0:
  assumes "kernel_heap_end_pma s' = kernel_heap_end_pma s" and "get_page_first_run s' = get_page_first_run s"
    and "\<And>p. p \<in> set ps \<Longrightarrow> cell (mem s') p = cell (mem s) p"
  shows "takes 0 own s ps own s' ps"
proof -
  have e: "map (cell (mem s')) ps = map (cell (mem s)) ps" using assms(3) by simp
  show ?thesis unfolding takes_def frame_of_def assms(1,2) e by (simp add: Let_def)
qed

lemma takes_trans:
  "takes j own s ps own1 s1 ps1 \<Longrightarrow> takes k own1 s1 ps1 own2 s2 ps2 \<Longrightarrow> takes (j + k) own s ps own2 s2 ps2"
  by (auto simp: takes_def add.assoc)

text \<open>Writing outside the list takes nothing.\<close>

lemma takes_then:
  assumes "takes k own s ps own' s1 ps'" and "kernel_heap_end_pma s2 = kernel_heap_end_pma s1"
    and "get_page_first_run s2 = get_page_first_run s1" and "\<And>p. p \<in> set ps' \<Longrightarrow> cell (mem s2) p = cell (mem s1) p"
  shows "takes k own s ps own' s2 ps'"
  using takes_trans [OF assms(1) takes_0 [OF assms(2-4)]] by simp

section \<open>\<open>page_new\<close>\<close>

lemma struct_give:
  "struct_cells d (xs @ (a, True) # ys) = struct_cells d (xs @ (a, False) # ys) \<union> {d + total xs + 8, d + total xs + 8 + 4}"
  by (auto simp: struct_cells_def)

lemma freed_blocks_inner:
  assumes "xs1 = fst (absorb_prev xs (fst (absorb_next a ys)))" and "a2 = snd (absorb_prev xs (fst (absorb_next a ys)))"
    and "ys1 = snd (absorb_next a ys)"
  shows "set (blocks d (xs1 @ (a2, True) # ys1)) = set (blocks d (xs @ (a, False) # ys)) - {(d + total xs + 8, a)}"
proof -
  have "blocks d (freed xs a ys) = blocks d (xs1 @ (a2, True) # ys1)"
    unfolding assms freed_def by (simp split: prod.splits)
  then show ?thesis using freed_blocks [of d xs a ys] by metis
qed

text \<open>With one level of nesting, a page is always found: the list's first, or the next frame.\<close>

text \<open>Freeing a live block while the end of the heap is moved: the block becomes free, in its place.\<close>

lemma free_mid_ok:
  assumes mid: "heap_mid s d cs ns E" and bl: "(p, sz) \<in> set (blocks d cs)"
  shows "\<exists>s' cs' ns'. free_with pf (word_of_nat p) s = Inr s' \<and> heap_mid s' d cs' ns' E \<and> same_env s s' \<and>
    total cs' = total cs \<and> set (blocks d cs') = set (blocks d cs) - {(p, sz)} \<and>
    struct_cells d cs' \<subseteq> struct_cells d cs \<union> {p, p + 4} \<and> frame d cs cs' (mem s) (mem s')"
proof -
  note m' = heap_midD [OF mid]
  obtain xs ys where cs: "cs = xs @ (sz, False) # ys" "p = d + total xs + 8" using block_decomp [OF bl] by blast
  have h: "heap_at s d (xs @ (sz, False) # ys) ns" and co: "coalesced (xs @ (sz, False) # ys)"
    and fl: "ys = [] \<longrightarrow> cell (mem s) (d + total (xs @ (sz, False) # ys) + 4) AND 1 = 0"
    using m'(1,2,6) cs(1) by auto
  define xs1 where "xs1 = fst (absorb_prev xs (fst (absorb_next sz ys)))"
  define a2 where "a2 = snd (absorb_prev xs (fst (absorb_next sz ys)))"
  define ys1 where "ys1 = snd (absorb_next sz ys)"
  let ?cs' = "xs1 @ (a2, True) # ys1"
  note mg = merge_ok [OF h co fl, folded xs1_def a2_def ys1_def, folded cs(1)]
  have tt: "total ?cs' = total cs" using mg(5) by simp
  have "d + total xs1 + a2 + 16 < E" using mg(5) m'(4) by simp
  then have "(word_of_nat (d + total xs1 + a2 + 16) :: u32) \<noteq> word_of_nat E"
    using m'(5) by (subst word_of_nat_eq_iff32) (simp_all del: of_nat_add)
  then have E: "word_of_nat (d + total xs1 + a2 + 16) \<noteq> heap_end s" using m'(3) by (simp del: of_nat_add)
  obtain s' ns' where f: "free_with pf (word_of_nat p) s = Inr s'" "heap_at s' d ?cs' ns'" "same_env s s'"
      "frame d cs ?cs' (mem s) (mem s')" "cell (mem s') (d + total cs + 4) = cell (mem s) (d + total cs + 4)"
    using free_inner_ok [OF h co fl E xs1_def a2_def ys1_def] unfolding cs by blast
  have "set (blocks d ?cs') = set (blocks d cs) - {(p, sz)}"
    using freed_blocks_inner [OF xs1_def a2_def ys1_def] cs by simp
  moreover have "struct_cells d ?cs' \<subseteq> struct_cells d cs \<union> {p, p + 4}"
  proof -
    have "k \<in> set (free_nodes d cs) \<Longrightarrow> k \<in> struct_cells d cs \<and> k + 4 \<in> struct_cells d cs" for k
      by (auto simp: struct_cells_def)
    moreover have "d + total xs1 + 8 = p \<or> d + total xs1 + 8 \<in> set (free_nodes d cs)" using mg(11) cs by auto
    ultimately have "{d + total xs1 + 8, d + total xs1 + 8 + 4} \<subseteq> struct_cells d cs \<union> {p, p + 4}" by blast
    then show ?thesis using mg(10) unfolding struct_give by blast
  qed
  moreover have "cell (mem s') (d + total cs + 4) AND 1 = 0" if "\<not> snd (last ?cs')"
  proof -
    have ne: "ys1 \<noteq> []" using that by (cases ys1) simp_all
    then have "ys \<noteq> []" by (cases ys) (simp_all add: ys1_def)
    then have "\<not> snd (last cs)" "cs \<noteq> []" using ne that cs(1) mg(8) by simp_all
    then show ?thesis using m'(6) f(5) by simp
  qed
  then have "heap_mid s' d ?cs' ns' E"
    using f(2,3) mg(6) [of True] m'(3-5) unfolding heap_mid_def tt by (simp add: same_env_def)
  ultimately show ?thesis using f(1,3,4) tt by blast
qed

lemma page_new_ok:
  assumes mid: "heap_mid s d cs ns E" and pool: "pool_ok s d cs ps"
  shows "\<exists>pma s' cs' ns' ps'. page_new (Suc depth) s = Inr (pma, s') \<and> page_step {} d E s cs ps s' cs' ns' ps' \<and>
    get_page_first_run s' = get_page_first_run s \<and> pma = frame_of [] s ps 0 \<and> takes 1 [] s ps [] s' ps'"
proof (cases ps)
  case Nil
  let ?s' = "snd (page_bump s)"
  have "page_new (Suc depth) s = Inr (kernel_heap_end_pma s, ?s')"
    using pool Nil by (simp add: page_bump_def)
  moreover have "heap_mid ?s' d cs ns E" "page_env s ?s'"
    using mid by (simp_all add: page_bump_def heap_mid_def heap_at_def page_env_def)
  then have "page_step {} d E s cs ps ?s' cs ns []"
    using Nil pool by (simp add: page_step_def page_bump_def)
  moreover have "takes 1 [] s ps [] ?s' []"
    using Nil by (simp add: takes_def frame_of_def page_bump_def algebra_simps)
  ultimately show ?thesis using Nil by (auto simp: page_bump_def frame_of_def)
next
  case (Cons p qs)
  note m' = heap_midD [OF mid] and po = pool_okD [OF pool, unfolded Cons]
  have pb: "(p, 8) \<in> set (blocks d cs)" using po(3) by simp
  have p32: "p < 2 ^ 32" "0 < p" using blocks_range [OF pb] heap_atD(3) [OF m'(1)] by simp_all
  have hd: "page_free_list s = word_of_nat p" and l: "page_list (mem s) (cell (mem s) (p + 4)) qs"
    and dist: "p \<notin> set qs" "distinct qs" using po(1,2) by simp_all
  have nz: "page_free_list s \<noteq> 0" using word_of_nat_nonzero [OF p32(2,1)] hd by simp
  let ?s1 = "s\<lparr>page_free_list := cell (mem s) (p + 4)\<rparr>"
  have mid1: "heap_mid ?s1 d cs ns E" using mid by (simp add: heap_mid_def heap_at_def)
  obtain s' cs' ns' where
    f: "free_with (page_free_with (alloc (page_new depth) KM_MIN_ALLOC_SIZE)) (word_of_nat p) ?s1 = Inr s'"
      "heap_mid s' d cs' ns' E" "same_env ?s1 s'" "total cs' = total cs" "set (blocks d cs') = set (blocks d cs) - {(p, 8)}"
      "struct_cells d cs' \<subseteq> struct_cells d cs \<union> {p, p + 4}" "frame d cs cs' (mem ?s1) (mem s')"
    using free_mid_ok [OF mid1 pb] by blast
  have run: "page_new (Suc depth) s = Inr (cell (mem s) p, s')"
    using nz f(1) unfolding page_new.simps Let_def hd mem_node by simp
  have qb: "pool_blocks (set qs) \<subseteq> set (blocks d cs)" "pool_blocks (set qs) \<subseteq> set (blocks d cs')"
    using pool Cons dist unfolding f(5) by (auto simp: pool_ok_def pool_blocks_def)
  have ch: "changes (struct_cells d cs \<union> struct_cells d cs' \<union> {}) (mem s) (mem s')"
    using f(7) by (simp add: frame_def changes_def)
  have kp: "keeps {} (pool_blocks (set qs)) (mem s) (mem s')"
    by (rule changes_keeps [OF ch heap_atD(4) [OF m'(1)] heap_atD(4) [OF heap_midD(1) [OF f(2)]] _ qb])
      (use heap_atD(3) [OF m'(1)] in simp)
  have env: "get_page_first_run s' = get_page_first_run s" "kernel_heap_end_pma s' = kernel_heap_end_pma s"
    "page_free_list s' = page_free_list ?s1" "page_env s s'"
    using f(3) by (simp_all add: same_env_def page_env_def)
  have "pool_ok ?s1 d cs qs" using l dist(2) qb(1) by (simp add: pool_ok_def)
  then have "pool_ok s' d cs' qs" by (rule pool_ok_keeps) (use kp qb(2) env(3) in simp_all)
  moreover have st: "struct_cells d cs' \<subseteq> struct_cells d cs \<union> pool_cells ps" using f(6) Cons by auto
  then have "shed d cs ps cs' qs" using f(4,5) dist Cons by (auto simp: shed_def pool_blocks_def)
  moreover have "changes (struct_cells d cs \<union> pool_cells ps \<union> {}) (mem s) (mem s')"
    by (rule changes_trans [OF ch changes_refl]) (use st in auto)
  moreover have kc: "\<forall>c\<in>pool_cells qs. cell (mem s') c = cell (mem s) c"
    using keepsD [OF kp, of _ 8] by (auto simp: pool_blocks_iff pool_cells_def)
  ultimately have "page_step {} d E s cs ps s' cs' ns' qs" using f(2) env(4) by (simp add: page_step_def)
  moreover have e: "map (cell (mem s')) qs = map (cell (mem s)) qs" using kc by (simp add: pool_cells_def)
  have "takes 1 [] s ps [] s' qs" "frame_of [] s ps 0 = cell (mem s) p"
    unfolding takes_def frame_of_def Let_def env append_Nil e Cons by simp_all
  ultimately show ?thesis
    using run env(1) by (intro exI [of _ "cell (mem s) p"] exI [of _ s'] exI [of _ cs'] exI [of _ ns'] exI [of _ qs]) simp
qed

end
