(* ===== verification/Heap_Grow.thy ===== *)
theory Heap_Grow
  imports Heap_Alloc Heap_Pool
begin

text \<open>
  Extending the heap, and the whole of \<open>alloc\<close>: it returns a chunk of the requested size for every
  page source that keeps the contract \<open>page_source\<close>.
\<close>

section \<open>Rounding the request\<close>

lemma round_up_le: "0 < m \<Longrightarrow> x \<le> (x + (m - 1)) div m * (m :: nat)"
proof -
  assume m: "0 < m"
  have "x + (m - 1) = (x + (m - 1)) div m * m + (x + (m - 1)) mod m" by (simp add: div_mult_mod_eq)
  moreover have "(x + (m - 1)) mod m < m" using m by simp
  ultimately show ?thesis by linarith
qed

definition rounded :: "nat \<Rightarrow> nat" where
  "rounded n = (if n = 0 then 8 else (n + 7) div 8 * 8)"

lemma rounded_dvd: "8 dvd rounded n" "8 \<le> rounded n" "n \<le> rounded n"
proof -
  show "8 dvd rounded n" by (simp add: rounded_def)
  have "n \<le> (n + 7) div 8 * 8" "n \<noteq> 0 \<Longrightarrow> 8 \<le> (n + 7) div 8 * 8" by presburger+
  then show "n \<le> rounded n" "8 \<le> rounded n" by (simp_all add: rounded_def)
qed

lemma align_word8:
  assumes "unat a + 8 \<le> 2 ^ 32"
  shows "align a 8 = word_of_nat ((unat a + 7) div 8 * 8)"
proof -
  have "unat (align a (2 ^ 3)) = (unat a + 2 ^ 3 - 1) div 2 ^ 3 * 2 ^ 3"
    by (rule unat_align) (use assms in simp_all)
  then have "unat (align a 8) = (unat a + 7) div 8 * 8" by simp
  then show ?thesis by (rule unat_eq_word)
qed

lemma align_word4096:
  assumes "a + 4096 \<le> 2 ^ 32"
  shows "align (word_of_nat a) 4096 = word_of_nat ((a + 4095) div 4096 * 4096)"
proof -
  have a: "unat (word_of_nat a :: u32) = a" by (rule unat_of_nat32) (use assms in simp)
  have "unat (align (word_of_nat a) (2 ^ 12)) = (unat (word_of_nat a :: u32) + 2 ^ 12 - 1) div 2 ^ 12 * 2 ^ 12"
    by (rule unat_align) (use assms a in simp_all)
  then have "unat (align (word_of_nat a) 4096) = (a + 4095) div 4096 * 4096" unfolding a by simp
  then show ?thesis by (rule unat_eq_word)
qed

lemma request_word:
  assumes "unat bytes + 8 \<le> 2 ^ 32"
  shows "(if bytes \<noteq> 0 then align bytes KM_MIN_ALLOC_SIZE else KM_MIN_ALLOC_SIZE) = word_of_nat (rounded (unat bytes))"
proof (cases "bytes = 0")
  case True
  then show ?thesis by (simp add: rounded_def KM_MIN_ALLOC_SIZE_def)
next
  case False
  then have "unat bytes \<noteq> 0" by (simp add: unat_eq_zero)
  then show ?thesis using align_word8 [OF assms] False by (simp add: rounded_def KM_MIN_ALLOC_SIZE_def)
qed

section \<open>Pages of a new chunk\<close>

definition page_at :: "nat \<Rightarrow> nat \<Rightarrow> nat" where
  "page_at e i = (e + 4095) div 4096 * 4096 + i * 4096"

definition pages_needed :: "nat \<Rightarrow> nat \<Rightarrow> nat" where
  "pages_needed e b = (e + b + 8 - page_at e 0 + 4095) div 4096"

lemma pages_needed_less: "i < pages_needed e b \<Longrightarrow> page_at e i < e + b + 8"
proof -
  assume "i < pages_needed e b"
  then have "Suc i \<le> (e + b + 8 - page_at e 0 + 4095) div 4096" by (simp add: pages_needed_def)
  then have "Suc i * 4096 \<le> e + b + 8 - page_at e 0 + 4095"
    by (simp add: less_eq_div_iff_mult_less_eq)
  then show ?thesis by (simp add: page_at_def)
qed

lemma pages_needed_end: "e + b + 8 \<le> page_at e (pages_needed e b)"
proof -
  let ?x = "e + b + 8 - page_at e 0"
  have "?x \<le> (?x + 4095) div 4096 * 4096" using round_up_le [of 4096 ?x] by simp
  then show ?thesis unfolding pages_needed_def page_at_def by simp
qed

text \<open>Every address of the new chunk that the heap's last page does not hold is in one of them.\<close>

lemma pages_cover:
  assumes "(e + 4095) div 4096 * 4096 \<le> a" and "a < e + b + 8"
  shows "\<exists>i<pages_needed e b. page_at e i \<le> a \<and> a < page_at e i + 4096"
proof -
  define k where "k = (a - page_at e 0) div 4096"
  have "page_at e 0 \<le> a" using assms(1) by (simp add: page_at_def)
  then have "k * 4096 + page_at e 0 \<le> a" "a < k * 4096 + page_at e 0 + 4096"
    unfolding k_def using div_mult_mod_eq [of "a - page_at e 0" 4096]
      mod_less_divisor [of 4096 "a - page_at e 0"] by linarith+
  then have k: "page_at e k \<le> a" "a < page_at e k + 4096" by (simp_all add: page_at_def)
  have "k < pages_needed e b"
  proof (rule ccontr)
    assume "\<not> k < pages_needed e b"
    then have "page_at e (pages_needed e b) \<le> page_at e k" by (simp add: page_at_def)
    then show False using pages_needed_end [of e b] k assms(2) by simp
  qed
  then show ?thesis using k by blast
qed

section \<open>The contract of a page source\<close>

definition entry_cell :: "kstate \<Rightarrow> nat \<Rightarrow> nat" where
  "entry_cell s v = unat (entry_addr s (word_of_nat v))"

lemma entry_cell_less [simp]: "entry_cell s v < 2 ^ 32" "entry_cell s v < 4294967296"
  by (simp_all add: entry_cell_def)

lemma entry_cell_cong: "page_table_lookup t = page_table_lookup s \<Longrightarrow> entry_cell t v = entry_cell s v"
  by (simp add: entry_cell_def entry_addr_def page_get_table_def Let_def)

lemma present_cell:
  assumes "page_table_lookup t = page_table_lookup s"
  shows "page_is_present t (word_of_nat v) \<longleftrightarrow> cell (mem t) (entry_cell s v) AND PAGE_PRESENT \<noteq> 0"
proof -
  have "entry_addr t (word_of_nat v) = word_of_nat (entry_cell s v)"
    using assms by (simp add: entry_cell_def entry_addr_def page_get_table_def Let_def)
  then show ?thesis unfolding page_is_present_def page_get_entry_def mem_node(1) [symmetric] by simp
qed

lemma page_env_lookup: "page_env s s' \<Longrightarrow> page_table_lookup s' = page_table_lookup s"
  by (simp add: page_env_def)

text \<open>The \<open>n\<close> pages from \<open>e\<close> up are mapped to frames of \<open>f\<close>, each to its own unless entries share a cell.\<close>

definition pages_mapped :: "(nat \<Rightarrow> u32) \<Rightarrow> kstate \<Rightarrow> nat \<Rightarrow> nat \<Rightarrow> bool" where
  "pages_mapped f s e n \<longleftrightarrow> (\<forall>i<n. \<exists>k<n. entry_cell s (page_at e k) = entry_cell s (page_at e i) \<and>
     cell (mem s) (entry_cell s (page_at e i)) = f k OR PAGE_WRITE OR PAGE_PRESENT)"

lemma present_entry: "(x OR PAGE_WRITE OR PAGE_PRESENT) AND PAGE_PRESENT \<noteq> 0"
proof -
  have "bit ((x OR PAGE_WRITE OR PAGE_PRESENT) AND PAGE_PRESENT) 0" by (simp add: PAGE_PRESENT_def bit_simps)
  then show ?thesis by auto
qed

text \<open>The condition that no page table lies in the heap's structure or in the free page list.\<close>

definition tables_apart :: "kstate \<Rightarrow> nat \<Rightarrow> chunk list \<Rightarrow> nat list \<Rightarrow> nat \<Rightarrow> bool" where
  "tables_apart s d cs ps b \<longleftrightarrow>
     (\<forall>i<pages_needed (d + total cs + 8) b.
        entry_cell s (page_at (d + total cs + 8) i) \<notin>
          struct_cells d cs \<union> pool_cells ps \<union> {d + total cs + 8 + b, d + total cs + 12 + b})"

text \<open>A page table cell can be written.\<close>

lemma table_write_step:
  assumes mid: "heap_mid s d cs ns E" and pool: "pool_ok s d cs ps" and a: "a < 2 ^ 32" "a \<notin> struct_cells d cs \<union> pool_cells ps"
  shows "page_step {a} d E s cs ps (wr (word_of_nat a) x s) cs ns ps"
proof -
  let ?s = "wr (word_of_nat a) x s"
  note m' = heap_midD [OF mid] and hd = heap_atD [OF heap_midD(1) [OF mid]]
  note out = struct_cellsD [of a d cs]
  have st: "a \<notin> struct_cells d cs" using a(2) by simp
  have keep: "cell (mem ?s) c = cell (mem s) c" if "c < 2 ^ 32" "a \<noteq> c" for c
    unfolding wr_fields by (rule cell_upd_other [OF a(1) that])
  have "seg (mem ?s) d cs"
  proof (rule seg_cong [OF _ hd(4)])
    fix c assume "c \<in> descs d cs"
    then show "cell (mem ?s) c = cell (mem s) c"
      using out(1) [OF st] descs_range [of c d cs] hd(3) by (intro keep) auto
  qed
  moreover have "cell (mem ?s) d = cell (mem s) d" using out(2) [OF st] hd(3) by (intro keep) auto
  moreover have last: "cell (mem ?s) (d + total cs + 4) = cell (mem s) (d + total cs + 4)"
    using out(3) [OF st] hd(3) by (intro keep) auto
  moreover have "dls (mem ?s) 0 (free_list s) ns 0"
  proof (rule dls_cong [OF _ hd(6)])
    fix n assume n: "n \<in> set ns"
    then have "a \<noteq> n \<and> a \<noteq> n + 4" using out(4) [OF st, of n] hd(8) by auto
    then show "cell (mem ?s) n = cell (mem s) n \<and> cell (mem ?s) (n + 4) = cell (mem s) (n + 4)"
      by (intro conjI keep) (use heap_node(3) [OF m'(1) n] in auto)
  qed
  ultimately have "heap_mid ?s d cs ns E"
    using m' hd unfolding heap_mid_def heap_at_def by simp
  moreover have pc: "cell (mem ?s) c = cell (mem s) c" if c: "c \<in> pool_cells ps" for c
  proof -
    obtain p where p: "p \<in> set ps" "p \<le> c" "c + 4 \<le> p + 8" using c by (rule pool_cellsE)
    have "c < 2 ^ 32" using blocks_range [OF pool_okD(3) [OF pool p(1)]] p(3) hd(3) by simp
    then show ?thesis using a(2) c by (intro keep) auto
  qed
  then have "page_list (mem ?s) (page_free_list s) ps"
    by (intro page_list_cong [OF _ pool_okD(1) [OF pool]]) (auto simp: pool_cells_def)
  then have "pool_ok ?s d cs ps" using pool by (simp add: pool_ok_def)
  moreover have "changes (struct_cells d cs \<union> pool_cells ps \<union> {a}) (mem s) (mem ?s)"
    by (rule changesI, rule keep) auto
  ultimately show ?thesis using pc by (simp add: page_step_def page_env_def)
qed

text \<open>
  A page source returns the next frame, in the middle of an extension of the heap; \<open>own\<close> are the frames
  it has besides those of \<open>page_new\<close>.  It may take nodes off the free page list and give their blocks
  back, and leaves everything else alone.
\<close>

locale page_source =
  fixes get_page :: page_fn
    and own :: "kstate \<Rightarrow> u32 list"
  assumes get_page_ok: "heap_mid s d cs ns E \<Longrightarrow> pool_ok s d cs ps \<Longrightarrow>
    \<exists>s' cs' ns' ps'. get_page s = Inr (frame_of (own s) s ps 0, s') \<and> page_step {} d E s cs ps s' cs' ns' ps' \<and>
      takes 1 (own s) s ps (own s') s' ps'"
    and own_cong: "get_page_first_run t = get_page_first_run s \<Longrightarrow> own t = own s"
begin

lemma map_page_ok:
  assumes mid: "heap_mid s d cs ns E" and pool: "pool_ok s d cs ps"
    and e: "entry_cell s v \<notin> struct_cells d cs \<union> pool_cells ps"
  shows "\<exists>s' cs' ns' ps'. alloc_map_page get_page (word_of_nat v) s = Inr s' \<and>
    page_step {entry_cell s v} d E s cs ps s' cs' ns' ps' \<and> takes 1 (own s) s ps (own s') s' ps' \<and>
    cell (mem s') (entry_cell s v) = frame_of (own s) s ps 0 OR PAGE_WRITE OR PAGE_PRESENT"
proof -
  let ?p = "frame_of (own s) s ps 0"
  obtain s1 cs' ns' ps' where g: "get_page s = Inr (?p, s1)" "page_step {} d E s cs ps s1 cs' ns' ps'"
      "takes 1 (own s) s ps (own s1) s1 ps'"
    using get_page_ok [OF mid pool] by blast
  note st = page_stepD [OF g(2)]
  have lk: "page_table_lookup s1 = page_table_lookup s" using st(4) by (simp add: page_env_def)
  let ?a = "entry_cell s v" and ?x = "?p OR PAGE_WRITE OR PAGE_PRESENT"
  have "?a \<notin> struct_cells d cs' \<union> pool_cells ps'" using st(3) e by (auto simp: shed_def)
  note w = table_write_step [OF st(1,2) entry_cell_less(1) this, of ?x]
  let ?s' = "wr (word_of_nat ?a) ?x s1"
  have "alloc_map_page get_page (word_of_nat v) s = Inr ?s'"
    using lk by (simp add: alloc_map_page_def g(1) page_set_entry_def entry_cell_def entry_addr_def page_get_table_def Let_def)
  moreover have "page_step {?a} d E s cs ps ?s' cs' ns' ps'" using page_step_trans [OF g(2) w] by simp
  moreover have "takes 1 (own s) s ps (own ?s') ?s' ps'"
  proof -
    have "own ?s' = own s1" by (rule own_cong) simp
    moreover have "takes 1 (own s) s ps (own s1) ?s' ps'"
      by (rule takes_then [OF g(3)]) (use page_stepD(6) [OF w] in \<open>auto simp: pool_cells_def\<close>)
    ultimately show ?thesis by simp
  qed
  moreover have "cell (mem ?s') ?a = ?x" by (simp add: cell_upd)
  ultimately show ?thesis by blast
qed

text \<open>When entries share a cell, the last of them written is there.\<close>

lemma map_pages_ok:
  assumes mid: "heap_mid s d cs ns E" and pool: "pool_ok s d cs ps" and lim: "e + b + 8 + 4096 \<le> 2 ^ 32"
    and ta: "\<And>i. i < pages_needed e b \<Longrightarrow> entry_cell s (page_at e i) \<notin> struct_cells d cs \<union> pool_cells ps"
  shows "\<exists>s' cs' ns' ps'. alloc_map_pages get_page (word_of_nat e) (word_of_nat b) s = Inr s' \<and>
    page_step ((\<lambda>i. entry_cell s (page_at e i)) ` {..<pages_needed e b}) d E s cs ps s' cs' ns' ps' \<and>
    takes (pages_needed e b) (own s) s ps (own s') s' ps' \<and>
    pages_mapped (frame_of (own s) s ps) s' e (pages_needed e b)"
proof -
  let ?n = "pages_needed e b" and ?A = "word_of_nat (page_at e 0) :: u32" and ?L = "word_of_nat (e + b + 8) :: u32"
  let ?E = "\<lambda>i. entry_cell s (page_at e i)" and ?f = "\<lambda>i. frame_of (own s) s ps i OR PAGE_WRITE OR PAGE_PRESENT"
  let ?I = "\<lambda>j t. (\<exists>cs' ns' ps'. page_step (?E ` {..<j}) d E s cs ps t cs' ns' ps' \<and> takes j (own s) s ps (own t) t ps') \<and>
    (\<forall>i<j. \<exists>k<j. ?E k = ?E i \<and> cell (mem t) (?E i) = ?f k)"
  have at: "?A + word_of_nat j * PAGE_SIZE = word_of_nat (page_at e j)" for j
    by (simp add: page_at_def PAGE_SIZE_def)
  have "\<exists>s'. for_loop PAGE_SIZE (alloc_map_page get_page) ?A ?L s = Some (Inr s') \<and> ?I ?n s'"
  proof (rule for_loop_rule [where I = ?I])
    show "?I 0 s" using page_step_refl [OF mid pool] takes_0 [of s s ps "own s"] by fastforce
  next
    fix j t assume j: "j < ?n" and t: "?I j t"
    then obtain cs1 ns1 ps1 where st: "page_step (?E ` {..<j}) d E s cs ps t cs1 ns1 ps1"
        and tk: "takes j (own s) s ps (own t) t ps1" by blast
    have f: "frame_of (own t) t ps1 0 OR PAGE_WRITE OR PAGE_PRESENT = ?f j" using takesD(1) [OF tk, of 0] by simp
    note d1 = page_stepD [OF st]
    have lk: "page_table_lookup t = page_table_lookup s" using d1(4) by (simp add: page_env_def)
    have ec: "entry_cell t v = entry_cell s v" for v by (rule entry_cell_cong [OF lk])
    have out: "?E i \<notin> struct_cells d cs1 \<union> pool_cells ps1" if "i < ?n" for i
      using ta [OF that] d1(3) by (auto simp: shed_def)
    obtain t' cs2 ns2 ps2 where t': "alloc_map_page get_page (word_of_nat (page_at e j)) t = Inr t'"
        "page_step {?E j} d E t cs1 ps1 t' cs2 ns2 ps2" "takes 1 (own t) t ps1 (own t') t' ps2"
        "cell (mem t') (?E j) = ?f j"
      using map_page_ok [OF d1(1,2), of "page_at e j"] out [OF j] unfolding ec f by blast
    note d2 = page_stepD [OF t'(2)]
    have "?E ` {..<j} \<union> {?E j} = ?E ` {..<Suc j}" by (simp add: lessThan_Suc)
    then have "page_step (?E ` {..<Suc j}) d E s cs ps t' cs2 ns2 ps2" using page_step_trans [OF st t'(2)] by simp
    moreover have "takes (Suc j) (own s) s ps (own t') t' ps2" using takes_trans [OF tk t'(3)] by simp
    moreover have "\<exists>k<Suc j. ?E k = ?E i \<and> cell (mem t') (?E i) = ?f k" if i: "i < Suc j" for i
    proof (cases "?E i = ?E j")
      case True
      then show ?thesis using t'(4) by (intro exI [of _ j]) simp
    next
      case False
      then have "?E i \<notin> struct_cells d cs1 \<union> pool_cells ps1 \<union> {?E j}" using out [of i] i j by auto
      then have "cell (mem t') (?E i) = cell (mem t) (?E i)" by (rule changesD [OF d2(5) entry_cell_less(1)])
      moreover have "i < j" using False i by (cases "i = j") simp_all
      then obtain k where "k < j" "?E k = ?E i" "cell (mem t) (?E i) = ?f k" using t by blast
      ultimately show ?thesis by (intro exI [of _ k]) simp
    qed
    ultimately have "?I (Suc j) t'" by blast
    then show "\<exists>s'. alloc_map_page get_page (?A + word_of_nat j * PAGE_SIZE) t = Inr s' \<and> ?I (Suc j) s'"
      unfolding at using t'(1) by blast
  next
    fix j assume "j < ?n"
    then have "page_at e j < e + b + 8" by (rule pages_needed_less)
    then show "?A + word_of_nat j * PAGE_SIZE < ?L"
      unfolding at using lim by (subst word_of_nat_less_iff32) simp_all
  next
    have hi: "page_at e ?n < 2 ^ 32"
    proof (cases ?n)
      case 0
      then show ?thesis using lim by (simp add: page_at_def)
    next
      case (Suc k)
      then have "page_at e k < e + b + 8" by (intro pages_needed_less) simp
      then show ?thesis using Suc lim by (simp add: page_at_def)
    qed
    show "\<not> ?A + word_of_nat ?n * PAGE_SIZE < ?L"
      unfolding at using lim hi pages_needed_end [of e b] by (subst word_of_nat_less_iff32) simp_all
  qed
  moreover have "align (word_of_nat e) PAGE_SIZE = ?A"
    using align_word4096 [of e] lim by (simp add: PAGE_SIZE_def page_at_def)
  moreover have "word_of_nat e + word_of_nat b + DESC_SIZE = ?L" by (simp add: DESC_SIZE_def)
  moreover have "pages_mapped (frame_of (own s) s ps) t e ?n"
    if "page_step T d E s cs ps t cs' ns' ps'" "\<forall>i<?n. \<exists>k<?n. ?E k = ?E i \<and> cell (mem t) (?E i) = ?f k" for T t cs' ns' ps'
    unfolding pages_mapped_def entry_cell_cong [of t s, OF page_env_lookup [OF page_stepD(4) [OF that(1)]]]
    by (rule that(2))
  ultimately show ?thesis unfolding alloc_map_pages_def by (elim exE conjE) (simp only: returns_Some, blast)
qed

end

end
