(* ===== verification/Heap_Correct.thy ===== *)
theory Heap_Correct
  imports Heap_Grow
begin

text \<open>
  The allocator meets its specification: what a call may return, that the heap stays well formed,
  and that live blocks are never handed out again or overlapped.
\<close>

section \<open>The specification\<close>

text \<open>
  \<open>grants d cs ps b n cs' ps'\<close>: a request of \<open>b\<close> bytes on heap \<open>cs\<close> with the free page list \<open>ps\<close> may
  return node \<open>n\<close>, leaving \<open>cs'\<close> and \<open>ps'\<close>.  A chunk of the exact size or one large enough to split is
  used; the heap only grows when there is neither, and then nodes of the free page list may be shed.
\<close>

inductive grants :: "nat \<Rightarrow> chunk list \<Rightarrow> nat list \<Rightarrow> nat \<Rightarrow> nat \<Rightarrow> chunk list \<Rightarrow> nat list \<Rightarrow> bool" for d where
  grant_exact: "grants d (xs @ (b, True) # ys) ps b (d + total xs + 8) (xs @ (b, False) # ys) ps"
| grant_split: "b + 8 < sz \<Longrightarrow>
    grants d (xs @ (sz, True) # ys) ps b (d + total xs + 8) (xs @ (b, False) # (sz - b - 8, True) # ys) ps"
| grant_extend: "(\<And>sz. (sz, True) \<in> set cs \<Longrightarrow> sz \<noteq> b \<and> sz \<le> b + 8) \<Longrightarrow> shed d cs ps cs1 ps1 \<Longrightarrow>
    grants d cs ps b (d + total cs + 8) (cs1 @ [(b, False)]) ps1"

text \<open>A granted block is new, and the other live blocks are those before but for the nodes shed.\<close>

lemma grants_blocks:
  assumes "grants d cs ps b n cs' ps'"
  shows "set (blocks d cs') = insert (n, b) (set (blocks d cs) - pool_blocks (set ps - set ps'))"
    and "(n, c) \<notin> set (blocks d cs)" and "set ps' \<subseteq> set ps"
proof -
  have "set (blocks d cs') = insert (n, b) (set (blocks d cs) - pool_blocks (set ps - set ps')) \<and>
    (\<forall>c. (n, c) \<notin> set (blocks d cs)) \<and> set ps' \<subseteq> set ps"
    using assms
  proof cases
    case (grant_exact xs ys)
    show ?thesis
      using blocks_range [of n _ d xs] blocks_range [of n _ "d + total xs + 8 + b" ys] grant_exact by fastforce
  next
    case (grant_split sz xs ys)
    have "d + total xs + 8 + b + 8 + (sz - b - 8) = d + total xs + 8 + sz" using grant_split by simp
    then have e: "d + total xs + 8 + b + (8 + (sz - b - 8)) = d + total xs + 8 + sz" by simp
    have "(n, c) \<notin> set (blocks d xs)" "(n, c) \<notin> set (blocks (d + total xs + 8 + sz) ys)" for c
      using blocks_range [of n c d xs] blocks_range [of n c "d + total xs + 8 + sz" ys] grant_split(2) by auto
    moreover have "set (blocks d cs') = insert (n, b) (set (blocks d xs) \<union> set (blocks (d + total xs + 8 + sz) ys))"
      unfolding grant_split(2,3) using e by (simp add: add.assoc)
    moreover have "set (blocks d cs) = set (blocks d xs) \<union> set (blocks (d + total xs + 8 + sz) ys)"
      unfolding grant_split(1) by simp
    ultimately show ?thesis using grant_split(4) by simp
  next
    case (grant_extend cs1)
    then show ?thesis using blocks_range [of n _ d cs] by (fastforce simp: shed_def)
  qed
  then show "set (blocks d cs') = insert (n, b) (set (blocks d cs) - pool_blocks (set ps - set ps'))"
    "(n, c) \<notin> set (blocks d cs)" "set ps' \<subseteq> set ps" by blast+
qed

text \<open>For the clients of the heap exactly the granted block is added.\<close>

lemma grants_clients:
  assumes "grants d cs ps b n cs' ps'" and "pool_blocks (set ps) \<subseteq> set (blocks d cs)"
  shows "clients d cs' ps' = insert (n, b) (clients d cs ps)"
proof -
  have "n \<notin> set ps" using grants_blocks(2) [OF assms(1)] assms(2) by (auto simp: pool_blocks_def)
  then show ?thesis
    using grants_blocks(1,3) [OF assms(1)] by (auto simp: clients_def pool_blocks_def)
qed

section \<open>Taking and splitting keep the heap well formed\<close>

lemma take_heap_ok:
  assumes k: "heap_ok s d (xs @ (b, True) # ys) (as @ (d + total xs + 8) # bs)"
  shows "heap_ok (alloc_take (word_of_nat (d + total xs + 8)) s) d (xs @ (b, False) # ys) (as @ bs)"
proof -
  note k' = heap_okD [OF k] and t = take_ok [OF heap_okD(1) [OF k]]
  have ys: "ys \<noteq> []" using k'(5) by auto
  have tot: "total (xs @ (b, False) # ys) = total (xs @ (b, True) # ys)" by simp
  have "cell (mem (alloc_take (word_of_nat (d + total xs + 8)) s)) (d + total (xs @ (b, True) # ys) + 4)
      = cell (mem s) (d + total (xs @ (b, True) # ys) + 4)"
    by (rule t(3)) (use heap_atD(3) [OF k'(1)] in simp_all)
  then show ?thesis
    unfolding heap_ok_def tot using t(1,2) k' ys
    by (auto simp: same_env_def coalesced_append coalesced_Cons)
qed

lemma split_heap_ok:
  assumes k: "heap_ok s d (xs @ (sz, True) # ys) (as @ (d + total xs + 8) # bs)"
    and b: "8 dvd b" "8 \<le> b" "b + 8 < sz"
  shows "heap_ok (alloc_split (word_of_nat (d + total xs + 8)) (word_of_nat b) s) d
    (xs @ (b, False) # (sz - b - 8, True) # ys) (as @ (d + total xs + 16 + b) # bs)"
proof -
  note k' = heap_okD [OF k] and t = split_ok [OF heap_okD(1) [OF k] b]
  have ys: "ys \<noteq> []" using k'(5) by auto
  have tot: "total (xs @ (b, False) # (sz - b - 8, True) # ys) = total (xs @ (sz, True) # ys)" using b by simp
  have "cell (mem (alloc_split (word_of_nat (d + total xs + 8)) (word_of_nat b) s)) (d + total (xs @ (sz, True) # ys) + 4)
      = cell (mem s) (d + total (xs @ (sz, True) # ys) + 4)"
    by (rule t(3)) (use heap_atD(3) [OF k'(1)] in simp_all)
  then show ?thesis
    unfolding heap_ok_def tot using t(1,2) k' ys
    by (auto simp: same_env_def coalesced_append coalesced_Cons)
qed

section \<open>Writing the descriptors of a new last chunk\<close>

lemma init_chunk_eq:
  assumes "8 dvd b" and "D + b + 16 \<le> 2 ^ 32"
  shows "alloc_init_chunk (word_of_nat (D + 8)) (word_of_nat b) s =
    wr (word_of_nat (D + 12 + b)) 0 (wr (word_of_nat (D + 8 + b)) (word_of_nat b) (wr (word_of_nat (D + 4)) (word_of_nat b) s))"
proof -
  let ?s1 = "wr (word_of_nat (D + 4)) (word_of_nat b) s"
  have b: "b + 1 < 2 ^ 32" using assms(2) by simp
  have c1: "cell (mem ?s1) (D + 4) = word_of_nat (b + of_bool False)"
    unfolding wr_fields using assms(2) by (subst cell_upd) auto
  have "word_of_nat (D + 8 + b) + 4 = (word_of_nat (D + 12 + b) :: u32)" by simp
  then show ?thesis
    unfolding alloc_init_chunk_def Let_def desc_of_node(1) node_plus [of D] size_of_node(2) [OF c1 assms(1) b]
    by (simp add: ac_simps)
qed

lemma new_chunk_ok:
  assumes h: "heap_at s d cs ns" and co: "coalesced cs" and b: "8 dvd b" "8 \<le> b"
    and lim: "d + total cs + b + 24 \<le> 2 ^ 32" and he: "heap_end s = word_of_nat (d + total cs + 16 + b)"
  defines "s' \<equiv> alloc_init_chunk (word_of_nat (d + total cs + 8)) (word_of_nat b) s"
  shows "heap_ok s' d (cs @ [(b, False)]) ns" and "same_env s s'"
    and "\<And>a. a < 2 ^ 32 \<Longrightarrow> a \<noteq> d + total cs + 4 \<Longrightarrow> a \<noteq> d + total cs + 8 + b \<Longrightarrow> a \<noteq> d + total cs + 12 + b \<Longrightarrow>
      cell (mem s') a = cell (mem s) a"
proof -
  let ?D = "d + total cs"
  note hd = heap_atD [OF h]
  have eq: "s' = wr (word_of_nat (?D + 12 + b)) 0 (wr (word_of_nat (?D + 8 + b)) (word_of_nat b)
      (wr (word_of_nat (?D + 4)) (word_of_nat b) s))"
    unfolding s'_def by (rule init_chunk_eq [OF b(1)]) (use lim in simp)
  have c: "cell (mem s') a = (if a = ?D + 12 + b then 0 else if a = ?D + 8 + b \<or> a = ?D + 4 then word_of_nat b
      else cell (mem s) a)" if "a < 2 ^ 32" for a
    unfolding eq wr_fields using that lim by (auto simp: cell_upd simp del: of_nat_add)
  have low: "cell (mem s') a = cell (mem s) a" if "a \<le> ?D" for a
    using that c [of a] lim by simp
  show env: "same_env s s'" unfolding eq by simp
  show "cell (mem s') a = cell (mem s) a"
    if "a < 2 ^ 32" "a \<noteq> ?D + 4" "a \<noteq> ?D + 8 + b" "a \<noteq> ?D + 12 + b" for a
    using c [OF that(1)] that by simp
  have "seg (mem s') d cs"
    by (rule seg_cong [OF _ hd(4)]) (use low descs_range [of _ d cs] in blast)
  moreover have "cell (mem s') (?D + 4) = word_of_nat b" "cell (mem s') (?D + 8 + b) = word_of_nat b"
    "cell (mem s') (?D + 12 + b) = 0"
    using c [of "?D + 4"] c [of "?D + 8 + b"] c [of "?D + 12 + b"] lim b by simp_all
  moreover have "dls (mem s') 0 (free_list s') ns 0"
  proof -
    have "cell (mem s') k = cell (mem s) k \<and> cell (mem s') (k + 4) = cell (mem s) (k + 4)" if "k \<in> set ns" for k
      using heap_node [OF h that] low [of k] low [of "k + 4"] by simp
    then have "dls (mem s') 0 (free_list s) ns 0" by (rule dls_cong [OF _ hd(6)])
    then show ?thesis unfolding eq by simp
  qed
  moreover have "coalesced (cs @ [(b, False)])"
    unfolding coalesced_append using co by (simp add: coalesced_def)
  ultimately show "heap_ok s' d (cs @ [(b, False)]) ns"
    using hd b lim he low [of d] env
    unfolding heap_ok_def heap_at_def same_env_def
    by (simp add: ac_simps)
qed

section \<open>\<open>alloc\<close> for any page source\<close>

text \<open>The page table cells that a growth of the heap by \<open>b\<close> bytes writes.\<close>

definition table_cells :: "kstate \<Rightarrow> nat \<Rightarrow> chunk list \<Rightarrow> nat \<Rightarrow> nat set" where
  "table_cells s d cs b =
     (\<lambda>i. entry_cell s (page_at (d + total cs + 8) i)) ` {..<pages_needed (d + total cs + 8) b}"

definition pages_present :: "kstate \<Rightarrow> nat \<Rightarrow> nat \<Rightarrow> bool" where
  "pages_present s e b \<longleftrightarrow> (\<forall>i<pages_needed e b. page_is_present s (word_of_nat (page_at e i)))"

text \<open>The pages of a new chunk of \<open>b\<close> bytes at \<open>e\<close> are mapped, to the first frames a source has to give.\<close>

definition gets_pages ::
  "u32 list \<Rightarrow> kstate \<Rightarrow> nat list \<Rightarrow> u32 list \<Rightarrow> kstate \<Rightarrow> nat list \<Rightarrow> nat \<Rightarrow> nat \<Rightarrow> bool"
where
  "gets_pages own s ps own' s' ps' e b \<longleftrightarrow> takes (pages_needed e b) own s ps own' s' ps' \<and>
     pages_mapped (frame_of own s ps) s' e (pages_needed e b)"

lemma gets_pages_present:
  assumes "gets_pages own s ps own' s' ps' e b"
  shows "pages_present s' e b"
proof -
  have "page_is_present s' (word_of_nat (page_at e i))" if "i < pages_needed e b" for i
    using assms that present_entry unfolding gets_pages_def pages_mapped_def present_cell [OF refl] by metis
  then show ?thesis by (simp add: pages_present_def)
qed

text \<open>
  What an allocation leaves alone: outside the heap only page table cells of \<open>T\<close> are written, and every
  block that is live before and after keeps its contents.
\<close>

definition heap_area :: "nat \<Rightarrow> chunk list \<Rightarrow> nat set" where
  "heap_area d cs = {d..<d + total cs + 8}"

definition alloc_frame :: "nat set \<Rightarrow> nat \<Rightarrow> kstate \<Rightarrow> chunk list \<Rightarrow> kstate \<Rightarrow> chunk list \<Rightarrow> bool" where
  "alloc_frame T d s cs s' cs' \<longleftrightarrow> page_env s s' \<and> changes (heap_area d cs' \<union> T) (mem s) (mem s') \<and>
     keeps T (set (blocks d cs) \<inter> set (blocks d cs')) (mem s) (mem s')"

lemma alloc_frameD:
  assumes "alloc_frame T d s cs s' cs'"
  shows "page_env s s'" "changes (heap_area d cs' \<union> T) (mem s) (mem s')"
    "keeps T (set (blocks d cs) \<inter> set (blocks d cs')) (mem s) (mem s')"
  using assms by (simp_all add: alloc_frame_def)

lemma struct_area: "struct_cells d cs \<subseteq> heap_area d cs" if "seg m d cs"
  using node_range [OF that] descs_range [of _ d cs] by (fastforce simp: struct_cells_def heap_area_def)

lemma pool_area:
  assumes "pool_ok s d cs ps"
  shows "pool_cells ps \<subseteq> heap_area d cs"
proof
  fix a assume "a \<in> pool_cells ps"
  then obtain p where "p \<in> set ps" "p \<le> a" "a + 4 \<le> p + 8" by (rule pool_cellsE)
  then show "a \<in> heap_area d cs" using blocks_range [OF pool_okD(3) [OF assms]] by (fastforce simp: heap_area_def)
qed

lemma pages_mapped_cong:
  assumes "pages_mapped f s e n" and lk: "page_table_lookup s' = page_table_lookup s"
    and "\<And>i. i < n \<Longrightarrow> cell (mem s') (entry_cell s (page_at e i)) = cell (mem s) (entry_cell s (page_at e i))"
  shows "pages_mapped f s' e n"
  using assms(1,3) unfolding pages_mapped_def entry_cell_cong [OF lk] by auto

text \<open>A cell of a node that is still a live block belongs to the list that is left.\<close>

lemma pool_cell_stays:
  assumes pool: "pool_ok s d cs ps" and sh: "shed d cs ps cs' ps'" and a: "a \<in> pool_cells ps"
    and bl: "(n, sz) \<in> set (blocks d cs) \<inter> set (blocks d cs')" "n \<le> a" "a + 4 \<le> n + sz"
  shows "a \<in> pool_cells ps'"
proof -
  obtain p where p: "p \<in> set ps" "a = p \<or> a = p + 4" using a by (auto simp: pool_cells_def)
  have "(n, sz) = (p, 8)" using blocks_disjoint [OF _ pool_okD(3) [OF pool p(1)], of n sz] bl p(2) by auto
  then have "p \<in> set ps'" using bl(1) sh p(1) by (auto simp: shed_def pool_blocks_def)
  then show ?thesis using p(2) by (auto simp: pool_cells_def)
qed

lemma page_step_keeps:
  assumes st: "page_step T d E s cs ps s' cs' ns' ps'" and seg: "seg (mem s) d cs" and pool: "pool_ok s d cs ps"
    and lim: "d + total cs \<le> 2 ^ 32"
  shows "keeps T (set (blocks d cs) \<inter> set (blocks d cs')) (mem s) (mem s')"
proof (rule keepsI)
  fix n sz a assume a: "(n, sz) \<in> set (blocks d cs) \<inter> set (blocks d cs')" "n \<le> a" "a + 4 \<le> n + sz" "a \<notin> T"
  have bl: "(n, sz) \<in> set (blocks d cs)" using a(1) by simp
  show "cell (mem s') a = cell (mem s) a"
  proof (cases "a \<in> pool_cells ps")
    case True
    show ?thesis by (rule page_stepD(6) [OF st pool_cell_stays [OF pool page_stepD(3) [OF st] True a(1-3)]])
  next
    case False
    have "a < 2 ^ 32" using blocks_range [OF bl] a(3) lim by simp
    then show ?thesis
      using changesD [OF page_stepD(5) [OF st]] block_not_struct [OF seg bl a(2,3)] False a(4) by simp
  qed
qed

text \<open>Writing from the end of the segment on leaves the free page list as it is.\<close>

lemma pool_ok_above:
  assumes pool: "pool_ok s d cs ps" and "page_free_list s' = page_free_list s"
    and above: "\<And>a. a < d + total cs \<Longrightarrow> cell (mem s') a = cell (mem s) a"
  shows "pool_ok s' d (cs @ [c]) ps"
proof (rule pool_ok_keeps [OF pool _ assms(2)])
  show "keeps {} (pool_blocks (set ps)) (mem s) (mem s')"
  proof (rule keepsI)
    fix n sz a assume a: "(n, sz) \<in> pool_blocks (set ps)" "n \<le> a" "a + 4 \<le> n + sz"
    have "(n, sz) \<in> set (blocks d cs)" using pool a(1) by (auto simp: pool_ok_def)
    then show "cell (mem s') a = cell (mem s) a" using blocks_range a(3) by (intro above) fastforce
  qed
qed (use pool in \<open>auto simp: pool_ok_def\<close>)

text \<open>The pages are mapped, then the new chunk is written at the end of the segment.\<close>

lemma pages_then_chunk:
  assumes st: "page_step T d (d + total cs + 16 + b) s cs ps s1 cs1 ns1 ps1" and h: "heap_at s d cs ns" and pool: "pool_ok s d cs ps"
    and b: "8 dvd b" "8 \<le> b" and lim: "d + total cs + b + 24 \<le> 2 ^ 32"
  defines "s' \<equiv> alloc_init_chunk (word_of_nat (d + total cs + 8)) (word_of_nat b) s1"
  shows "heap_ok s' d (cs1 @ [(b, False)]) ns1" and "same_env s1 s'" and "pool_ok s' d (cs1 @ [(b, False)]) ps1"
    and "\<And>a. a < 2 ^ 32 \<Longrightarrow> a \<notin> {d + total cs + 4, d + total cs + 8 + b, d + total cs + 12 + b} \<Longrightarrow> cell (mem s') a = cell (mem s1) a"
    and "changes (heap_area d (cs1 @ [(b, False)]) \<union> T) (mem s) (mem s')"
    and "keeps T (set (blocks d cs) \<inter> set (blocks d (cs1 @ [(b, False)]))) (mem s) (mem s')"
proof -
  let ?D = "d + total cs"
  note m1 = heap_midD [OF page_stepD(1) [OF st]] and seg = heap_atD(4) [OF h]
  have tot: "total cs1 = total cs" using page_stepD(3) [OF st] by (simp add: shed_def)
  have "d + total cs1 + b + 24 \<le> 2 ^ 32" "heap_end s1 = word_of_nat (d + total cs1 + 16 + b)" using lim tot m1(3) by simp_all
  note new = new_chunk_ok [OF m1(1,2) b this, unfolded tot, folded s'_def]
  show "heap_ok s' d (cs1 @ [(b, False)]) ns1" "same_env s1 s'" by (rule new)+
  show kept: "\<And>a. a < 2 ^ 32 \<Longrightarrow> a \<notin> {?D + 4, ?D + 8 + b, ?D + 12 + b} \<Longrightarrow> cell (mem s') a = cell (mem s1) a"
    using new(3) by simp
  have below: "cell (mem s') a = cell (mem s1) a" if "a < ?D" for a using that lim by (intro kept) simp_all
  show "pool_ok s' d (cs1 @ [(b, False)]) ps1"
    using new(2) below tot by (intro pool_ok_above [OF page_stepD(2) [OF st]]) (simp_all add: same_env_def)
  show "changes (heap_area d (cs1 @ [(b, False)]) \<union> T) (mem s) (mem s')"
  proof (rule changes_trans [OF page_stepD(5) [OF st]])
    show "changes {?D + 4, ?D + 8 + b, ?D + 12 + b} (mem s1) (mem s')" using kept by (simp add: changes_def)
    show "struct_cells d cs \<union> pool_cells ps \<union> T \<subseteq> heap_area d (cs1 @ [(b, False)]) \<union> T"
      using struct_area [OF seg] pool_area [OF pool] tot by (fastforce simp: heap_area_def)
  qed (simp add: heap_area_def tot)
  show "keeps T (set (blocks d cs) \<inter> set (blocks d (cs1 @ [(b, False)]))) (mem s) (mem s')"
  proof (rule keepsI)
    fix n sz a assume a: "(n, sz) \<in> set (blocks d cs) \<inter> set (blocks d (cs1 @ [(b, False)]))" "n \<le> a" "a + 4 \<le> n + sz" "a \<notin> T"
    have r: "n + sz \<le> ?D" using blocks_range [of n sz d cs] a(1) by simp
    then have "n \<noteq> ?D + 8" using a(2,3) by simp
    then have "(n, sz) \<in> set (blocks d cs) \<inter> set (blocks d cs1)" using a(1) tot by auto
    from keepsD [OF page_step_keeps [OF st seg pool] this a(2-4)] show "cell (mem s') a = cell (mem s) a"
      using below [of a] r a(3) lim by simp
  qed
qed

context page_source begin

text \<open>From a heap whose end is aligned as asked for, aligned or not the chunk before it is free.\<close>

lemma grow_ok:
  assumes al: "alloc_align_end al s0 = Inr s"
    and h: "heap_at s d cs ns" and he: "heap_end s = word_of_nat (d + total cs + 8)" and co: "coalesced cs"
    and fl: "cs \<noteq> [] \<and> \<not> snd (last cs) \<longrightarrow> cell (mem s) (d + total cs + 4) AND 1 = 0"
    and pool: "pool_ok s d cs ps" and b: "8 dvd b" "8 \<le> b"
    and lim: "d + total cs + b + 16 + 4096 \<le> 2 ^ 32" and ta: "tables_apart s d cs ps b"
  shows "\<exists>s' cs1 ns' ps'. alloc_extend get_page al (word_of_nat b) s0 = Inr (word_of_nat (d + total cs + 8), s') \<and>
    heap_ok s' d (cs1 @ [(b, False)]) ns' \<and> pool_ok s' d (cs1 @ [(b, False)]) ps' \<and> shed d cs ps cs1 ps' \<and>
    gets_pages (own s) s ps (own s') s' ps' (d + total cs + 8) b \<and>
    alloc_frame (table_cells s d cs b) d s cs s' (cs1 @ [(b, False)])"
proof -
  let ?e = "d + total cs + 8" and ?D = "d + total cs" and ?E = "d + total cs + 16 + b" and ?T = "table_cells s d cs b"
  let ?n = "pages_needed ?e b" and ?s2 = "set_heap_end (heap_end s + (word_of_nat b + DESC_SIZE)) s"
  have mid: "heap_mid ?s2 d cs ns ?E"
    using h co fl lim he unfolding heap_mid_def heap_at_def by (simp add: DESC_SIZE_def)
  have h2: "heap_at ?s2 d cs ns" and pool2: "pool_ok ?s2 d cs ps" using h pool by (simp_all add: heap_at_def pool_ok_def)
  have ec: "entry_cell ?s2 v = entry_cell s v" for v by (rule entry_cell_cong) simp
  have out: "entry_cell s (page_at ?e i) \<notin> struct_cells d cs \<union> pool_cells ps \<union> {?D + 8 + b, ?D + 12 + b}"
    if "i < ?n" for i using ta that unfolding tables_apart_def by blast
  have lims: "?e + b + 8 + 4096 \<le> 2 ^ 32" "?D + b + 24 \<le> 2 ^ 32" using lim by simp_all
  obtain s3 cs1 ns1 ps1 where s3: "alloc_map_pages get_page (word_of_nat ?e) (word_of_nat b) ?s2 = Inr s3"
      "page_step ?T d ?E ?s2 cs ps s3 cs1 ns1 ps1" "takes ?n (own ?s2) ?s2 ps (own s3) s3 ps1"
      "pages_mapped (frame_of (own ?s2) ?s2 ps) s3 ?e ?n"
    using map_pages_ok [OF mid pool2 lims(1)] out unfolding ec table_cells_def by blast
  let ?s' = "alloc_init_chunk (word_of_nat ?e) (word_of_nat b) s3" and ?cs' = "cs1 @ [(b, False)]"
  note st = page_stepD [OF s3(2)] and new = pages_then_chunk [OF s3(2) h2 pool2 b lims(2)]
  have env: "page_table_lookup ?s' = page_table_lookup s3" "page_table_lookup s3 = page_table_lookup s" "page_env s ?s'"
    using st(4) new(2) by (simp_all add: page_env_def same_env_def set_heap_end_def)
  have o: "own ?s2 = own s" "own ?s' = own s3" by (rule own_cong, use new(2) in \<open>simp add: set_heap_end_def same_env_def\<close>)+
  have f: "frame_of fs ?s2 ps = frame_of fs s ps" for fs by (simp add: frame_of_def set_heap_end_def fun_eq_iff Let_def)
  have "cell (mem ?s') (entry_cell s3 (page_at ?e i)) = cell (mem s3) (entry_cell s3 (page_at ?e i))" if "i < ?n" for i
    using out [OF that] unfolding entry_cell_cong [OF env(2)] by (intro new(4)) (auto simp: struct_cells_def)
  then have pm: "pages_mapped (frame_of (own s) s ps) ?s' ?e ?n"
    using pages_mapped_cong [OF s3(4) env(1)] unfolding o f by blast
  have "takes ?n (own ?s2) ?s2 ps (own s3) ?s' ps1"
  proof (rule takes_then [OF s3(3)])
    fix p assume "p \<in> set ps1"
    from blocks_range [OF pool_okD(3) [OF st(2) this]] show "cell (mem ?s') p = cell (mem s3) p"
      using st(3) lim by (intro new(4)) (simp_all add: shed_def)
  qed (use new(2) in \<open>simp_all add: same_env_def\<close>)
  then have "gets_pages (own s) s ps (own ?s') ?s' ps1 ?e b"
    using pm unfolding gets_pages_def takes_def f o by (simp add: set_heap_end_def)
  moreover have "alloc_frame ?T d s cs ?s' ?cs'" using new(5,6) env(3) by (simp add: alloc_frame_def set_heap_end_def)
  moreover have "alloc_extend get_page al (word_of_nat b) s0 = Inr (word_of_nat ?e, ?s')"
    unfolding alloc_extend_def al Let_def rbind_simps using s3(1) by (simp add: he)
  ultimately show ?thesis using new(1,3) st(3) by blast
qed

lemma extend_ok:
  assumes k: "heap_ok s d cs ns" and pool: "pool_ok s d cs ps" and b: "8 dvd b" "8 \<le> b"
    and lim: "d + total cs + b + 16 + 4096 \<le> 2 ^ 32" and ta: "tables_apart s d cs ps b"
  shows "\<exists>s' cs1 ns' ps'. alloc_extend get_page 8 (word_of_nat b) s = Inr (word_of_nat (d + total cs + 8), s') \<and>
    heap_ok s' d (cs1 @ [(b, False)]) ns' \<and> pool_ok s' d (cs1 @ [(b, False)]) ps' \<and> shed d cs ps cs1 ps' \<and>
    gets_pages (own s) s ps (own s') s' ps' (d + total cs + 8) b \<and>
    alloc_frame (table_cells s d cs b) d s cs s' (cs1 @ [(b, False)])"
proof -
  let ?e = "d + total cs + 8"
  note k' = heap_okD [OF k] and hd = heap_atD [OF heap_okD(1) [OF k]]
  have e8: "8 dvd ?e" using hd(1) seg_dvd [OF hd(4)] by simp
  have "align (word_of_nat ?e) 8 = word_of_nat ((?e + 7) div 8 * 8)"
    using align_word8 [of "word_of_nat ?e"] lim unat_of_nat32 [of ?e] by simp
  also have "(?e + 7) div 8 * 8 = ?e" using e8 by (elim dvdE) simp
  finally have "alloc_align_end 8 s = Inr s"
    unfolding alloc_align_end_def k'(2) by simp
  from grow_ok [OF this k'(1,2,3) _ pool b lim ta] show ?thesis using k'(4) by blast
qed

text \<open>A chunk from the free list: nothing but the heap's structure is written.\<close>

lemma fit_frame:
  assumes h: "heap_at s d cs ns" and fr: "frame d cs cs' (mem s) (mem s')" and h': "heap_at s' d cs' ns'"
    and env: "same_env s s'" and pool: "pool_ok s d cs ps" and b: "set (blocks d cs) \<subseteq> set (blocks d cs')"
    and tot: "total cs' = total cs"
  shows "pool_ok s' d cs' ps" and "alloc_frame T d s cs s' cs'" and "takes 0 fs s ps fs s' ps"
proof -
  note hd = heap_atD [OF h] and hd' = heap_atD [OF h']
  have c: "changes (struct_cells d cs \<union> struct_cells d cs' \<union> E) (mem s) (mem s')" for E
    using fr by (auto simp: frame_def changes_def)
  have kp: "keeps E (set (blocks d cs)) (mem s) (mem s')" for E
    by (rule changes_keeps [OF c hd(4) hd'(4) _ subset_refl b]) (use hd(3) in simp)
  have pb: "pool_blocks (set ps) \<subseteq> set (blocks d cs)" using pool by (simp add: pool_ok_def)
  show "pool_ok s' d cs' ps"
    by (rule pool_ok_keeps [OF pool keeps_mono [OF kp subset_refl pb]]) (use env pb b in \<open>auto simp: same_env_def\<close>)
  have "cell (mem s') p = cell (mem s) p" if "p \<in> set ps" for p
    by (rule keepsD [OF kp [of "{}"], of p 8]) (use pool_okD(3) [OF pool that] in simp_all)
  then show "takes 0 fs s ps fs s' ps" using env by (intro takes_0) (simp_all add: same_env_def)
  have "heap_area d cs' = heap_area d cs" using tot by (simp add: heap_area_def)
  then have "struct_cells d cs \<union> struct_cells d cs' \<union> {} \<subseteq> heap_area d cs' \<union> T"
    using struct_area [OF hd(4)] struct_area [OF hd'(4)] by auto
  then have "changes (heap_area d cs' \<union> T) (mem s) (mem s')" by (rule changes_trans [OF c changes_refl _ empty_subsetI])
  then show "alloc_frame T d s cs s' cs'"
    using same_env_page_env [OF env] kp by (auto simp: alloc_frame_def keeps_def)
qed

theorem alloc_ok:
  assumes k: "heap_ok s d cs ns" and pool: "pool_ok s d cs ps" and req: "unat bytes + 8 \<le> 2 ^ 32"
    and lim: "d + total cs + rounded (unat bytes) + 16 + 4096 \<le> 2 ^ 32"
    and ta: "tables_apart s d cs ps (rounded (unat bytes))"
  shows "\<exists>n s' cs' ns' ps'. alloc get_page 8 bytes s = Inr (word_of_nat n, s') \<and>
    grants d cs ps (rounded (unat bytes)) n cs' ps' \<and> heap_ok s' d cs' ns' \<and> pool_ok s' d cs' ps' \<and>
    alloc_frame (table_cells s d cs (rounded (unat bytes))) d s cs s' cs' \<and>
    (if n = d + total cs + 8 then gets_pages (own s) s ps (own s') s' ps' n (rounded (unat bytes))
     else takes 0 (own s) s ps (own s') s' ps')"
proof -
  let ?b = "rounded (unat bytes)" and ?sz = "size_at d cs"
  note k' = heap_okD [OF k] and hd = heap_atD [OF heap_okD(1) [OF k]]
  have b: "8 dvd ?b" "8 \<le> ?b" by (rule rounded_dvd)+
  have find: "alloc_find s (word_of_nat ?b) (free_list s) = Some (first_fit ?sz ?b ns)"
    by (rule find_ok [OF k'(1) _ hd(6)]) (use lim hd(8) in simp_all)
  have al: "alloc get_page 8 bytes s =
     (case first_fit ?sz ?b ns of
        Fit_exact n \<Rightarrow> Inr (n, alloc_take n s)
      | Fit_split n \<Rightarrow> Inr (n, alloc_split n (word_of_nat ?b) s)
      | Fit_none \<Rightarrow> alloc_extend get_page 8 (word_of_nat ?b) s)"
    unfolding alloc_def Let_def request_word [OF req] find by (simp add: KM_MIN_ALLOC_SIZE_def)
  let ?E = "table_cells s d cs ?b"
  have inside: "d + total xs + 8 \<noteq> d + total cs + 8" if "cs = xs @ (z, f) # ys" for xs z f ys
    using that by simp
  have node: "\<exists>xs z ys. cs = xs @ (z, True) # ys \<and> n = d + total xs + 8 \<and> ?sz n = z" if "n \<in> set ns" for n
    using node_decomp [of n d cs "mem s"] hd(4,8) that by auto
  show ?thesis
  proof (cases rule: first_fit_cases [of ?sz ?b ns])
    case none
    have no: "sz \<noteq> ?b \<and> sz \<le> ?b + 8" if fr: "(sz, True) \<in> set cs" for sz
    proof -
      obtain xs ys where cs: "cs = xs @ (sz, True) # ys" using fr by (auto dest: split_list)
      have "d + total xs + 8 \<in> set ns" using hd(8) cs by simp
      moreover have "?sz (d + total xs + 8) = sz"
      proof -
        have "size_at d (xs @ (sz, True) # ys) (d + total xs + 8) = sz" for d
          by (induction d xs "d + total xs + 8" rule: size_at.induct) (auto simp: ac_simps)
        then show ?thesis using cs by simp
      qed
      ultimately show ?thesis using none(2) by auto
    qed
    obtain s' cs1 ns' ps' where s': "alloc_extend get_page 8 (word_of_nat ?b) s = Inr (word_of_nat (d + total cs + 8), s')"
        "heap_ok s' d (cs1 @ [(?b, False)]) ns'" "pool_ok s' d (cs1 @ [(?b, False)]) ps'" "shed d cs ps cs1 ps'"
        "gets_pages (own s) s ps (own s') s' ps' (d + total cs + 8) ?b" "alloc_frame ?E d s cs s' (cs1 @ [(?b, False)])"
      using extend_ok [OF k pool b lim ta] by blast
    moreover have "grants d cs ps ?b (d + total cs + 8) (cs1 @ [(?b, False)]) ps'"
      by (rule grant_extend [OF no s'(4)])
    moreover have "alloc get_page 8 bytes s = Inr (word_of_nat (d + total cs + 8), s')"
      unfolding al none(1) fit.case by (rule s'(1))
    ultimately show ?thesis by (intro exI [of _ "d + total cs + 8"] exI [of _ s']) auto
  next
    case (exact as n bs)
    then obtain xs ys where x: "cs = xs @ (?b, True) # ys" "n = d + total xs + 8" using node [of n] by auto
    let ?s' = "alloc_take (word_of_nat n) s" and ?cs' = "xs @ (?b, False) # ys"
    have h: "heap_at s d (xs @ (?b, True) # ys) (as @ (d + total xs + 8) # bs)" using k'(1) x exact by simp
    have ok: "heap_ok ?s' d ?cs' (as @ bs)" unfolding x(2) by (rule take_heap_ok) (use k x exact in simp)
    have "set (blocks d cs) \<subseteq> set (blocks d ?cs')" "total ?cs' = total cs" by (auto simp: x(1))
    note fit = fit_frame [OF k'(1) _ heap_okD(1) [OF ok] _ pool this]
    have "frame d cs ?cs' (mem s) (mem ?s')" unfolding x by (rule take_ok(4) [OF h])
    moreover have env: "same_env s ?s'" unfolding x(2) by (rule take_ok(2) [OF h])
    moreover have "own ?s' = own s" using env by (intro own_cong) (simp add: same_env_def)
    moreover have "alloc get_page 8 bytes s = Inr (word_of_nat n, ?s')"
      unfolding al exact(1) fit.case by (rule refl)
    moreover have "n \<noteq> d + total cs + 8" using inside [OF x(1)] x(2) by simp
    moreover have "grants d cs ps ?b n ?cs' ps" unfolding x by (rule grant_exact)
    ultimately show ?thesis using ok fit by (intro exI [of _ n] exI [of _ ?s'] exI [of _ ?cs'] exI [of _ "as @ bs"] exI [of _ ps]) simp
  next
    case (split as n bs)
    then obtain xs z ys where x: "cs = xs @ (z, True) # ys" "n = d + total xs + 8" "?sz n = z" using node [of n] by auto
    have z: "?b + 8 < z" using split(3) x(3) by simp
    have kz: "heap_ok s d (xs @ (z, True) # ys) (as @ (d + total xs + 8) # bs)"
      using k unfolding x(1) split(2) x(2) .
    let ?s' = "alloc_split (word_of_nat n) (word_of_nat ?b) s" and ?cs' = "xs @ (?b, False) # (z - ?b - 8, True) # ys"
    note sp = split_ok [OF heap_okD(1) [OF kz] b z, folded x(2)]
    have ok: "heap_ok ?s' d ?cs' (as @ (d + total xs + 16 + ?b) # bs)"
      unfolding x(2) by (rule split_heap_ok [OF kz b z])
    have g: "grants d cs ps ?b n ?cs' ps" unfolding x(1,2) by (rule grant_split [OF z])
    have "set (blocks d cs) \<subseteq> set (blocks d ?cs')" "total ?cs' = total cs"
      using grants_blocks(1) [OF g] z by (auto simp: x(1))
    note fit = fit_frame [OF k'(1) _ heap_okD(1) [OF ok] _ pool this]
    have "frame d cs ?cs' (mem s) (mem ?s')" unfolding x(1) by (rule sp(4))
    moreover have env: "same_env s ?s'" by (rule sp(2))
    moreover have "own ?s' = own s" using env by (intro own_cong) (simp add: same_env_def)
    moreover have "alloc get_page 8 bytes s = Inr (word_of_nat n, ?s')"
      unfolding al split(1) fit.case by (rule refl)
    moreover have "n \<noteq> d + total cs + 8" using inside [OF x(1)] x(2) by simp
    ultimately show ?thesis
      using ok fit g
      by (intro exI [of _ n] exI [of _ ?s'] exI [of _ ?cs'] exI [of _ "as @ (d + total xs + 16 + ?b) # bs"] exI [of _ ps]) simp
  qed
qed

end

section \<open>\<open>page_new\<close> is a page source\<close>

interpretation kernel_pages: page_source "page_new (Suc depth)" "\<lambda>_. []" for depth
proof
  fix s d cs ns E ps assume "heap_mid s d cs ns E" "pool_ok s d cs ps"
  then show "\<exists>s' cs' ns' ps'. page_new (Suc depth) s = Inr (frame_of [] s ps 0, s') \<and>
      page_step {} d E s cs ps s' cs' ns' ps' \<and> takes 1 [] s ps [] s' ps'"
    using page_new_ok by blast
qed simp

end
