(* ===== verification/Heap_Client.thy ===== *)
theory Heap_Client
  imports Heap_Correct
begin

text \<open>
  The heap as its clients use it: a new heap is well formed and empty, writing into a live block
  does not disturb the heap, and \<open>kmalloc\<close> and \<open>kfree\<close> meet the allocator's specification.
\<close>

section \<open>Writing into a live block\<close>

lemma pool_area_less:
  assumes "heap_at s d cs ns" and "pool_ok s d cs ps" and "c \<in> pool_cells ps"
  shows "c < 2 ^ 32" and "d \<le> c" and "c < d + total cs + 8"
  using subsetD [OF pool_area [OF assms(2)] assms(3)] heap_atD(3) [OF assms(1)] by (simp_all add: heap_area_def)

text \<open>A write that misses the heap's structure and the free page list.\<close>

lemma apart_write_ok:
  assumes k: "heap_ok s d cs ns" and a32: "a < 2 ^ 32" and st: "a \<notin> struct_cells d cs"
  shows "heap_ok (wr (word_of_nat a) v s) d cs ns"
proof -
  let ?s = "wr (word_of_nat a) v s"
  note k' = heap_okD [OF k] and hd = heap_atD [OF heap_okD(1) [OF k]]
  note out = struct_cellsD [OF st]
  have keep: "cell (mem ?s) c = cell (mem s) c" if "c < 2 ^ 32" "a \<noteq> c" for c
    unfolding wr_fields by (rule cell_upd_other [OF a32 that])
  have "seg (mem ?s) d cs"
  proof (rule seg_cong [OF _ hd(4)])
    fix c assume "c \<in> descs d cs"
    then show "cell (mem ?s) c = cell (mem s) c"
      using out(1) descs_range [of c d cs] hd(3) by (intro keep) auto
  qed
  moreover have "cell (mem ?s) d = cell (mem s) d" using out(2) hd(3) by (intro keep) auto
  moreover have "cell (mem ?s) (d + total cs + 4) = cell (mem s) (d + total cs + 4)"
    using out(3) hd(3) by (intro keep) auto
  moreover have "dls (mem ?s) 0 (free_list s) ns 0"
  proof (rule dls_cong [OF _ hd(6)])
    fix m assume m: "m \<in> set ns"
    then have "a \<noteq> m \<and> a \<noteq> m + 4" using out(4) [of m] hd(8) by auto
    then show "cell (mem ?s) m = cell (mem s) m \<and> cell (mem ?s) (m + 4) = cell (mem s) (m + 4)"
      by (intro conjI keep) (use heap_node(3) [OF k'(1) m] in auto)
  qed
  ultimately show ?thesis
    using k hd unfolding heap_ok_def heap_at_def by simp
qed

lemma apart_write_pool:
  assumes k: "heap_ok s d cs ns" and pool: "pool_ok s d cs ps" and a: "a < 2 ^ 32" "a \<notin> pool_cells ps"
  shows "pool_ok (wr (word_of_nat a) v s) d cs ps"
    and "\<And>c. c \<in> pool_cells ps \<Longrightarrow> cell (mem (wr (word_of_nat a) v s)) c = cell (mem s) c"
proof -
  show keep: "cell (mem (wr (word_of_nat a) v s)) c = cell (mem s) c" if "c \<in> pool_cells ps" for c
    using pool_area_less [OF heap_okD(1) [OF k] pool that] a that unfolding wr_fields by (intro cell_upd_other) auto
  have "page_list (mem (wr (word_of_nat a) v s)) (page_free_list s) ps"
    by (intro page_list_cong [OF _ pool_okD(1) [OF pool]] keep) (auto simp: pool_cells_def)
  then show "pool_ok (wr (word_of_nat a) v s) d cs ps" using pool by (simp add: pool_ok_def)
qed

lemma block_below:
  assumes "heap_ok s d cs ns" and "(n, sz) \<in> set (blocks d cs)" and "a + 4 \<le> n + sz"
  shows "a < 2 ^ 32"
  using blocks_range [OF assms(2)] assms(3) heap_atD(3) [OF heap_okD(1) [OF assms(1)]] by simp

lemma block_write_ok:
  assumes k: "heap_ok s d cs ns" and b: "(n, sz) \<in> set (blocks d cs)" and a: "n \<le> a" "a + 4 \<le> n + sz"
  shows "heap_ok (wr (word_of_nat a) v s) d cs ns"
  by (rule apart_write_ok [OF k block_below [OF k b a(2)] block_not_struct [OF heap_atD(4) [OF heap_okD(1) [OF k]] b a]])

lemma client_write_ok:
  assumes k: "heap_ok s d cs ns" and pool: "pool_ok s d cs ps" and b: "(n, sz) \<in> clients d cs ps"
    and a: "n \<le> a" "a + 4 \<le> n + sz"
  shows "heap_ok (wr (word_of_nat a) v s) d cs ns" and "pool_ok (wr (word_of_nat a) v s) d cs ps"
    and "\<And>c. c \<in> pool_cells ps \<Longrightarrow> cell (mem (wr (word_of_nat a) v s)) c = cell (mem s) c"
proof -
  have bl: "(n, sz) \<in> set (blocks d cs)" using b by (simp add: clients_def)
  show "heap_ok (wr (word_of_nat a) v s) d cs ns" by (rule block_write_ok [OF k bl a])
  note w = apart_write_pool [OF k pool block_below [OF k bl a(2)] client_not_pool [OF pool b a]]
  show "pool_ok (wr (word_of_nat a) v s) d cs ps" by (rule w(1))
  show "cell (mem (wr (word_of_nat a) v s)) c = cell (mem s) c" if "c \<in> pool_cells ps" for c by (rule w(2) [OF that])
qed

section \<open>A new heap\<close>

text \<open>While no page has been given back, \<open>page_new\<close> takes the next frame after the kernel's heap.\<close>

lemma page_new_bump: "page_free_list s = 0 \<Longrightarrow> page_new depth s = Inr (page_bump s)"
  by (cases depth) simp_all

lemma kmalloc_init_ok:
  assumes "page_free_list s = 0" and "unat start + 32 \<le> 2 ^ 32" and "0 < unat start"
  shows "\<exists>s'. kmalloc_init depth start s = Inr s' \<and> heap_ok s' ((unat start + 7) div 8 * 8) [] [] \<and>
    page_free_list s' = 0 \<and> ac_start (kernel_ctxt s') = start"
proof -
  let ?d = "(unat start + 7) div 8 * 8"
  have al: "align start KM_MIN_ALLOC_SIZE = word_of_nat ?d"
    unfolding KM_MIN_ALLOC_SIZE_def by (rule align_word8) (use assms(2) in simp)
  have d: "?d \<le> unat start + 7" "unat start \<le> ?d" by presburger+
  obtain s1 where s1: "(if \<not> page_is_present s (word_of_nat ?d)
      then rbind (page_new depth s) (\<lambda>(pma, s1).
             Inr (page_set_entry (word_of_nat ?d) (pma OR PAGE_WRITE OR PAGE_PRESENT) s1))
      else Inr s) = Inr s1" "page_free_list s1 = 0"
    using assms(1) by (cases "page_is_present s (word_of_nat ?d)")
      (auto simp: page_new_bump page_bump_def page_set_entry_def)
  let ?s' = "(wr (word_of_nat ?d) 0 s1)\<lparr>kernel_ctxt := \<lparr>ac_free_list = 0, ac_start = start, ac_end = word_of_nat ?d + DESC_SIZE\<rparr>\<rparr>"
  have "c < 2 ^ 32 \<Longrightarrow> cell (m(word_of_nat c := 0)) c = 0" for c and m :: "u32 \<Rightarrow> u32"
    by (simp add: cell_upd)
  from this [of ?d "mem s1"] have c0: "cell (mem ?s') ?d = 0" unfolding wr_fields using d assms(2) by simp
  have "kmalloc_init depth start s = Inr ?s'"
    unfolding kmalloc_init_def alloc_new_heap_def Let_def al s1(1) by simp
  moreover have "heap_ok ?s' ?d [] []"
    using c0 d assms(2,3) unfolding heap_ok_def heap_at_def
    by (simp add: coalesced_def DESC_SIZE_def)
  ultimately show ?thesis using s1(2) by (intro exI [of _ ?s']) simp
qed

section \<open>\<open>kmalloc\<close> and \<open>kfree\<close>\<close>

text \<open>
  A request can be served when it is not within 8 bytes of the address space's size, the heap has room to
  grow, and the page tables do not lie in the heap's own cells.
\<close>

definition room :: "kstate \<Rightarrow> nat \<Rightarrow> chunk list \<Rightarrow> nat list \<Rightarrow> u32 \<Rightarrow> bool" where
  "room s d cs ps bytes \<longleftrightarrow> unat bytes + 8 \<le> 2 ^ 32 \<and> d + total cs + rounded (unat bytes) + 16 + 4096 \<le> 2 ^ 32 \<and>
     tables_apart s d cs ps (rounded (unat bytes))"

context page_source begin

lemma alloc_grants:
  assumes "heap_ok s d cs ns" and "pool_ok s d cs ps" and "room s d cs ps bytes"
  shows "\<exists>n s' cs' ns' ps'. alloc get_page KM_MIN_ALLOC_SIZE bytes s = Inr (word_of_nat n, s') \<and>
    grants d cs ps (rounded (unat bytes)) n cs' ps' \<and> heap_ok s' d cs' ns' \<and> pool_ok s' d cs' ps' \<and>
    alloc_frame (table_cells s d cs (rounded (unat bytes))) d s cs s' cs' \<and>
    (if n = d + total cs + 8 then gets_pages (own s) s ps (own s') s' ps' n (rounded (unat bytes))
     else takes 0 (own s) s ps (own s') s' ps')"
  using alloc_ok [OF assms(1,2), of bytes] assms(3) unfolding room_def KM_MIN_ALLOC_SIZE_def by blast

end

lemma kmalloc_grants:
  assumes "heap_ok s d cs ns" and "pool_ok s d cs ps" and "room s d cs ps bytes"
  shows "\<exists>n s' cs' ns' ps'. kmalloc (Suc depth) bytes s = Inr (word_of_nat n, s') \<and>
    grants d cs ps (rounded (unat bytes)) n cs' ps' \<and> heap_ok s' d cs' ns' \<and> pool_ok s' d cs' ps' \<and>
    alloc_frame (table_cells s d cs (rounded (unat bytes))) d s cs s' cs' \<and>
    (if n = d + total cs + 8 then gets_pages [] s ps [] s' ps' n (rounded (unat bytes)) else takes 0 [] s ps [] s' ps')"
  using kernel_pages.alloc_grants [OF assms] unfolding kmalloc_def .

lemma grants_total:
  assumes "grants d cs ps b n cs' ps'"
  shows "total cs \<le> total cs' \<and> total cs' \<le> total cs + 8 + b"
  using assms by cases (auto simp: shed_def)

lemma grants_new_block:
  assumes "grants d cs ps b n cs' ps'" and "(k, c) \<in> set (blocks d cs) \<inter> set (blocks d cs')"
  shows "n + b + 8 \<le> k \<or> k + c + 8 \<le> n"
proof -
  have "(n, b) \<in> set (blocks d cs')" "(k, c) \<in> set (blocks d cs')" "(k, c) \<noteq> (n, b)"
    using grants_blocks [OF assms(1)] assms(2) by auto
  then show ?thesis using blocks_disjoint [of n b d cs' k c] by auto
qed

text \<open>The block a call returns: fresh, large enough, inside the heap, and with every client's block kept.\<close>

lemma grants_dvd:
  assumes "grants d cs ps b n cs' ps'" and "heap_at s d cs ns"
  shows "8 dvd n"
  using assms(1)
proof cases
  note hd = heap_atD [OF assms(2)]
  case (grant_exact xs ys)
  then show ?thesis using heap_atD(1,4) [OF assms(2)] seg_dvd [of "mem s" d xs] by simp
next
  case (grant_split sz xs ys)
  then show ?thesis using heap_atD(1,4) [OF assms(2)] seg_dvd [of "mem s" d xs] by simp
next
  case grant_extend
  then show ?thesis using heap_atD(1) [OF assms(2)] seg_dvd [OF heap_atD(4) [OF assms(2)]] by simp
qed

lemma clients_stay:
  assumes "grants d cs ps b n cs' ps'" and "pool_blocks (set ps) \<subseteq> set (blocks d cs)"
  shows "clients d cs ps \<subseteq> set (blocks d cs) \<inter> set (blocks d cs')"
  using grants_clients [OF assms] by (auto simp: clients_def)

lemma kmalloc_block:
  assumes k: "heap_ok s d cs ns" and pool: "pool_ok s d cs ps" and r: "room s d cs ps bytes"
  shows "\<exists>n s' cs' ns' ps'. kmalloc (Suc depth) bytes s = Inr (word_of_nat n, s') \<and> heap_ok s' d cs' ns' \<and>
    pool_ok s' d cs' ps' \<and> set ps' \<subseteq> set ps \<and>
    8 dvd n \<and> 0 < n \<and> n + rounded (unat bytes) + 8 \<le> 2 ^ 32 \<and>
    clients d cs' ps' = insert (n, rounded (unat bytes)) (clients d cs ps) \<and>
    (\<forall>(k, c)\<in>clients d cs ps. n + rounded (unat bytes) + 8 \<le> k \<or> k + c + 8 \<le> n) \<and>
    alloc_frame (table_cells s d cs (rounded (unat bytes))) d s cs s' cs' \<and>
    keeps (table_cells s d cs (rounded (unat bytes))) (clients d cs ps) (mem s) (mem s') \<and>
    total cs' \<le> total cs + 8 + rounded (unat bytes)"
proof -
  let ?b = "rounded (unat bytes)"
  obtain n s' cs' ns' ps' where g: "kmalloc (Suc depth) bytes s = Inr (word_of_nat n, s')"
      "grants d cs ps ?b n cs' ps'" "heap_ok s' d cs' ns'" "pool_ok s' d cs' ps'"
      "alloc_frame (table_cells s d cs ?b) d s cs s' cs'"
    using kmalloc_grants [OF assms] by blast
  note hd = heap_atD [OF heap_okD(1) [OF k]] and hd' = heap_atD [OF heap_okD(1) [OF g(3)]]
  have pb: "pool_blocks (set ps) \<subseteq> set (blocks d cs)" using pool by (simp add: pool_ok_def)
  have "(n, ?b) \<in> set (blocks d cs')" using grants_blocks(1) [OF g(2)] by simp
  then have "0 < n" "n + ?b + 8 \<le> 2 ^ 32" using blocks_range hd'(2,3) by fastforce+
  moreover have "keeps (table_cells s d cs ?b) (clients d cs ps) (mem s) (mem s')"
    by (rule keeps_mono [OF alloc_frameD(3) [OF g(5)] subset_refl clients_stay [OF g(2) pb]])
  moreover have "\<forall>(k, c)\<in>clients d cs ps. n + ?b + 8 \<le> k \<or> k + c + 8 \<le> n"
    using grants_new_block [OF g(2)] clients_stay [OF g(2) pb] by blast
  ultimately show ?thesis
    using g grants_clients [OF g(2) pb] grants_dvd [OF g(2) heap_okD(1) [OF k]] grants_blocks(3) [OF g(2)]
      grants_total [OF g(2)] by blast
qed

text \<open>Freeing a block: exactly it leaves the clients' blocks, and every other block keeps its contents.\<close>

lemma kfree_block:
  assumes k: "heap_ok s d (xs @ (a, False) # ys) ns" and pool: "pool_ok s d (xs @ (a, False) # ys) ps"
    and new: "d + total xs + 8 \<notin> set ps"
    and page: "freed xs a ys = fst (absorb_prev xs (fst (absorb_next a ys))) \<Longrightarrow>
      heap_end s AND NOT 0xfff < (word_of_nat (d + total (freed xs a ys) + 8) :: u32)"
  shows "\<exists>s' ns'. kfree depth (word_of_nat (d + total xs + 8)) s = Inr s' \<and> heap_ok s' d (freed xs a ys) ns' \<and>
    pool_ok s' d (freed xs a ys) ps \<and>
    clients d (freed xs a ys) ps = clients d (xs @ (a, False) # ys) ps - {(d + total xs + 8, a)} \<and>
    keeps {} (set (blocks d (freed xs a ys))) (mem s) (mem s')"
proof -
  let ?cs = "xs @ (a, False) # ys"
  obtain s' ns' where f: "free_with (page_free depth) (word_of_nat (d + total xs + 8)) s = Inr s'"
      "heap_ok s' d (freed xs a ys) ns'" "same_env (set_heap_end (heap_end s') s) s'"
      "changes (struct_cells d ?cs \<union> struct_cells d (freed xs a ys)) (mem s) (mem s')"
    using free_with_ok [OF k page] by blast
  note b = freed_blocks [of d xs a ys] and hd = heap_atD [OF heap_okD(1) [OF k]]
  have "changes (struct_cells d ?cs \<union> struct_cells d (freed xs a ys) \<union> {}) (mem s) (mem s')" using f(4) by simp
  then have kp: "keeps {} (set (blocks d (freed xs a ys))) (mem s) (mem s')"
    by (rule changes_keeps [OF _ hd(4) heap_atD(4) [OF heap_okD(1) [OF f(2)]]]) (use b hd(3) in auto)
  have pb: "pool_blocks (set ps) \<subseteq> set (blocks d (freed xs a ys))"
    using pool new unfolding b by (auto simp: pool_ok_def pool_blocks_def)
  have "page_free_list s' = page_free_list s" using f(3) by (simp add: same_env_def)
  then have "pool_ok s' d (freed xs a ys) ps" by (rule pool_ok_keeps [OF pool keeps_mono [OF kp subset_refl pb] _ pb])
  then show ?thesis using f(1,2) kp unfolding kfree_def clients_def b by auto
qed

text \<open>A block that is not at the end of the heap is given back without giving back pages.\<close>

lemma freed_inner:
  assumes "ys \<noteq> []" and "\<not> snd (last (xs @ (a, False) # ys))"
  shows "freed xs a ys \<noteq> fst (absorb_prev xs (fst (absorb_next a ys)))"
proof -
  have "snd (absorb_next a ys) \<noteq> []"
    using assms by (cases "(a, ys)" rule: absorb_next.cases) (auto split: if_splits)
  then show ?thesis by (cases "absorb_next a ys") (auto simp: freed_def split: prod.splits)
qed

lemma grants_inner:
  assumes "grants d cs ps b n cs' ps'" and "(sz, True) \<in> set cs" and "sz = b \<or> b + 8 < sz" and "\<not> snd (last cs)"
  obtains xs ys where "cs' = xs @ (b, False) # ys" "n = d + total xs + 8" "ys \<noteq> []" "ps' = ps"
  using assms(1)
proof cases
  case (grant_exact xs ys)
  then show thesis using that [of xs ys] assms(4) by (cases ys) auto
next
  case (grant_split z xs ys)
  then show thesis using that [of xs "(z - b - 8, True) # ys"] by simp
next
  case grant_extend
  from grant_extend(3) [OF assms(2)] assms(3) show thesis by auto
qed

lemma kmalloc_kfree:
  assumes k: "heap_ok s d cs ns" and pool: "pool_ok s d cs ps" and r: "room s d cs ps bytes"
    and fit: "(sz, True) \<in> set cs" "sz = rounded (unat bytes) \<or> rounded (unat bytes) + 8 < sz"
  shows "\<exists>p s1 s2 cs2 ns2. kmalloc (Suc depth) bytes s = Inr (p, s1) \<and> kfree (Suc depth) p s1 = Inr s2 \<and>
    heap_ok s2 d cs2 ns2 \<and> pool_ok s2 d cs2 ps \<and> set (blocks d cs2) = set (blocks d cs) \<and>
    keeps (table_cells s d cs (rounded (unat bytes))) (set (blocks d cs)) (mem s) (mem s2)"
proof -
  let ?b = "rounded (unat bytes)" and ?E = "table_cells s d cs (rounded (unat bytes))"
  obtain n s1 cs1 ns1 ps1 where g: "kmalloc (Suc depth) bytes s = Inr (word_of_nat n, s1)" "grants d cs ps ?b n cs1 ps1"
      "heap_ok s1 d cs1 ns1" "pool_ok s1 d cs1 ps1" "alloc_frame ?E d s cs s1 cs1"
    using kmalloc_grants [OF k pool r] by blast
  have "cs \<noteq> []" using fit(1) by auto
  then obtain xs ys where x: "cs1 = xs @ (?b, False) # ys" "n = d + total xs + 8" "ys \<noteq> []" "ps1 = ps"
    using grants_inner [OF g(2) fit] heap_okD(5) [OF k] by blast
  have "\<not> snd (last (xs @ (?b, False) # ys))" using heap_okD(5) [OF g(3)] x(1) by simp
  note inner = freed_inner [OF x(3) this]
  have new: "n \<notin> set ps" using grants_blocks(2) [OF g(2)] pool_okD(3) [OF pool] by blast
  obtain s2 ns2 where f: "kfree (Suc depth) (word_of_nat n) s1 = Inr s2"
      "heap_ok s2 d (freed xs ?b ys) ns2" "pool_ok s2 d (freed xs ?b ys) ps"
      "keeps {} (set (blocks d (freed xs ?b ys))) (mem s1) (mem s2)"
    using kfree_block [of s1 d xs ?b ys ns1 ps "Suc depth"] g(3,4) inner new unfolding x(1,2,4) by blast
  have st: "set (blocks d cs1) = insert (n, ?b) (set (blocks d cs))" using grants_blocks(1) [OF g(2)] x(4) by simp
  have b: "set (blocks d (freed xs ?b ys)) = set (blocks d cs)"
    unfolding freed_blocks [of d xs ?b ys] x(1) [symmetric] x(2) [symmetric] st using grants_blocks(2) [OF g(2), of ?b] by simp
  have "keeps ?E (set (blocks d cs)) (mem s) (mem s1)" using alloc_frameD(3) [OF g(5)] st by (simp add: Int_absorb2 subset_insertI)
  then have "keeps ?E (set (blocks d cs)) (mem s) (mem s2)"
    by (rule keeps_trans [OF _ keeps_mono [OF f(4) empty_subsetI]]) (simp add: b)
  then show ?thesis using g(1) f(1-3) b by blast
qed

section \<open>A request that wraps\<close>

text \<open>The last eight sizes round up to zero: the caller gets a block of size 0 that ends where it starts.\<close>

lemma align_wraps:
  assumes "2 ^ 32 - 8 < unat bytes"
  shows "align bytes KM_MIN_ALLOC_SIZE = 0"
proof -
  have m: "unat bytes < 2 ^ 32" using unsigned_less [of bytes] by simp
  have seven: "KM_MIN_ALLOC_SIZE - 1 = (mask 3 :: u32)" by (simp add: KM_MIN_ALLOC_SIZE_def mask_eq_exp_minus_1)
  define r where "r = unat bytes - (2 ^ 32 - 8)"
  have r: "unat bytes = 536870911 * 8 + r" "0 < r" "r < 8" using assms m by (simp_all add: r_def less_diff_conv2)
  have "unat bytes mod 8 = r" unfolding r(1) mod_mult_self3 using r(3) by simp
  with r have "unat bytes div 8 = 536870911" and "unat bytes mod 8 \<noteq> 0" by simp_all
  then have d: "unat (bytes AND NOT (mask 3)) = 2 ^ 32 - 8" and "unat (bytes AND mask 3) \<noteq> 0"
    by (simp_all add: unat_and_not_mask unat_and_mask)
  then have r: "bytes AND mask 3 \<noteq> 0" by auto
  have "bytes AND NOT (mask 3) = word_of_nat (2 ^ 32 - 8)" by (rule unat_eq_word [OF d])
  then show ?thesis unfolding align_def seven using r by (simp add: KM_MIN_ALLOC_SIZE_def)
qed

lemma alloc_wraps:
  assumes "2 ^ 32 - 8 < unat bytes" and "free_list s = 0" and "heap_end s = word_of_nat e" and "8 dvd e"
    and "0 < e mod 4096" and "e mod 4096 + 8 \<le> 4096" and "e + 4096 \<le> 2 ^ 32"
  shows "alloc get_page 8 bytes s = Inr (word_of_nat e, alloc_init_chunk (word_of_nat e) 0 (set_heap_end (word_of_nat (e + 8)) s))"
proof -
  have b0: "bytes \<noteq> 0" using assms(1) by auto
  have "align (word_of_nat e) 8 = word_of_nat ((e + 7) div 8 * 8)"
    using align_word8 [of "word_of_nat e"] assms(7) unat_of_nat32 [of e] by simp
  also have "(e + 7) div 8 * 8 = e" using assms(4) by (elim dvdE) simp
  finally have al: "alloc_align_end 8 s = Inr s" unfolding alloc_align_end_def assms(3) by simp
  have up: "align (word_of_nat e) PAGE_SIZE = word_of_nat ((e + 4095) div 4096 * 4096)"
    unfolding PAGE_SIZE_def by (rule align_word4096 [OF assms(7)])
  define q r where "q = e div 4096" and "r = e mod 4096"
  have e: "e = q * 4096 + r" by (simp add: q_def r_def)
  have "e + 4095 = (r - 1) + (q + 1) * 4096" using e assms(5) by (simp add: r_def)
  then have "(e + 4095) div 4096 = ((r - 1) + (q + 1) * 4096) div 4096" by simp
  also have "\<dots> = q + 1" using div_mult_self1 [of 4096 "r - 1" "q + 1"] by (simp add: r_def)
  finally have d: "(e + 4095) div 4096 * 4096 = (q + 1) * 4096" by simp
  have "r + 8 \<le> 4096" "0 < r" using assms(5,6) by (simp_all add: r_def)
  then have p: "e + 8 \<le> (e + 4095) div 4096 * 4096" "(e + 4095) div 4096 * 4096 \<le> e + 4095"
    unfolding d using e by simp_all
  have "unat (word_of_nat e + 0 + DESC_SIZE :: u32) = e + 8"
    using unat_of_nat32 [of "e + 8"] assms(7) by (simp add: DESC_SIZE_def ac_simps)
  moreover have "unat (word_of_nat ((e + 4095) div 4096 * 4096) :: u32) = (e + 4095) div 4096 * 4096"
    by (rule unat_of_nat32) (use p(2) assms(7) in linarith)
  ultimately have "\<not> align (word_of_nat e) PAGE_SIZE < word_of_nat e + 0 + DESC_SIZE"
    using p(1) unfolding up not_less word_le_nat_alt by simp
  then have "for_loop PAGE_SIZE (alloc_map_page get_page) (align (word_of_nat e) PAGE_SIZE) (word_of_nat e + 0 + DESC_SIZE) t = Some (Inr t)" for t
    by (rule for_loop_done)
  then have mp: "alloc_map_pages get_page (word_of_nat e) 0 t = Inr t" for t
    unfolding alloc_map_pages_def by simp
  show ?thesis
    unfolding alloc_def Let_def
    using b0 align_wraps [OF assms(1)] al mp assms(2,3)
    by (simp add: KM_MIN_ALLOC_SIZE_def alloc_find.simps alloc_extend_def Let_def DESC_SIZE_def)
qed

end
