(* ===== verification/Heap_Aligned.thy ===== *)
theory Heap_Aligned
  imports Heap_Client
begin

text \<open>
  Aligned allocation (\<open>kmalloc_aligned\<close>, and \<open>kalloc\<close> with the page size): the end of the heap is
  first moved to the next aligned address, and the gap becomes a free chunk.
\<close>

section \<open>The gap\<close>

definition aligned_end :: "nat \<Rightarrow> nat \<Rightarrow> nat" where
  "aligned_end k e = (e + 2 ^ k - 1) div 2 ^ k * 2 ^ k"

lemma aligned_end_ge: "e \<le> aligned_end k e"
proof -
  have "e \<le> (e + (2 ^ k - 1)) div 2 ^ k * 2 ^ k" using round_up_le [of "2 ^ k" e] by (simp add: ac_simps)
  then show ?thesis unfolding aligned_end_def by simp
qed

lemma aligned_end_dvd: "2 ^ k dvd aligned_end k e"
  by (simp add: aligned_end_def)

lemma word_aligned_end:
  assumes "k < 32" and "e + 2 ^ k \<le> 2 ^ 32"
  shows "align (word_of_nat e) (2 ^ k) = word_of_nat (aligned_end k e)"
proof -
  have e: "unat (word_of_nat e :: u32) = e" by (rule unat_of_nat32) (use assms zero_less_power [of "2::nat" k] in linarith)
  have "unat (align (word_of_nat e) (2 ^ k)) = (unat (word_of_nat e :: u32) + 2 ^ k - 1) div 2 ^ k * 2 ^ k"
    by (rule unat_align) (use assms e in simp_all)
  then have "unat (align (word_of_nat e) (2 ^ k)) = aligned_end k e" unfolding e aligned_end_def .
  then show ?thesis by (rule unat_eq_word)
qed

text \<open>Appending a chunk in use by writing its size twice, without the descriptor that follows it.\<close>

lemma append_at:
  assumes h: "heap_at s d cs ns" and b: "8 dvd b" "8 \<le> b" and lim: "d + total cs + b + 24 \<le> 2 ^ 32"
  defines "s' \<equiv> wr (word_of_nat (d + total cs + 8 + b)) (word_of_nat b) (wr (word_of_nat (d + total cs + 4)) (word_of_nat b) s)"
  shows "heap_at s' d (cs @ [(b, False)]) ns"
    and "\<And>a. a < 2 ^ 32 \<Longrightarrow> a \<noteq> d + total cs + 4 \<Longrightarrow> a \<noteq> d + total cs + 8 + b \<Longrightarrow> cell (mem s') a = cell (mem s) a"
proof -
  let ?D = "d + total cs"
  note hd = heap_atD [OF h]
  have c: "cell (mem s') a = (if a = ?D + 8 + b \<or> a = ?D + 4 then word_of_nat b else cell (mem s) a)" if "a < 2 ^ 32" for a
    unfolding s'_def wr_fields using that lim by (auto simp: cell_upd simp del: of_nat_add)
  have low: "cell (mem s') a = cell (mem s) a" if "a \<le> ?D" for a using that c [of a] lim by simp
  show "cell (mem s') a = cell (mem s) a" if "a < 2 ^ 32" "a \<noteq> ?D + 4" "a \<noteq> ?D + 8 + b" for a
    using c [OF that(1)] that by simp
  have "seg (mem s') d cs"
    by (rule seg_cong [OF _ hd(4)]) (use low descs_range [of _ d cs] in blast)
  moreover have "cell (mem s') (?D + 4) = word_of_nat b" "cell (mem s') (?D + 8 + b) = word_of_nat b"
    using c [of "?D + 4"] c [of "?D + 8 + b"] lim b by simp_all
  moreover have "dls (mem s') 0 (free_list s) ns 0"
  proof (rule dls_cong [OF _ hd(6)])
    fix k assume "k \<in> set ns"
    then show "cell (mem s') k = cell (mem s) k \<and> cell (mem s') (k + 4) = cell (mem s) (k + 4)"
      using heap_node [OF h, of k] low [of k] low [of "k + 4"] by simp
  qed
  moreover have "free_list s' = free_list s" by (simp add: s'_def)
  ultimately show "heap_at s' d (cs @ [(b, False)]) ns"
    using hd b lim low [of d] unfolding heap_at_def by (simp add: ac_simps)
qed

text \<open>The stores of the gap's descriptors are those of a chunk in use that is then marked free.\<close>

lemma gap_stores:
  assumes h: "heap_at s d cs ns" and b: "8 dvd b" "8 \<le> b" and lim: "d + total cs + b + 24 \<le> 2 ^ 32"
  defines "f \<equiv> word_of_nat (d + total cs + 4) :: u32" and "v \<equiv> word_of_nat (d + total cs + 8) :: u32"
  defines "s2 \<equiv> wr f (word_of_nat b OR KM_CHUNK_FREE) (wr f (word_of_nat b) s)"
  shows "wr (alloc_get_next_desc s2 v) (word_of_nat b OR KM_CHUNK_FREE) s2 =
    alloc_set_free v (wr (word_of_nat (d + total cs + 8 + b)) (word_of_nat b) (wr f (word_of_nat b) s))"
proof -
  let ?D = "d + total cs"
  let ?s' = "wr (word_of_nat (?D + 8 + b)) (word_of_nat b) (wr f (word_of_nat b) s)"
  have b1: "b + 1 < 2 ^ 32" using lim by simp
  have o: "(word_of_nat b OR KM_CHUNK_FREE :: u32) = word_of_nat (b + of_bool True)"
    unfolding KM_CHUNK_FREE_def using chunk_set_word [OF b(1) b1, of False] by simp
  have c2: "cell (mem s2) (?D + 4) = word_of_nat (b + of_bool True)"
    unfolding s2_def f_def wr_fields o using lim by (simp add: cell_upd del: of_nat_add)
  have n2: "alloc_get_next_desc s2 v = word_of_nat (?D + 8 + b)"
    unfolding v_def by (rule size_of_node(2) [OF c2 b(1) b1])
  have c: "cell (mem ?s') (?D + 4) = word_of_nat (b + of_bool False)"
    "cell (mem ?s') (?D + 8 + b) = word_of_nat (b + of_bool False)"
    unfolding f_def wr_fields using lim by (simp_all add: cell_upd del: of_nat_add)
  have "alloc_set_free v ?s' = mark ?D b True ?s'"
    unfolding v_def by (rule set_free_eq [OF c b(1)]) (use lim in simp)
  moreover have "word_of_nat (?D + 8 + b) \<noteq> f"
    unfolding f_def using lim by (subst word_of_nat_eq_iff32) simp_all
  ultimately show ?thesis
    unfolding n2 o unfolding s2_def mark_def o f_def [symmetric] wr_def by (simp add: fun_upd_twist)
qed

text \<open>
  Moving the end to the next multiple of \<open>2 ^ k\<close>: nothing to do, a gap too small for a chunk, which
  is fatal, or a free chunk for the gap.
\<close>

lemma align_end_ok:
  assumes k: "heap_ok s d cs ns" and kk: "3 \<le> k" "k < 32" and lim: "d + total cs + 8 + 2 ^ k + 16 \<le> 2 ^ 32"
  defines "gap \<equiv> aligned_end k (d + total cs + 8) - (d + total cs + 8)"
  shows "gap = 0 \<Longrightarrow> alloc_align_end (2 ^ k) s = Inr s"
    and "gap = 8 \<Longrightarrow> alloc_align_end (2 ^ k) s = Inl Dies"
    and "16 \<le> gap \<Longrightarrow> \<exists>s'. alloc_align_end (2 ^ k) s = Inr s' \<and>
      heap_at s' d (cs @ [(gap - 8, True)]) ((d + total cs + 8) # ns) \<and>
      heap_end s' = word_of_nat (aligned_end k (d + total cs + 8)) \<and> coalesced (cs @ [(gap - 8, True)]) \<and>
      same_env (set_heap_end (heap_end s') s) s' \<and>
      changes (struct_cells d cs \<union> struct_cells d (cs @ [(gap - 8, True)])) (mem s) (mem s')"
    and "gap = 0 \<or> gap = 8 \<or> 16 \<le> gap" and "8 dvd gap"
proof -
  let ?D = "d + total cs" and ?e = "d + total cs + 8" and ?A = "aligned_end k (d + total cs + 8)"
  note k' = heap_okD [OF k] and hd = heap_atD [OF heap_okD(1) [OF k]]
  have A: "?A = ?e + gap" unfolding gap_def using aligned_end_ge [of ?e k] by simp
  have "(8 :: nat) dvd 2 ^ k" using le_imp_power_dvd [OF kk(1), of "2 :: nat"] by simp
  then have "8 dvd ?A" using aligned_end_dvd dvd_trans by blast
  moreover have "8 dvd ?e" using hd(1) seg_dvd [OF hd(4)] by simp
  ultimately show g8: "8 dvd gap" unfolding gap_def by (rule dvd_diff_nat)
  then show "gap = 0 \<or> gap = 8 \<or> 16 \<le> gap" by (elim dvdE) presburger
  have "?A \<le> ?e + (2 ^ k - 1)"
    unfolding aligned_end_def by (metis add_diff_assoc div_times_less_eq_dividend one_le_numeral one_le_power)
  then have small: "?D + gap + 24 \<le> 2 ^ 32" using lim A by linarith
  have fbs: "align (heap_end s) (2 ^ k) - heap_end s = word_of_nat gap"
    unfolding k'(2) by (subst word_aligned_end [OF kk(2)]) (use lim A in simp_all)
  have fit: "(word_of_nat gap :: u32) = word_of_nat n \<longleftrightarrow> gap = n" if "n < 16" for n
    by (rule word_of_nat_eq_iff32) (use small that in simp_all)
  have le: "(word_of_nat gap :: u32) \<le> DESC_SIZE \<longleftrightarrow> gap \<le> 8"
    unfolding DESC_SIZE_def word_le_nat_alt using unat_of_nat32 [of gap] small by simp
  show "alloc_align_end (2 ^ k) s = Inr s" if "gap = 0"
    unfolding alloc_align_end_def Let_def fbs using that by simp
  show "alloc_align_end (2 ^ k) s = Inl Dies" if "gap = 8"
    unfolding alloc_align_end_def Let_def fbs using that le fit [of 0] by simp
  show "\<exists>s'. alloc_align_end (2 ^ k) s = Inr s' \<and> heap_at s' d (cs @ [(gap - 8, True)]) (?e # ns) \<and>
      heap_end s' = word_of_nat ?A \<and> coalesced (cs @ [(gap - 8, True)]) \<and>
      same_env (set_heap_end (heap_end s') s) s' \<and>
      changes (struct_cells d cs \<union> struct_cells d (cs @ [(gap - 8, True)])) (mem s) (mem s')"
    if big: "16 \<le> gap"
  proof -
    let ?b = "gap - 8" and ?v = "word_of_nat ?e :: u32" and ?f = "word_of_nat (?D + 4) :: u32"
    have b: "8 dvd ?b" "8 \<le> ?b" "?D + ?b + 24 \<le> 2 ^ 32" using g8 big small by (auto intro: dvd_diff_nat)
    let ?sb = "wr (word_of_nat (?D + 8 + ?b)) (word_of_nat ?b) (wr ?f (word_of_nat ?b) s)"
    let ?s2 = "wr ?f (word_of_nat ?b OR KM_CHUNK_FREE) (wr ?f (word_of_nat ?b) s)"
    let ?s4 = "alloc_node_add ?v (alloc_set_free ?v ?sb)"
    note ap = append_at [OF k'(1) b]
    have g: "heap_at ?s4 d (cs @ [(?b, True)]) (?e # ns)" "same_env ?sb ?s4"
      "frame d (cs @ [(?b, False)]) (cs @ [(?b, True)]) (mem ?sb) (mem ?s4)"
      using give_ok [of ?sb d cs ?b "[]" ns] ap(1) by simp_all
    have sz: "(word_of_nat gap - DESC_SIZE :: u32) = word_of_nat ?b" using big by (simp add: DESC_SIZE_def)
    have hs: "heap_end (alloc_set_free x t) = heap_end t" for x t
      by (simp add: alloc_set_free_def Let_def)
    have fc: "alloc_get_desc ?v + 4 = ?f"
      unfolding desc_of_node(1) by (rule node_plus)
    have "alloc_align_end (2 ^ k) s = Inr (set_heap_end (heap_end ?s4 + word_of_nat gap) ?s4)"
      unfolding alloc_align_end_def Let_def fbs
      using big le fit [of 0] gap_stores [OF k'(1) b]
      by (simp add: fc sz k'(2) hs del: of_nat_add of_nat_diff)
    moreover have e4: "heap_end ?s4 = ?v" using g(2) k'(2) by (simp add: same_env_def)
    moreover have "?v + word_of_nat gap = (word_of_nat ?A :: u32)" unfolding A by simp
    moreover have "coalesced (cs @ [(?b, True)])"
      using k'(3,5) unfolding coalesced_append by (cases cs rule: rev_cases) (auto simp: coalesced_def)
    moreover have "same_env (set_heap_end (word_of_nat ?A) s) (set_heap_end (word_of_nat ?A) ?s4)"
      using g(2) by (simp add: same_env_def set_heap_end_def)
    moreover have "changes (struct_cells d cs \<union> struct_cells d (cs @ [(?b, True)])) (mem s) (mem ?s4)"
    proof (rule changesI)
      fix a assume a: "a < 2 ^ 32" "a \<notin> struct_cells d cs \<union> struct_cells d (cs @ [(?b, True)])"
      have "struct_cells d (cs @ [(?b, False)]) \<subseteq> struct_cells d (cs @ [(?b, True)])"
        by (auto simp: struct_cells_def)
      then have "a \<notin> struct_cells d (cs @ [(?b, False)])" "a \<notin> struct_cells d (cs @ [(?b, True)])" using a(2) by auto
      then have "cell (mem ?s4) a = cell (mem ?sb) a" using g(3) a(1) by (simp add: frame_def)
      moreover have "cell (mem ?sb) a = cell (mem s) a"
        using a by (intro ap(2)) (auto simp: struct_cells_def)
      ultimately show "cell (mem ?s4) a = cell (mem s) a" by simp
    qed
    ultimately show ?thesis using g(1) unfolding heap_at_def by auto
  qed
qed

section \<open>The aligned block\<close>

definition gap_of :: "nat \<Rightarrow> nat \<Rightarrow> nat" where
  "gap_of k e = aligned_end k e - e"

text \<open>The heap after its end is aligned: the gap, if any, is a free chunk at the head of the free list.\<close>

definition gap_chunks :: "nat \<Rightarrow> nat \<Rightarrow> chunk list \<Rightarrow> chunk list" where
  "gap_chunks k d cs =
     (let gap = gap_of k (d + total cs + 8) in if gap = 0 then cs else cs @ [(gap - 8, True)])"

definition gap_nodes :: "nat \<Rightarrow> nat \<Rightarrow> chunk list \<Rightarrow> nat list \<Rightarrow> nat list" where
  "gap_nodes k d cs ns = (if gap_of k (d + total cs + 8) = 0 then ns else (d + total cs + 8) # ns)"

lemma gap_blocks [simp]: "blocks d (gap_chunks k d cs) = blocks d cs"
  by (simp add: gap_chunks_def Let_def)

lemma tables_cong:
  assumes "page_table_lookup t = page_table_lookup s"
  shows "tables_apart t d cs ps b = tables_apart s d cs ps b" and "table_cells t d cs b = table_cells s d cs b"
  unfolding tables_apart_def table_cells_def entry_cell_cong [OF assms] by (rule refl)+

lemma align_end_cases:
  assumes k: "heap_ok s d cs ns" and pool: "pool_ok s d cs ps" and kk: "3 \<le> k" "k < 32"
    and lim: "d + total cs + 8 + 2 ^ k + 16 \<le> 2 ^ 32"
  shows "if gap_of k (d + total cs + 8) = 8 then alloc_align_end (2 ^ k) s = Inl Dies
    else \<exists>s'. alloc_align_end (2 ^ k) s = Inr s' \<and> heap_at s' d (gap_chunks k d cs) (gap_nodes k d cs ns) \<and>
      heap_end s' = word_of_nat (aligned_end k (d + total cs + 8)) \<and>
      d + total (gap_chunks k d cs) + 8 = aligned_end k (d + total cs + 8) \<and> coalesced (gap_chunks k d cs) \<and>
      (gap_chunks k d cs \<noteq> [] \<and> \<not> snd (last (gap_chunks k d cs)) \<longrightarrow>
         cell (mem s') (d + total (gap_chunks k d cs) + 4) AND 1 = 0) \<and>
      pool_ok s' d (gap_chunks k d cs) ps \<and> alloc_frame {} d s cs s' (gap_chunks k d cs) \<and>
      get_page_first_run s' = get_page_first_run s \<and> (\<forall>fs. takes 0 fs s ps fs s' ps)"
proof -
  note a = align_end_ok [OF k kk lim, folded gap_of_def]
  have A: "aligned_end k (d + total cs + 8) = d + total cs + 8 + gap_of k (d + total cs + 8)"
    unfolding gap_of_def using aligned_end_ge [of "d + total cs + 8" k] by simp
  note k' = heap_okD [OF k]
  consider "gap_of k (d + total cs + 8) = 0" | "gap_of k (d + total cs + 8) = 8" | "16 \<le> gap_of k (d + total cs + 8)"
    using a(4) by argo
  then show ?thesis
  proof cases
    case 1
    have e: "gap_chunks k d cs = cs" "gap_nodes k d cs ns = ns" using 1 by (simp_all add: gap_chunks_def gap_nodes_def)
    have "alloc_frame {} d s cs s cs" by (simp add: alloc_frame_def)
    then show ?thesis unfolding e using a(1) [OF 1] k' A 1 pool by (simp add: takes_0)
  next
    case 2
    then show ?thesis using a(2) by simp
  next
    case 3
    let ?cs = "gap_chunks k d cs"
    have e: "?cs = cs @ [(gap_of k (d + total cs + 8) - 8, True)]" "gap_nodes k d cs ns = (d + total cs + 8) # ns"
      using 3 by (simp_all add: gap_chunks_def gap_nodes_def Let_def)
    obtain s' where s': "alloc_align_end (2 ^ k) s = Inr s'" "heap_at s' d ?cs (gap_nodes k d cs ns)"
        "heap_end s' = word_of_nat (aligned_end k (d + total cs + 8))" "coalesced ?cs"
        "same_env (set_heap_end (heap_end s') s) s'" "changes (struct_cells d cs \<union> struct_cells d ?cs) (mem s) (mem s')"
      using a(3) [OF 3] unfolding e [symmetric] by blast
    note hd = heap_atD [OF k'(1)] and hd' = heap_atD [OF s'(2)]
    have c: "changes (struct_cells d cs \<union> struct_cells d ?cs \<union> {}) (mem s) (mem s')" using s'(6) by simp
    have kp: "keeps {} (set (blocks d cs)) (mem s) (mem s')"
      by (rule changes_keeps [OF c hd(4) hd'(4)]) (use hd(3) in \<open>simp_all add: e(1)\<close>)
    have pb: "pool_blocks (set ps) \<subseteq> set (blocks d cs)" using pool by (simp add: pool_ok_def)
    have "page_free_list s' = page_free_list s" using s'(5) by (simp add: same_env_def)
    then have po: "pool_ok s' d ?cs ps"
      by (rule pool_ok_keeps [OF pool keeps_mono [OF kp subset_refl pb]]) (use pb in simp)
    have "struct_cells d cs \<union> struct_cells d ?cs \<union> {} \<subseteq> heap_area d ?cs \<union> {}"
    proof -
      have "heap_area d cs \<subseteq> heap_area d ?cs" by (simp add: heap_area_def e(1))
      then show ?thesis using struct_area [OF hd(4)] struct_area [OF hd'(4)] by blast
    qed
    from changes_trans [OF c changes_refl this empty_subsetI]
    have "alloc_frame {} d s cs s' ?cs"
      using s'(5) kp by (simp add: alloc_frame_def same_env_def page_env_def set_heap_end_def)
    moreover have "cell (mem s') p = cell (mem s) p" if "p \<in> set ps" for p
      by (rule keepsD [OF kp, of p 8]) (use pool_okD(3) [OF pool that] in simp_all)
    then have "takes 0 fs s ps fs s' ps" for fs using s'(5) by (intro takes_0) (simp_all add: same_env_def set_heap_end_def)
    moreover have "get_page_first_run s' = get_page_first_run s" using s'(5) by (simp add: same_env_def set_heap_end_def)
    ultimately show ?thesis using s'(1-4) po A 3 by (simp add: e)
  qed
qed

lemma alloc_frame_trans:
  assumes "alloc_frame T d s cs s1 cs1" and "alloc_frame T' d s1 cs1 s2 cs2" and "blocks d cs1 = blocks d cs"
    and "total cs1 \<le> total cs2"
  shows "alloc_frame (T \<union> T') d s cs s2 cs2"
proof -
  note a = alloc_frameD [OF assms(1)] and b = alloc_frameD [OF assms(2)]
  have "heap_area d cs1 \<subseteq> heap_area d cs2" using assms(4) by (simp add: heap_area_def)
  then have "changes (heap_area d cs2 \<union> (T \<union> T')) (mem s) (mem s2)"
    by (intro changes_trans [OF a(2) b(2)]) auto
  moreover have "keeps (T \<union> T') (set (blocks d cs) \<inter> set (blocks d cs2)) (mem s) (mem s2)"
    by (rule keeps_trans [OF keeps_mono [OF a(3)] keeps_mono [OF b(3)]]) (use assms(3) in auto)
  ultimately show ?thesis using page_env_trans [OF a(1) b(1)] by (simp add: alloc_frame_def)
qed

context page_source begin

lemma alloc_aligned_ok:
  assumes k: "heap_ok s d cs ns" and pool: "pool_ok s d cs ps" and kk: "3 < k" "k < 32" and req: "unat bytes + 8 \<le> 2 ^ 32"
    and lim: "d + total cs + 8 + 2 ^ k + rounded (unat bytes) + 16 + 4096 \<le> 2 ^ 32"
    and ta: "tables_apart s d (gap_chunks k d cs) ps (rounded (unat bytes))"
  shows "if gap_of k (d + total cs + 8) = 8 then alloc get_page (2 ^ k) bytes s = Inl Dies
    else \<exists>s' cs1 ns' ps'. alloc get_page (2 ^ k) bytes s = Inr (word_of_nat (aligned_end k (d + total cs + 8)), s') \<and>
      heap_ok s' d (cs1 @ [(rounded (unat bytes), False)]) ns' \<and> pool_ok s' d (cs1 @ [(rounded (unat bytes), False)]) ps' \<and>
      shed d (gap_chunks k d cs) ps cs1 ps' \<and>
      gets_pages (own s) s ps (own s') s' ps' (aligned_end k (d + total cs + 8)) (rounded (unat bytes)) \<and>
      alloc_frame (table_cells s d (gap_chunks k d cs) (rounded (unat bytes))) d s cs s' (cs1 @ [(rounded (unat bytes), False)])"
proof -
  let ?b = "rounded (unat bytes)" and ?e = "d + total cs + 8" and ?A = "aligned_end k (d + total cs + 8)"
  let ?cs = "gap_chunks k d cs"
  have lim': "d + total cs + 8 + 2 ^ k + 16 \<le> 2 ^ 32" using lim by simp
  have k3: "3 \<le> k" using kk(1) by simp
  note c = align_end_cases [OF k pool k3 kk(2) lim']
  have "(2 :: nat) ^ 3 < 2 ^ k" using kk(1) by (intro power_strict_increasing) simp_all
  moreover have "unat (2 ^ k :: u32) = 2 ^ k"
    using kk(2) by transfer simp
  ultimately have "unat (2 ^ k :: u32) \<noteq> unat (8 :: u32)" by simp
  then have "(2 ^ k :: u32) \<noteq> KM_MIN_ALLOC_SIZE" unfolding KM_MIN_ALLOC_SIZE_def by metis
  then have al: "alloc get_page (2 ^ k) bytes s = alloc_extend get_page (2 ^ k) (word_of_nat ?b) s"
    unfolding alloc_def Let_def request_word [OF req] by simp
  show ?thesis
  proof (cases "gap_of k ?e = 8")
    case True
    then show ?thesis using c unfolding al alloc_extend_def by simp
  next
    case False
    then obtain s1 where s1: "alloc_align_end (2 ^ k) s = Inr s1" "heap_at s1 d ?cs (gap_nodes k d cs ns)"
        "heap_end s1 = word_of_nat ?A" "d + total ?cs + 8 = ?A" "coalesced ?cs"
        "?cs \<noteq> [] \<and> \<not> snd (last ?cs) \<longrightarrow> cell (mem s1) (d + total ?cs + 4) AND 1 = 0"
        "pool_ok s1 d ?cs ps" "alloc_frame {} d s cs s1 ?cs"
        "get_page_first_run s1 = get_page_first_run s" "\<And>fs. takes 0 fs s ps fs s1 ps"
      using c by auto
    have o1: "own s1 = own s" by (rule own_cong [OF s1(9)])
    have f1: "frame_of (own s) s1 ps = frame_of (own s) s ps"
      using takesD(1) [OF s1(10) [of "own s"]] by (simp add: fun_eq_iff)
    have lk: "page_table_lookup s1 = page_table_lookup s" using alloc_frameD(1) [OF s1(8)] by (simp add: page_env_def)
    have A: "?A \<le> ?e + (2 ^ k - 1)"
      unfolding aligned_end_def by (metis add_diff_assoc div_times_less_eq_dividend one_le_numeral one_le_power)
    have lim2: "d + total ?cs + ?b + 16 + 4096 \<le> 2 ^ 32" using s1(4) A lim by linarith
    have ta1: "tables_apart s1 d ?cs ps ?b" using ta by (simp add: tables_cong(1) [OF lk])
    have he: "heap_end s1 = word_of_nat (d + total ?cs + 8)" using s1(3,4) by metis
    obtain s' cs1 ns' ps' where s': "alloc_extend get_page (2 ^ k) (word_of_nat ?b) s = Inr (word_of_nat ?A, s')"
        "heap_ok s' d (cs1 @ [(?b, False)]) ns'" "pool_ok s' d (cs1 @ [(?b, False)]) ps'" "shed d ?cs ps cs1 ps'"
        "gets_pages (own s1) s1 ps (own s') s' ps' ?A ?b"
        "alloc_frame (table_cells s1 d ?cs ?b) d s1 ?cs s' (cs1 @ [(?b, False)])"
      using grow_ok [OF s1(1,2) he s1(5-7) rounded_dvd(1,2) lim2 ta1] unfolding s1(4) by blast
    have "total ?cs \<le> total (cs1 @ [(?b, False)])" using s'(4) by (simp add: shed_def)
    from alloc_frame_trans [OF s1(8) s'(6) gap_blocks this]
    have "alloc_frame (table_cells s d ?cs ?b) d s cs s' (cs1 @ [(?b, False)])" by (simp add: tables_cong(2) [OF lk])
    moreover have "gets_pages (own s) s ps (own s') s' ps' ?A ?b"
      using s'(5) unfolding gets_pages_def takes_def o1 f1 s1(9) .
    ultimately show ?thesis using s'(1-4) False unfolding al by auto
  qed
qed

end

text \<open>For the clients exactly the new block is added.\<close>

lemma aligned_clients:
  assumes "shed d (gap_chunks k d cs) ps cs1 ps'" and "pool_ok s d cs ps"
  shows "clients d (cs1 @ [(b, False)]) ps' = insert (d + total (gap_chunks k d cs) + 8, b) (clients d cs ps)"
proof -
  have "clients d cs1 ps' = clients d cs ps"
    using shed_clients [OF assms(1)] unfolding clients_def gap_blocks by simp
  moreover have "d + total (gap_chunks k d cs) + 8 \<notin> set ps'"
  proof
    assume "d + total (gap_chunks k d cs) + 8 \<in> set ps'"
    then have "(d + total (gap_chunks k d cs) + 8, 8) \<in> set (blocks d cs)"
      using assms pool_okD(3) by (auto simp: shed_def)
    then show False using blocks_range [of _ 8 d cs] by (fastforce simp: gap_chunks_def Let_def split: if_splits)
  qed
  moreover have "total cs1 = total (gap_chunks k d cs)" using assms(1) by (simp add: shed_def)
  ultimately show ?thesis by (simp add: clients_def pool_blocks_iff insert_Diff_if)
qed

end
