(* ===== verification/Heap_Properties.thy ===== *)
theory Heap_Properties
  imports Heap_Aligned
begin

text \<open>
  What is shown of the kernel heap, with the concrete heaps that instantiate it: an empty heap, one
  with two blocks in use, one whose first chunk is free, and one with a page on the free page list.
\<close>

section \<open>Concrete heaps\<close>

definition demo :: "(u32 \<Rightarrow> u32) \<Rightarrow> u32 \<Rightarrow> u32 \<Rightarrow> kstate" where
  "demo m free e = \<lparr>mem = m, page_dir = (\<lambda>_. 0), page_table_lookup = (\<lambda>_. 0)(0x301 := 0xC0400000),
     kernel_heap_end_pma = 0x200000, kernel_heap_end_vma = 0xC0401000, page_free_list = 0,
     kernel_ctxt = \<lparr>ac_free_list = free, ac_start = 0xC0401000, ac_end = e\<rparr>, get_page_first_run = True\<rparr>"

definition demo_empty :: kstate where
  "demo_empty = demo (\<lambda>_. 0) 0 0xC0401008"

definition demo_used :: kstate where
  "demo_used = demo ((\<lambda>_. 0)(0xC0401004 := 16, 0xC0401018 := 16, 0xC040101C := 24, 0xC0401038 := 24)) 0 0xC0401040"

definition demo_free :: kstate where
  "demo_free = demo ((\<lambda>_. 0)(0xC0401004 := 17, 0xC0401018 := 17, 0xC040101C := 24, 0xC0401038 := 24)) 0xC0401008 0xC0401040"

text \<open>The block of 8 bytes is the node of frame \<open>0x300000\<close>.\<close>

definition demo_pool :: kstate where
  "demo_pool = (demo ((\<lambda>_. 0)(0xC0401004 := 8, 0xC0401010 := 8, 0xC0401014 := 24, 0xC0401030 := 24, 0xC0401008 := 0x300000))
     0 0xC0401038)\<lparr>page_free_list := 0xC0401008\<rparr>"

abbreviation demo_base :: nat where "demo_base \<equiv> 0xC0401000"

lemmas demo_eval = demo_def heap_ok_def heap_at_def coalesced_def cell_def

lemma demo_heaps:
  "heap_ok demo_empty demo_base [] []"
  "heap_ok demo_used demo_base [(16, False), (24, False)] []"
  "heap_ok demo_free demo_base [(16, True), (24, False)] [demo_base + 8]"
  "heap_ok demo_pool demo_base [(8, False), (24, False)] []"
  by (simp_all add: demo_eval demo_empty_def demo_used_def demo_free_def demo_pool_def)

lemma demo_pools:
  "pool_ok demo_empty d cs []" "pool_ok demo_used d cs []" "pool_ok demo_free d cs []"
  "pool_ok demo_pool demo_base [(8, False), (24, False)] [demo_base + 8]"
  by (simp_all add: demo_empty_def demo_used_def demo_free_def demo_def)
    (simp add: demo_pool_def demo_def pool_ok_def cell_def)

lemmas table_eval = rounded_def tables_apart_def pages_needed_def page_at_def struct_cells_def entry_cell_def
  entry_addr_def page_get_table_def page_get_dir_idx_def page_get_table_idx_def demo_def

lemma two_pages: "(\<forall>i<2. P i) = (P 0 \<and> P (Suc 0))" for P :: "nat \<Rightarrow> bool"
  by (auto simp: numeral_2_eq_2 less_Suc_eq)

lemma demo_rooms:
  "room demo_empty demo_base [] [] 5000" "room demo_free demo_base [(16, True), (24, False)] [] 12"
  "room demo_pool demo_base [(8, False), (24, False)] [demo_base + 8] 5000"
  by (simp_all add: room_def table_eval demo_empty_def demo_free_def demo_pool_def)

section \<open>Allocation\<close>

text \<open>C4. Safety of \<open>kmalloc\<close>: whenever the heap is well formed and has room, the call returns an
  8-aligned, non-null block of at least the requested size that overlaps no client's block nor its
  descriptors; exactly it is added to the clients' blocks, which keep their contents, and the heap and
  the free page list stay well formed.  This holds whether or not pages are taken off the free page
  list, each of which frees a block of the same heap in the middle of the call.\<close>

theorem kmalloc_returns_fresh_block:
  assumes "heap_ok s d cs ns" and "pool_ok s d cs ps" and "room s d cs ps bytes"
  shows "\<exists>n s' cs' ns' ps'. kmalloc (Suc depth) bytes s = Inr (word_of_nat n, s') \<and> heap_ok s' d cs' ns' \<and>
    pool_ok s' d cs' ps' \<and> set ps' \<subseteq> set ps \<and>
    8 dvd n \<and> 0 < n \<and> unat bytes \<le> rounded (unat bytes) \<and> n + rounded (unat bytes) + 8 \<le> 2 ^ 32 \<and>
    clients d cs' ps' = insert (n, rounded (unat bytes)) (clients d cs ps) \<and>
    (\<forall>(k, c)\<in>clients d cs ps. n + rounded (unat bytes) + 8 \<le> k \<or> k + c + 8 \<le> n) \<and>
    keeps (table_cells s d cs (rounded (unat bytes))) (clients d cs ps) (mem s) (mem s')"
  using kmalloc_block [OF assms] rounded_dvd(3) by blast

theorem kmalloc_returns_fresh_block_witness:
  "\<exists>n s' cs' ns' ps'. kmalloc (Suc 0) 5000 demo_pool = Inr (word_of_nat n, s') \<and> heap_ok s' demo_base cs' ns' \<and>
    pool_ok s' demo_base cs' ps' \<and> set ps' \<subseteq> set [demo_base + 8] \<and>
    8 dvd n \<and> 0 < n \<and> unat (5000 :: u32) \<le> rounded (unat (5000 :: u32)) \<and> n + rounded (unat (5000 :: u32)) + 8 \<le> 2 ^ 32 \<and>
    clients demo_base cs' ps' = insert (n, rounded (unat (5000 :: u32))) (clients demo_base [(8, False), (24, False)] [demo_base + 8]) \<and>
    (\<forall>(k, c)\<in>clients demo_base [(8, False), (24, False)] [demo_base + 8].
       n + rounded (unat (5000 :: u32)) + 8 \<le> k \<or> k + c + 8 \<le> n) \<and>
    keeps (table_cells demo_pool demo_base [(8, False), (24, False)] (rounded (unat (5000 :: u32))))
      (clients demo_base [(8, False), (24, False)] [demo_base + 8]) (mem demo_pool) (mem s')"
  by (rule kmalloc_returns_fresh_block [OF demo_heaps(4) demo_pools(4) demo_rooms(3)])

text \<open>C16. Refinement: \<open>kmalloc\<close> serves a request the way the abstract heap \<open>grants\<close> it.  A free chunk of
  the exact size or one large enough to split is reused, and the heap grows only when there is
  neither.  Then the pages under the new block are mapped to the next frames of the supply, those on the
  free page list in their order and after them the ones after the kernel's heap, and exactly these are
  gone from the supply; otherwise no frame is.\<close>

theorem kmalloc_refines_grants:
  assumes "heap_ok s d cs ns" and "pool_ok s d cs ps" and "room s d cs ps bytes"
  shows "\<exists>n s' cs' ns' ps'. kmalloc (Suc depth) bytes s = Inr (word_of_nat n, s') \<and>
    grants d cs ps (rounded (unat bytes)) n cs' ps' \<and> heap_ok s' d cs' ns' \<and> pool_ok s' d cs' ps' \<and>
    (if n = d + total cs + 8 then gets_pages [] s ps [] s' ps' n (rounded (unat bytes)) else takes 0 [] s ps [] s' ps')"
  using kmalloc_grants [OF assms, of depth] by blast

theorem kmalloc_refines_grants_witness:
  "\<exists>n s' cs' ns' ps'. kmalloc (Suc 0) 5000 demo_empty = Inr (word_of_nat n, s') \<and>
    grants demo_base [] [] (rounded (unat (5000 :: u32))) n cs' ps' \<and> heap_ok s' demo_base cs' ns' \<and> pool_ok s' demo_base cs' ps' \<and>
    (if n = demo_base + total [] + 8 then gets_pages [] demo_empty [] [] s' ps' n (rounded (unat (5000 :: u32)))
     else takes 0 [] demo_empty [] [] s' ps')"
  by (rule kmalloc_refines_grants [OF demo_heaps(1) demo_pools(1) demo_rooms(1)])



text \<open>A new heap: \<open>kmalloc_init\<close> gives a well formed heap without blocks, starting at the next
  8-aligned address.\<close>

lemma kmalloc_init_correct:
  assumes "page_free_list s = 0" and "unat start + 32 \<le> 2 ^ 32" and "0 < unat start"
  shows "\<exists>s'. kmalloc_init depth start s = Inr s' \<and> heap_ok s' ((unat start + 7) div 8 * 8) [] [] \<and>
    page_free_list s' = 0 \<and> ac_start (kernel_ctxt s') = start"
  by (rule kmalloc_init_ok [OF assms])

lemma kmalloc_init_correct_instance:
  "\<exists>s'. kmalloc_init 0 0xC0401000 demo_empty = Inr s' \<and> heap_ok s' ((unat (0xC0401000 :: u32) + 7) div 8 * 8) [] [] \<and>
    page_free_list s' = 0 \<and> ac_start (kernel_ctxt s') = 0xC0401000"
  by (rule kmalloc_init_correct) (simp_all add: demo_empty_def demo_def)

section \<open>Freeing and writing\<close>

text \<open>C5. \<open>kfree\<close> of a live block that gives no page back: the heap stays well formed and fully
  coalesced, exactly that block leaves the live blocks, and the others keep their contents.\<close>

theorem kfree_frees_one_block:
  assumes "heap_ok s d (xs @ (a, False) # ys) ns" and "pool_ok s d (xs @ (a, False) # ys) ps" and "d + total xs + 8 \<notin> set ps"
    and "freed xs a ys = fst (absorb_prev xs (fst (absorb_next a ys))) \<Longrightarrow>
      heap_end s AND NOT 0xfff < (word_of_nat (d + total (freed xs a ys) + 8) :: u32)"
  shows "\<exists>s' ns'. kfree depth (word_of_nat (d + total xs + 8)) s = Inr s' \<and> heap_ok s' d (freed xs a ys) ns' \<and>
    pool_ok s' d (freed xs a ys) ps \<and> coalesced (freed xs a ys) \<and>
    clients d (freed xs a ys) ps = clients d (xs @ (a, False) # ys) ps - {(d + total xs + 8, a)} \<and>
    keeps {} (set (blocks d (freed xs a ys))) (mem s) (mem s')"
proof -
  obtain s' ns' where "kfree depth (word_of_nat (d + total xs + 8)) s = Inr s'" "heap_ok s' d (freed xs a ys) ns'"
      "pool_ok s' d (freed xs a ys) ps"
      "clients d (freed xs a ys) ps = clients d (xs @ (a, False) # ys) ps - {(d + total xs + 8, a)}"
      "keeps {} (set (blocks d (freed xs a ys))) (mem s) (mem s')"
    using kfree_block [OF assms] by blast
  then show ?thesis using heap_okD(3) by blast
qed

theorem kfree_frees_one_block_witness:
  "\<exists>s' ns'. kfree 0 (word_of_nat (demo_base + total [] + 8)) demo_used = Inr s' \<and> heap_ok s' demo_base (freed [] 16 [(24, False)]) ns' \<and>
    pool_ok s' demo_base (freed [] 16 [(24, False)]) [] \<and> coalesced (freed [] 16 [(24, False)]) \<and>
    clients demo_base (freed [] 16 [(24, False)]) [] =
      clients demo_base ([] @ (16, False) # [(24, False)]) [] - {(demo_base + total [] + 8, 16)} \<and>
    keeps {} (set (blocks demo_base (freed [] 16 [(24, False)]))) (mem demo_used) (mem s')"
proof (rule kfree_frees_one_block)
  show "heap_ok demo_used demo_base ([] @ (16, False) # [(24, False)]) []"
    unfolding append_Nil by (rule demo_heaps(2))
  show "pool_ok demo_used demo_base ([] @ (16, False) # [(24, False)]) []" by (rule demo_pools(2))
  have "freed [] 16 [(24, False)] = [(16, True), (24, False)]" "fst (absorb_prev [] (fst (absorb_next 16 [(24, False)]))) = []"
    by (simp_all add: freed_def absorb_prev_def)
  then have ne: "freed [] 16 [(24, False)] \<noteq> fst (absorb_prev [] (fst (absorb_next 16 [(24, False)])))" by simp
  assume "freed [] 16 [(24, False)] = fst (absorb_prev [] (fst (absorb_next 16 [(24, False)])))"
  with ne show "heap_end demo_used AND NOT 0xfff < (word_of_nat (demo_base + total (freed [] 16 [(24, False)]) + 8) :: u32)"
    by (rule notE)
qed simp



text \<open>C28. Giving back pages breaks the free page list: after \<open>kfree\<close> of the last block across a page
  boundary, the list's head is a node in the page that was just unmapped, so the next \<open>page_new\<close>
  reads an address that is not present.\<close>

definition freed_page :: "kerror + kstate" where
  "freed_page = rbind (rbind (kmalloc_init 0 0xC0401000 (demo (\<lambda>_. 0) 0 0)) (kmalloc 0 4080)) (\<lambda>(p, s). kfree 0 p s)"


text \<open>C17. Round trip: a request served from the free list and given back at once leaves the same live
  blocks, with their contents, in a well formed heap.\<close>

theorem kmalloc_kfree_roundtrip:
  assumes "heap_ok s d cs ns" and "pool_ok s d cs ps" and "room s d cs ps bytes"
    and "(sz, True) \<in> set cs" and "sz = rounded (unat bytes) \<or> rounded (unat bytes) + 8 < sz"
  shows "\<exists>p s1 s2 cs2 ns2. kmalloc (Suc depth) bytes s = Inr (p, s1) \<and> kfree (Suc depth) p s1 = Inr s2 \<and>
    heap_ok s2 d cs2 ns2 \<and> pool_ok s2 d cs2 ps \<and> set (blocks d cs2) = set (blocks d cs) \<and>
    keeps (table_cells s d cs (rounded (unat bytes))) (set (blocks d cs)) (mem s) (mem s2)"
  by (rule kmalloc_kfree [OF assms])

theorem kmalloc_kfree_roundtrip_witness:
  "\<exists>p s1 s2 cs2 ns2. kmalloc (Suc 0) 12 demo_free = Inr (p, s1) \<and> kfree (Suc 0) p s1 = Inr s2 \<and>
    heap_ok s2 demo_base cs2 ns2 \<and> pool_ok s2 demo_base cs2 [] \<and>
    set (blocks demo_base cs2) = set (blocks demo_base [(16, True), (24, False)]) \<and>
    keeps (table_cells demo_free demo_base [(16, True), (24, False)] (rounded (unat (12 :: u32))))
      (set (blocks demo_base [(16, True), (24, False)])) (mem demo_free) (mem s2)"
  by (rule kmalloc_kfree_roundtrip [OF demo_heaps(3) demo_pools(3) demo_rooms(2), of 16]) (simp_all add: rounded_def)



end
