(* ===== verification/Bitfield.thy ===== *)
theory Bitfield
  imports Prelude
begin

text \<open>
  Structs of bit fields.  A layout lists the fields of one machine word in the order of the
  declaration; the i386 ABI allots them from bit 0 up, so the place of a field is the sum of the
  widths before it.  A union of such structs is one word read through several layouts.
\<close>

type_synonym layout = "(string \<times> nat) list"

fun field_span :: "layout \<Rightarrow> string \<Rightarrow> nat \<Rightarrow> (nat \<times> nat) option" where
  "field_span [] f lo = None"
| "field_span ((g, w) # fs) f lo = (if f = g then Some (lo, w) else field_span fs f (lo + w))"

definition layout_width :: "layout \<Rightarrow> nat" where
  "layout_width fs = sum_list (map snd fs)"

definition get_field :: "layout \<Rightarrow> string \<Rightarrow> 'a::len word \<Rightarrow> 'a word" where
  "get_field fs f v =
     (case field_span fs f 0 of None \<Rightarrow> 0 | Some (lo, w) \<Rightarrow> take_bit w (drop_bit lo v))"

definition set_field :: "layout \<Rightarrow> string \<Rightarrow> 'a::len word \<Rightarrow> 'a word \<Rightarrow> 'a word" where
  "set_field fs f x v =
     (case field_span fs f 0 of None \<Rightarrow> v
      | Some (lo, w) \<Rightarrow> (v AND NOT (push_bit lo (mask w))) OR push_bit lo (take_bit w x))"

section \<open>Fields do not overlap\<close>

lemma field_span_range: "field_span fs f lo = Some (a, w) \<Longrightarrow> lo \<le> a \<and> a + w \<le> lo + layout_width fs"
  by (induction fs f lo rule: field_span.induct) (auto simp: layout_width_def split: if_splits)

lemma field_span_disjoint:
  "field_span fs f lo = Some (a, w) \<Longrightarrow> field_span fs g lo = Some (b, v) \<Longrightarrow> f \<noteq> g \<Longrightarrow>
     a + w \<le> b \<or> b + v \<le> a"
proof (induction fs f lo rule: field_span.induct)
  case (2 h u fs f lo)
  then show ?case
    using field_span_range [of fs f "lo + u" a w] field_span_range [of fs g "lo + u" b v]
    by (auto split: if_splits)
qed simp

lemma bit_get_field:
  "field_span fs f 0 = Some (lo, w) \<Longrightarrow>
     bit (get_field fs f (v :: 'a::len word)) n \<longleftrightarrow> n < w \<and> bit v (lo + n)"
  by (auto simp: get_field_def bit_simps dest: bit_imp_le_length)

lemma bit_set_field:
  "field_span fs f 0 = Some (lo, w) \<Longrightarrow> n < LENGTH('a) \<Longrightarrow>
     bit (set_field fs f x (v :: 'a::len word)) n \<longleftrightarrow>
       (if lo \<le> n \<and> n < lo + w then bit x (n - lo) else bit v n)"
  by (auto simp: set_field_def bit_simps)

text \<open>Writing a field and reading it back, and reading another one.\<close>

lemma get_set_field:
  fixes v :: "'a::len word"
  assumes "field_span fs f 0 = Some (lo, w)" and "layout_width fs \<le> LENGTH('a)"
  shows "get_field fs f (set_field fs f x v) = take_bit w x"
proof (rule bit_word_eqI)
  fix n
  have "lo + w \<le> LENGTH('a)" using field_span_range [OF assms(1)] assms(2) by simp
  then show "bit (get_field fs f (set_field fs f x v)) n = bit (take_bit w x) n"
    by (auto simp: bit_get_field [OF assms(1)] bit_set_field [OF assms(1)] bit_take_bit_iff)
qed

lemma get_set_other_field:
  fixes v :: "'a::len word"
  assumes "f \<noteq> g" and "layout_width fs \<le> LENGTH('a)"
  shows "get_field fs g (set_field fs f x v) = get_field fs g v"
proof (cases "field_span fs f 0 = None \<or> field_span fs g 0 = None")
  case True
  then show ?thesis by (auto simp: set_field_def get_field_def split: option.splits)
next
  case False
  then obtain a w b u where s: "field_span fs f 0 = Some (a, w)" "field_span fs g 0 = Some (b, u)" by auto
  have d: "a + w \<le> b \<or> b + u \<le> a" by (rule field_span_disjoint [OF s assms(1)])
  have l: "b + u \<le> LENGTH('a)" using field_span_range [OF s(2)] assms(2) by simp
  show ?thesis
    by (rule bit_word_eqI) (use d l in \<open>auto simp: bit_get_field [OF s(2)] bit_set_field [OF s(1)]\<close>)
qed

end
