(* ===== verification/Cpu.thy ===== *)
theory Cpu
  imports Paging Bitfield
begin

text \<open>
  \<open>asm.h\<close>, \<open>io.h\<close> and the two inline functions of \<open>page.h\<close>: wrappers of single instructions.  The
  processor is a record of the registers they reach, the translation cache, the model specific
  registers and the bytes sent to ports.  Each wrapper does what its instruction does to that record;
  values the compiler chooses, like the place of a local variable, are parameters.
\<close>

section \<open>The processor\<close>

datatype activity = Executing | Halted | Dead

record cpu =
  cr0 :: u32
  cr2 :: u32
  cr3 :: u32
  cr4 :: u32
  esp :: u32
  eflags :: u32
  reg_cs :: u16
  reg_ds :: u16
  reg_es :: u16
  reg_fs :: u16
  reg_gs :: u16
  reg_ss :: u16
  reg_tr :: u16
  gdtr :: u64
  reg_idtr :: u64
  msrs :: "u32 \<Rightarrow> u64"
  tlb :: "u32 \<Rightarrow> u32 option"
  ports :: "(u16 \<times> u8) list"
  activity :: activity

section \<open>Flags\<close>

text \<open>The bit fields of \<open>flags_reg_t\<close>.\<close>

definition flags_reg :: layout where
  "flags_reg = [(''cf'', 1), (''_reserved0'', 1), (''pf'', 1), (''_reserved1'', 1), (''af'', 1), (''_reserved2'', 1),
     (''zf'', 1), (''sf'', 1), (''tf'', 1), (''ief'', 1), (''df'', 1), (''of'', 1), (''iopl'', 2), (''nt'', 1),
     (''_reserved3'', 1), (''rf'', 1), (''vm'', 1), (''ac'', 1), (''vif'', 1), (''vip'', 1), (''id'', 1),
     (''_reserved4'', 10)]"

definition FLAG_IF :: u32 where "FLAG_IF = set_field flags_reg ''ief'' 1 0"
definition FLAG_RF :: u32 where "FLAG_RF = set_field flags_reg ''rf'' 1 0"

lemma flag_bits: "FLAG_IF = push_bit 9 1" "FLAG_RF = push_bit 16 1"
  by code_simp+

text \<open>The flags that \<open>popf\<close> can change at privilege level 0; it clears the resume flag.\<close>

definition POPF_MASK :: u32 where "POPF_MASK = 0x247FD5"

definition cli :: "cpu \<Rightarrow> cpu" where
  "cli c = c\<lparr>eflags := eflags c AND NOT FLAG_IF\<rparr>"

definition sti :: "cpu \<Rightarrow> cpu" where
  "sti c = c\<lparr>eflags := eflags c OR FLAG_IF\<rparr>"

definition halt :: "cpu \<Rightarrow> cpu" where
  "halt c = c\<lparr>activity := Halted\<rparr>"

definition die :: "cpu \<Rightarrow> cpu" where
  "die c = (cli c)\<lparr>activity := Dead\<rparr>"

definition get_flags :: "cpu \<Rightarrow> u32" where
  "get_flags c = eflags c"

definition set_flags :: "u32 \<Rightarrow> cpu \<Rightarrow> cpu" where
  "set_flags v c = c\<lparr>eflags := (eflags c AND NOT POPF_MASK AND NOT FLAG_RF) OR (v AND POPF_MASK)\<rparr>"

section \<open>Control registers and the translation cache\<close>

datatype cpu_fault = Invalid_opcode

definition get_cr0 :: "cpu \<Rightarrow> u32" where "get_cr0 c = cr0 c"
definition get_cr1 :: "cpu \<Rightarrow> cpu_fault + u32" where "get_cr1 c = Inl Invalid_opcode"
definition get_cr2 :: "cpu \<Rightarrow> u32" where "get_cr2 c = cr2 c"
definition get_cr3 :: "cpu \<Rightarrow> u32" where "get_cr3 c = cr3 c"
definition get_cr4 :: "cpu \<Rightarrow> u32" where "get_cr4 c = cr4 c"

text \<open>
  The cache maps page numbers to page table entries.  Loading \<open>cr3\<close> drops every entry but, when
  \<open>cr4\<close> allows global pages (bit 7), the global ones.
\<close>

definition survives_cr3 :: "cpu \<Rightarrow> u32 \<Rightarrow> bool" where
  "survives_cr3 c entry \<longleftrightarrow> bit (cr4 c) 7 \<and> entry AND PAGE_GLOBAL \<noteq> 0"

definition set_cr3 :: "u32 \<Rightarrow> cpu \<Rightarrow> cpu" where
  "set_cr3 v c = c\<lparr>cr3 := v, tlb := (\<lambda>p. case tlb c p of None \<Rightarrow> None
     | Some e \<Rightarrow> if survives_cr3 c e then Some e else None)\<rparr>"

definition page_load_dir :: "u32 \<Rightarrow> cpu \<Rightarrow> cpu" where
  "page_load_dir dir c = set_cr3 dir c"

definition page_enable :: "cpu \<Rightarrow> cpu" where
  "page_enable c = c\<lparr>cr0 := cr0 c OR 0x80000001\<rparr>"

text \<open>
  \<open>invlpg\<close> takes a memory operand and drops the entry of the page that operand lies in.  The operand
  given is the parameter \<open>vma\<close> itself, so the page is that of its stack slot.
\<close>

definition invlpg :: "u32 \<Rightarrow> u32 \<Rightarrow> cpu \<Rightarrow> cpu" where
  "invlpg slot vma c = c\<lparr>tlb := (tlb c)(drop_bit 12 slot := None)\<rparr>"

section \<open>Stack pointer and segment registers\<close>

definition get_sp :: "cpu \<Rightarrow> u32" where "get_sp c = esp c"
definition set_sp :: "u32 \<Rightarrow> cpu \<Rightarrow> cpu" where "set_sp v c = c\<lparr>esp := v\<rparr>"

definition get_cs :: "cpu \<Rightarrow> u16" where "get_cs c = reg_cs c"
definition get_ds :: "cpu \<Rightarrow> u16" where "get_ds c = reg_ds c"
definition get_es :: "cpu \<Rightarrow> u16" where "get_es c = reg_es c"
definition get_fs :: "cpu \<Rightarrow> u16" where "get_fs c = reg_fs c"
definition get_gs :: "cpu \<Rightarrow> u16" where "get_gs c = reg_gs c"
definition get_ss :: "cpu \<Rightarrow> u16" where "get_ss c = reg_ss c"

text \<open>\<open>set_cs\<close> pushes the selector and a return address and returns far; the stack ends as it was.\<close>

definition set_cs :: "u16 \<Rightarrow> cpu \<Rightarrow> cpu" where "set_cs v c = c\<lparr>reg_cs := v\<rparr>"
definition set_ds :: "u16 \<Rightarrow> cpu \<Rightarrow> cpu" where "set_ds v c = c\<lparr>reg_ds := v\<rparr>"
definition set_es :: "u16 \<Rightarrow> cpu \<Rightarrow> cpu" where "set_es v c = c\<lparr>reg_es := v\<rparr>"
definition set_fs :: "u16 \<Rightarrow> cpu \<Rightarrow> cpu" where "set_fs v c = c\<lparr>reg_fs := v\<rparr>"
definition set_gs :: "u16 \<Rightarrow> cpu \<Rightarrow> cpu" where "set_gs v c = c\<lparr>reg_gs := v\<rparr>"
definition set_ss :: "u16 \<Rightarrow> cpu \<Rightarrow> cpu" where "set_ss v c = c\<lparr>reg_ss := v\<rparr>"
definition set_tr :: "u16 \<Rightarrow> cpu \<Rightarrow> cpu" where "set_tr v c = c\<lparr>reg_tr := v\<rparr>"

text \<open>\<open>lgdt\<close> reads the six bytes its operand points to.\<close>

definition load_gdt :: "u64 \<Rightarrow> cpu \<Rightarrow> cpu" where
  "load_gdt selector c = c\<lparr>gdtr := take_bit 48 selector\<rparr>"

definition cpu_reset :: cpu where
  "cpu_reset = \<lparr>cr0 = 0x60000010, cr2 = 0, cr3 = 0, cr4 = 0, esp = 0, eflags = 2, reg_cs = 0, reg_ds = 0,
     reg_es = 0, reg_fs = 0, reg_gs = 0, reg_ss = 0, reg_tr = 0, gdtr = 0, reg_idtr = 0, msrs = (\<lambda>_. 0),
     tlb = (\<lambda>_. None), ports = [], activity = Executing\<rparr>"

section \<open>Model specific registers and ports\<close>

text \<open>
  \<open>get_msr\<close> writes the low half of the 64-bit variable it is given and then ORs the high half into
  it, so the result depends on what the variable held.
\<close>

definition get_msr :: "u64 \<Rightarrow> u32 \<Rightarrow> cpu \<Rightarrow> u64" where
  "get_msr old msr c =
     (let eax = ucast (msrs c msr) :: u32;
          edx = ucast (drop_bit 32 (msrs c msr)) :: u32;
          stored = (old AND NOT 0xffffffff) OR ucast eax
      in stored OR push_bit 32 (ucast edx))"

definition set_msr :: "u64 \<Rightarrow> u32 \<Rightarrow> cpu \<Rightarrow> cpu" where
  "set_msr val msr c =
     (let eax = ucast val :: u32;
          edx = ucast (drop_bit 32 val) :: u32
      in c\<lparr>msrs := (msrs c)(msr := ucast eax OR push_bit 32 (ucast edx))\<rparr>)"

definition outb :: "u16 \<Rightarrow> u8 \<Rightarrow> cpu \<Rightarrow> cpu" where
  "outb port byte c = c\<lparr>ports := ports c @ [(port, byte)]\<rparr>"

definition io_wait :: "cpu \<Rightarrow> cpu" where
  "io_wait c = outb 0x80 0 c"

section \<open>What the wrappers do\<close>

lemma split_64: "(ucast (ucast (v :: u64) :: u32) :: u64) OR push_bit 32 (ucast (ucast (drop_bit 32 v) :: u32)) = v"
  by (rule bit_word_eqI) (auto simp: bit_simps)

lemma get_msr_eq: "get_msr old msr c = msrs c msr OR (old AND NOT (mask 32))"
proof -
  have m: "(0xffffffff :: u64) = mask 32" by (simp add: mask_eq_exp_minus_1)
  have "get_msr old msr c = (old AND NOT (mask 32)) OR
      ((ucast (ucast (msrs c msr) :: u32) :: u64) OR push_bit 32 (ucast (ucast (drop_bit 32 (msrs c msr)) :: u32)))"
    unfolding get_msr_def Let_def m by (simp only: or.assoc)
  then show ?thesis unfolding split_64 by (simp only: or.commute)
qed

lemma set_msr_eq: "msrs (set_msr v msr c) = (msrs c)(msr := v)"
  unfolding set_msr_def Let_def split_64 by simp

lemma get_flags_set: "get_flags (set_flags (get_flags c) c) = get_flags c AND NOT FLAG_RF"
proof -
  have "POPF_MASK AND FLAG_RF = 0" by (simp add: POPF_MASK_def flag_bits)
  then have "\<not> (bit POPF_MASK n \<and> bit FLAG_RF n)" for n
    by (metis bit_and_iff bit_0_eq bot_apply bot_bool_def)
  then show ?thesis
    unfolding get_flags_def set_flags_def by (intro bit_word_eqI) (auto simp: bit_and_iff bit_or_iff bit_not_iff)
qed

end
