(* ===== verification/Gdt.thy ===== *)
theory Gdt
  imports Cpu Bitfield
begin

text \<open>
  \<open>gdt.c\<close> and \<open>gdt.h\<close>: segment descriptors, selectors, the task state segment and the table
  \<open>gdt_init\<close> builds and loads into the processor.
\<close>

section \<open>Constants\<close>

definition SEG_PRIV :: "u16 \<Rightarrow> u16" where "SEG_PRIV x = push_bit 5 (x AND 3)"
definition SEG_PRES :: "u16 \<Rightarrow> u16" where "SEG_PRES x = push_bit 7 x"
definition SEG_AVLS :: "u16 \<Rightarrow> u16" where "SEG_AVLS x = push_bit 12 x"
definition SEG_LONG :: "u16 \<Rightarrow> u16" where "SEG_LONG x = push_bit 13 x"
definition SEG_SIZE :: "u16 \<Rightarrow> u16" where "SEG_SIZE x = push_bit 14 x"
definition SEG_GRAN :: "u16 \<Rightarrow> u16" where "SEG_GRAN x = push_bit 15 x"

definition RING0 :: u16 where "RING0 = 0"
definition RING1 :: u16 where "RING1 = 1"
definition RING2 :: u16 where "RING2 = 2"
definition RING3 :: u16 where "RING3 = 3"

datatype gdt_idx =
    GDT_IDX_NULL | GDT_IDX_CODE_PL0 | GDT_IDX_DATA_PL0 | GDT_IDX_TSS_PL0
  | GDT_IDX_CODE_PL3 | GDT_IDX_DATA_PL3 | GDT_IDX_TSS_PL3

fun gdt_idx_code :: "gdt_idx \<Rightarrow> u16" where
  "gdt_idx_code GDT_IDX_NULL = 0"
| "gdt_idx_code GDT_IDX_CODE_PL0 = 1"
| "gdt_idx_code GDT_IDX_DATA_PL0 = 2"
| "gdt_idx_code GDT_IDX_TSS_PL0 = 3"
| "gdt_idx_code GDT_IDX_CODE_PL3 = 4"
| "gdt_idx_code GDT_IDX_DATA_PL3 = 5"
| "gdt_idx_code GDT_IDX_TSS_PL3 = 6"

definition GDT_IDX_LIMIT :: nat where "GDT_IDX_LIMIT = 7"

definition GDT_SEL_CODE_PL0 :: u16 where "GDT_SEL_CODE_PL0 = push_bit 3 (gdt_idx_code GDT_IDX_CODE_PL0) OR 0"
definition GDT_SEL_DATA_PL0 :: u16 where "GDT_SEL_DATA_PL0 = push_bit 3 (gdt_idx_code GDT_IDX_DATA_PL0) OR 0"
definition GDT_SEL_TSS_PL0 :: u16 where "GDT_SEL_TSS_PL0 = push_bit 3 (gdt_idx_code GDT_IDX_TSS_PL0) OR 0"
definition GDT_SEL_CODE_PL3 :: u16 where "GDT_SEL_CODE_PL3 = push_bit 3 (gdt_idx_code GDT_IDX_CODE_PL3) OR 3"
definition GDT_SEL_DATA_PL3 :: u16 where "GDT_SEL_DATA_PL3 = push_bit 3 (gdt_idx_code GDT_IDX_DATA_PL3) OR 3"
definition GDT_SEL_TSS_PL3 :: u16 where "GDT_SEL_TSS_PL3 = push_bit 3 (gdt_idx_code GDT_IDX_TSS_PL3) OR 3"

datatype seg_type =
    SEG_SYS_TSS_16 | SEG_SYS_LDT | SEG_SYS_TSS_16_B | SEG_SYS_CALL_16 | SEG_SYS_TASK | SEG_SYS_INT_16
  | SEG_SYS_TRAP_16 | SEG_SYS_TSS | SEG_SYS_TSS_B | SEG_SYS_CALL | SEG_SYS_INT | SEG_SYS_TRAP
  | SEG_DATA_R | SEG_DATA_A | SEG_DATA_W | SEG_DATA_WA | SEG_DATA_D | SEG_DATA_DA | SEG_DATA_DW | SEG_DATA_DWA
  | SEG_CODE_X | SEG_CODE_A | SEG_CODE_R | SEG_CODE_RA | SEG_CODE_C | SEG_CODE_CA | SEG_CODE_CR | SEG_CODE_CRA

fun seg_code :: "seg_type \<Rightarrow> u16" where
  "seg_code SEG_SYS_TSS_16 = 1"
| "seg_code SEG_SYS_LDT = 2"
| "seg_code SEG_SYS_TSS_16_B = 3"
| "seg_code SEG_SYS_CALL_16 = 4"
| "seg_code SEG_SYS_TASK = 5"
| "seg_code SEG_SYS_INT_16 = 6"
| "seg_code SEG_SYS_TRAP_16 = 7"
| "seg_code SEG_SYS_TSS = 9"
| "seg_code SEG_SYS_TSS_B = 11"
| "seg_code SEG_SYS_CALL = 12"
| "seg_code SEG_SYS_INT = 14"
| "seg_code SEG_SYS_TRAP = 15"
| "seg_code SEG_DATA_R = 16"
| "seg_code SEG_DATA_A = 17"
| "seg_code SEG_DATA_W = 18"
| "seg_code SEG_DATA_WA = 19"
| "seg_code SEG_DATA_D = 20"
| "seg_code SEG_DATA_DA = 21"
| "seg_code SEG_DATA_DW = 22"
| "seg_code SEG_DATA_DWA = 23"
| "seg_code SEG_CODE_X = 24"
| "seg_code SEG_CODE_A = 25"
| "seg_code SEG_CODE_R = 26"
| "seg_code SEG_CODE_RA = 27"
| "seg_code SEG_CODE_C = 28"
| "seg_code SEG_CODE_CA = 29"
| "seg_code SEG_CODE_CR = 30"
| "seg_code SEG_CODE_CRA = 31"

definition GDT_CODE_PL0 :: u16 where
  "GDT_CODE_PL0 = SEG_PRES 1 OR SEG_AVLS 0 OR SEG_LONG 0 OR SEG_SIZE 1 OR SEG_GRAN 1 OR SEG_PRIV 0 OR seg_code SEG_CODE_R"
definition GDT_DATA_PL0 :: u16 where
  "GDT_DATA_PL0 = SEG_PRES 1 OR SEG_AVLS 0 OR SEG_LONG 0 OR SEG_SIZE 1 OR SEG_GRAN 1 OR SEG_PRIV 0 OR seg_code SEG_DATA_W"
definition GDT_CODE_PL3 :: u16 where
  "GDT_CODE_PL3 = SEG_PRES 1 OR SEG_AVLS 0 OR SEG_LONG 0 OR SEG_SIZE 1 OR SEG_GRAN 1 OR SEG_PRIV 3 OR seg_code SEG_CODE_R"
definition GDT_DATA_PL3 :: u16 where
  "GDT_DATA_PL3 = SEG_PRES 1 OR SEG_AVLS 0 OR SEG_LONG 0 OR SEG_SIZE 1 OR SEG_GRAN 1 OR SEG_PRIV 3 OR seg_code SEG_DATA_W"
definition GDT_TSS_PL0 :: u16 where
  "GDT_TSS_PL0 = SEG_PRES 1 OR SEG_AVLS 0 OR SEG_LONG 0 OR SEG_SIZE 0 OR SEG_GRAN 1 OR SEG_PRIV 0 OR seg_code SEG_SYS_TSS"
definition GDT_TSS_PL3 :: u16 where
  "GDT_TSS_PL3 = SEG_PRES 1 OR SEG_AVLS 0 OR SEG_LONG 0 OR SEG_SIZE 0 OR SEG_GRAN 1 OR SEG_PRIV 3 OR seg_code SEG_SYS_TSS"

section \<open>Descriptors\<close>

text \<open>The upper half is built in the low 32 bits and shifted up; \<^verbatim>\<open>base << 16\<close> is a 32-bit shift.\<close>

definition gdt_descriptor :: "u32 \<Rightarrow> u32 \<Rightarrow> u16 \<Rightarrow> u64" where
  "gdt_descriptor base limit flags =
     (let d0 = ucast (limit AND 0x000f0000) :: u64;
          d1 = d0 OR ucast (push_bit 8 (ucast flags :: u32) AND 0x00f0ff00);
          d2 = d1 OR ucast (drop_bit 16 base AND 0x000000ff);
          d3 = d2 OR ucast (base AND 0xff000000);
          d4 = push_bit 32 d3;
          d5 = d4 OR ucast (limit AND 0x0000ffff)
      in d5 OR ucast (push_bit 16 base))"

section \<open>The task state segment and the table\<close>

text \<open>\<open>tss_t\<close> without its reserved fields.\<close>

record tss =
  tss_prev_task_link :: u16
  tss_esp0 :: u32
  tss_ss0 :: u16
  tss_esp1 :: u32
  tss_ss1 :: u16
  tss_esp2 :: u32
  tss_ss2 :: u16
  tss_cr3 :: u32
  tss_eip :: u32
  tss_eflags :: u32
  tss_eax :: u32
  tss_ecx :: u32
  tss_edx :: u32
  tss_ebx :: u32
  tss_esp :: u32
  tss_ebp :: u32
  tss_esi :: u32
  tss_edi :: u32
  tss_es :: u16
  tss_cs :: u16
  tss_ss :: u16
  tss_ds :: u16
  tss_fs :: u16
  tss_gs :: u16
  tss_ldt_selector :: u16
  tss_T :: "1 word"
  tss_io_map_base :: u16

text \<open>The segment in memory, a cell each; reserved bits are zero, as the initialiser leaves them.\<close>

definition tss_cells :: "tss \<Rightarrow> u32 list" where
  "tss_cells t =
     [ucast (tss_prev_task_link t), tss_esp0 t, ucast (tss_ss0 t), tss_esp1 t, ucast (tss_ss1 t), tss_esp2 t,
      ucast (tss_ss2 t), tss_cr3 t, tss_eip t, tss_eflags t, tss_eax t, tss_ecx t, tss_edx t, tss_ebx t, tss_esp t,
      tss_ebp t, tss_esi t, tss_edi t, ucast (tss_es t), ucast (tss_cs t), ucast (tss_ss t), ucast (tss_ds t),
      ucast (tss_fs t), ucast (tss_gs t), ucast (tss_ldt_selector t),
      ucast (tss_T t) OR push_bit 16 (ucast (tss_io_map_base t))]"

text \<open>\<^verbatim>\<open>TSS = { 0 }\<close>.\<close>

definition tss_zero :: tss where
  "tss_zero = \<lparr>tss_prev_task_link = 0, tss_esp0 = 0, tss_ss0 = 0, tss_esp1 = 0, tss_ss1 = 0, tss_esp2 = 0, tss_ss2 = 0,
     tss_cr3 = 0, tss_eip = 0, tss_eflags = 0, tss_eax = 0, tss_ecx = 0, tss_edx = 0, tss_ebx = 0, tss_esp = 0,
     tss_ebp = 0, tss_esi = 0, tss_edi = 0, tss_es = 0, tss_cs = 0, tss_ss = 0, tss_ds = 0, tss_fs = 0, tss_gs = 0,
     tss_ldt_selector = 0, tss_T = 0, tss_io_map_base = 0\<rparr>"

text \<open>The fields of a selector, the struct of the union \<open>gdt_sel_t\<close>.\<close>

definition selector_fields :: layout where
  "selector_fields = [(''rpl'', 2), (''ti'', 1), (''index'', 13)]"

definition SIZEOF_TSS :: u32 where "SIZEOF_TSS = 104"
definition SIZEOF_GDT :: u64 where "SIZEOF_GDT = 56"

record gdt_state =
  GDT :: "u64 list"
  TSS :: tss
  gdt_sel :: u64
  gdt_cpu :: cpu

definition gdt_set :: "gdt_idx \<Rightarrow> u64 \<Rightarrow> gdt_state \<Rightarrow> gdt_state" where
  "gdt_set i d s = s\<lparr>GDT := (GDT s)[unat (gdt_idx_code i) := d]\<rparr>"

definition gdt_init :: "u32 \<Rightarrow> u32 \<Rightarrow> gdt_state \<Rightarrow> gdt_state" where
  "gdt_init tss_addr gdt_addr s0 =
     (let s1 = gdt_set GDT_IDX_NULL (gdt_descriptor 0 0 0) s0;
          s2 = gdt_set GDT_IDX_CODE_PL0 (gdt_descriptor 0 0xfffff GDT_CODE_PL0) s1;
          s3 = gdt_set GDT_IDX_DATA_PL0 (gdt_descriptor 0 0xfffff GDT_DATA_PL0) s2;
          s4 = gdt_set GDT_IDX_TSS_PL0 (gdt_descriptor tss_addr SIZEOF_TSS GDT_TSS_PL0) s3;
          s5 = gdt_set GDT_IDX_CODE_PL3 (gdt_descriptor 0 0xfffff GDT_CODE_PL3) s4;
          s6 = gdt_set GDT_IDX_DATA_PL3 (gdt_descriptor 0 0xfffff GDT_DATA_PL3) s5;
          s7 = gdt_set GDT_IDX_TSS_PL3 (gdt_descriptor tss_addr SIZEOF_TSS GDT_TSS_PL3) s6;
          s8 = s7\<lparr>TSS := (TSS s7)\<lparr>tss_ss0 := GDT_SEL_DATA_PL0\<rparr>\<rparr>;
          s9 = s8\<lparr>TSS := (TSS s8)\<lparr>tss_esp0 := 0\<rparr>\<rparr>;
          s10 = s9\<lparr>gdt_sel := push_bit 16 (ucast gdt_addr) OR SIZEOF_GDT\<rparr>;
          c1 = load_gdt (gdt_sel s10) (gdt_cpu s10);
          c2 = set_cs GDT_SEL_CODE_PL0 c1;
          c3 = set_ds GDT_SEL_DATA_PL0 c2;
          c4 = set_es GDT_SEL_DATA_PL0 c3;
          c5 = set_fs GDT_SEL_DATA_PL0 c4;
          c6 = set_gs GDT_SEL_DATA_PL0 c5;
          c7 = set_ss GDT_SEL_DATA_PL0 c6
      in s10\<lparr>gdt_cpu := set_tr GDT_SEL_TSS_PL3 c7\<rparr>)"

section \<open>Selectors and the task state segment\<close>

lemma sizeof_tss: "unat SIZEOF_TSS = 4 * length (tss_cells t)"
  by (simp add: SIZEOF_TSS_def tss_cells_def)

text \<open>Where the processor looks for the ring 0 stack on a change of privilege: offsets 4 and 8.\<close>

lemma tss_ring0_stack: "tss_cells t ! 1 = tss_esp0 t" "tss_cells t ! 2 = ucast (tss_ss0 t)"
  by (simp_all add: tss_cells_def)

text \<open>Each selector indexes its descriptor in the GDT, with the privilege level in its name.\<close>

lemma selector_codes:
  "\<forall>(sel, i, level)\<in>set [(GDT_SEL_CODE_PL0, GDT_IDX_CODE_PL0, RING0), (GDT_SEL_DATA_PL0, GDT_IDX_DATA_PL0, RING0),
      (GDT_SEL_TSS_PL0, GDT_IDX_TSS_PL0, RING0), (GDT_SEL_CODE_PL3, GDT_IDX_CODE_PL3, RING3),
      (GDT_SEL_DATA_PL3, GDT_IDX_DATA_PL3, RING3), (GDT_SEL_TSS_PL3, GDT_IDX_TSS_PL3, RING3)].
     get_field selector_fields ''index'' sel = gdt_idx_code i \<and> get_field selector_fields ''ti'' sel = 0 \<and>
     get_field selector_fields ''rpl'' sel = level"
  by code_simp

section \<open>What the processor reads from a descriptor\<close>

text \<open>The fields of a segment descriptor, as the comment of \<open>gdt.h\<close> and the processor manual lay them out.\<close>

definition seg_base :: "u64 \<Rightarrow> u32" where
  "seg_base d = ucast (take_bit 24 (drop_bit 16 d)) OR push_bit 24 (ucast (drop_bit 56 d))"

definition seg_limit :: "u64 \<Rightarrow> u32" where
  "seg_limit d = ucast (take_bit 16 d) OR push_bit 16 (ucast (take_bit 4 (drop_bit 48 d)))"

definition seg_access :: "u64 \<Rightarrow> u8" where
  "seg_access d = ucast (drop_bit 40 d)"

definition seg_flags :: "u64 \<Rightarrow> u8" where
  "seg_flags d = take_bit 4 (ucast (drop_bit 52 d))"

definition seg_present :: "u64 \<Rightarrow> bool" where "seg_present d = bit d 47"
definition seg_dpl :: "u64 \<Rightarrow> u64" where "seg_dpl d = take_bit 2 (drop_bit 45 d)"
definition seg_code_data :: "u64 \<Rightarrow> bool" where "seg_code_data d = bit d 44"
definition seg_executable :: "u64 \<Rightarrow> bool" where "seg_executable d = bit d 43"
definition seg_page_granular :: "u64 \<Rightarrow> bool" where "seg_page_granular d = bit d 55"

lemma gdt_masks:
  "(0x000f0000 :: u32) = push_bit 16 (mask 4)" "(0x000000ff :: u32) = mask 8"
  "(0xff000000 :: u32) = push_bit 24 (mask 8)" "(0x0000ffff :: u32) = mask 16"
  "(0x00f0ff00 :: u32) = push_bit 8 (mask 8) OR push_bit 20 (mask 4)"
  by (simp_all add: mask_eq_exp_minus_1)

text \<open>The bits of a descriptor.\<close>

lemma bit_gdt_descriptor:
  "bit (gdt_descriptor base limit flags) n =
    (if n < 16 then bit limit n
     else if n < 40 then bit base (n - 16)
     else if n < 48 then bit flags (n - 40)
     else if n < 52 then bit limit (n - 32)
     else if n < 56 then bit flags (n - 40)
     else n < 64 \<and> bit base (n - 32))"
proof (cases "n < 32")
  case True
  have "bit (gdt_descriptor base limit flags) n = (n < 16 \<and> bit limit n \<or> 16 \<le> n \<and> bit base (n - 16))"
    unfolding gdt_descriptor_def Let_def gdt_masks using True by (auto simp: bit_simps)
  then show ?thesis using True by simp
next
  case False
  then obtain k where n: "n = 32 + k" using le_Suc_ex [of 32 n] by auto
  have "bit (gdt_descriptor base limit flags) (32 + k) =
      (k < 32 \<and> (16 \<le> k \<and> k < 20 \<and> bit limit k \<or> (8 \<le> k \<and> k < 16 \<or> 20 \<le> k \<and> k < 24) \<and> bit flags (k - 8) \<or>
        k < 8 \<and> bit base (16 + k) \<or> 24 \<le> k \<and> bit base k))"
  proof -
    consider "k < 8" | "8 \<le> k" "k < 16" | "16 \<le> k" "k < 20" | "20 \<le> k" "k < 24" | "24 \<le> k" "k < 32" | "32 \<le> k"
      by linarith
    then show ?thesis
      unfolding gdt_descriptor_def Let_def gdt_masks by cases (simp_all add: bit_simps less_diff_conv2)
  qed
  then show ?thesis unfolding n using bit_imp_le_length [of flags "k - 8"] by auto
qed

lemma gdt_descriptor_base: "seg_base (gdt_descriptor base limit flags) = base"
  by (rule bit_word_eqI) (auto simp: seg_base_def bit_simps bit_gdt_descriptor)

lemma gdt_descriptor_limit: "seg_limit (gdt_descriptor base limit flags) = take_bit 20 limit"
  by (rule bit_word_eqI) (auto simp: seg_limit_def bit_simps bit_gdt_descriptor)

lemma gdt_descriptor_access: "seg_access (gdt_descriptor base limit flags) = ucast flags"
  by (rule bit_word_eqI) (auto simp: seg_access_def bit_simps bit_gdt_descriptor)

lemma gdt_descriptor_flags: "seg_flags (gdt_descriptor base limit flags) = ucast (drop_bit 12 flags)"
  by (rule bit_word_eqI) (auto simp: seg_flags_def bit_simps bit_gdt_descriptor dest: bit_imp_le_length)

end
