(* ===== verification/Proc.thy ===== *)
theory Proc
  imports Alloc Gdt
begin

text \<open>
  \<open>proc.c\<close> and \<open>proc.h\<close>: processes and the scheduler.  The process table is a map from process IDs;
  the queue and the lists of page tables are the linked structures the code keeps in kernel memory.
  A \<open>pid_node_t\<close> has \<open>next\<close> at offset 0 and \<open>pid\<close>, in the low half of its cell, at 4; a
  \<open>proc_page_node_t\<close> has \<open>next\<close>, \<open>page_dir_idx\<close>, \<open>page_table_vma\<close> and \<open>page_dir_entry\<close> at 0, 4, 8 and 12.
\<close>

section \<open>State\<close>

datatype proc_state = PROC_DEAD | PROC_SLEEPING | PROC_ACTIVE | PROC_RUNNING

record proc_ctxt =
  c_ds :: u32
  c_es :: u32
  c_fs :: u32
  c_gs :: u32
  c_eax :: u32
  c_ecx :: u32
  c_edx :: u32
  c_ebx :: u32
  c_ebp :: u32
  c_esi :: u32
  c_edi :: u32
  c_eip :: u32
  c_cs :: u32
  c_eflags :: u32
  c_esp :: u32
  c_ss :: u32

record proc =
  inode_id :: u64
  start_time :: u64
  page_tables :: u32
  state :: proc_state
  ctxt :: proc_ctxt
  exec_count :: u16
  priority :: u16
  ppid :: u16

record pstate =
  kern :: kstate
  proc_table :: "u16 \<Rightarrow> proc"
  proc_num :: u16
  PID :: u16
  proc_queue_start :: u32
  proc_queue_end :: u32
  next_pid :: u16
  TSS_esp0 :: u32

definition set_proc :: "u16 \<Rightarrow> (proc \<Rightarrow> proc) \<Rightarrow> pstate \<Rightarrow> pstate" where
  "set_proc pid f e = e\<lparr>proc_table := (proc_table e)(pid := f (proc_table e pid))\<rparr>"

definition pwr :: "u32 \<Rightarrow> u32 \<Rightarrow> pstate \<Rightarrow> pstate" where
  "pwr a v e = e\<lparr>kern := wr a v (kern e)\<rparr>"

text \<open>The 16-bit field \<open>pid\<close> of a queue node shares its cell with two bytes of padding.\<close>

definition node_pid :: "kstate \<Rightarrow> u32 \<Rightarrow> u16" where
  "node_pid s node = ucast (mem s (node + 4))"

definition set_node_pid :: "u32 \<Rightarrow> u16 \<Rightarrow> kstate \<Rightarrow> kstate" where
  "set_node_pid node pid s = wr (node + 4) ((mem s (node + 4) AND NOT 0xffff) OR ucast pid) s"

section \<open>Contexts\<close>

definition proc_get_pid :: "pstate \<Rightarrow> u16" where
  "proc_get_pid e = PID e"

definition proc_store_ctxt :: "proc_ctxt \<Rightarrow> pstate \<Rightarrow> pstate" where
  "proc_store_ctxt c e = set_proc (PID e) (\<lambda>p. p\<lparr>ctxt := c\<rparr>) e"

definition proc_load_ctxt :: "pstate \<Rightarrow> proc_ctxt" where
  "proc_load_ctxt e = ctxt (proc_table e (PID e))"

definition proc_get_ctxt :: "u16 \<Rightarrow> pstate \<Rightarrow> proc_ctxt" where
  "proc_get_ctxt pid e = ctxt (proc_table e pid)"

section \<open>Memory maps\<close>

partial_function (option) proc_mem_map_loop :: "u32 \<Rightarrow> kstate \<Rightarrow> kstate option" where
  "proc_mem_map_loop n s =
     (if n = 0 then Some s
      else proc_mem_map_loop (mem s n) (page_set_dir_entry (mem s (n + 4)) (mem s (n + 8)) (mem s (n + 12)) s))"

declare proc_mem_map_loop.simps [code]

partial_function (option) proc_mem_unmap_loop :: "u32 \<Rightarrow> kstate \<Rightarrow> kstate option" where
  "proc_mem_unmap_loop n s =
     (if n = 0 then Some s
      else proc_mem_unmap_loop (mem s n) (page_set_dir_entry (mem s (n + 4)) 0 0 s))"

declare proc_mem_unmap_loop.simps [code]

definition proc_mem_map :: "u16 \<Rightarrow> pstate \<Rightarrow> kerror + pstate" where
  "proc_mem_map pid e =
     (case proc_mem_map_loop (page_tables (proc_table e pid)) (kern e) of
        None \<Rightarrow> Inl Endless | Some s \<Rightarrow> Inr (e\<lparr>kern := s\<rparr>))"

definition proc_mem_unmap :: "u16 \<Rightarrow> pstate \<Rightarrow> kerror + pstate" where
  "proc_mem_unmap pid e =
     (case proc_mem_unmap_loop (page_tables (proc_table e pid)) (kern e) of
        None \<Rightarrow> Inl Endless | Some s \<Rightarrow> Inr (e\<lparr>kern := s\<rparr>))"

section \<open>The scheduler\<close>

text \<open>Moving the head of the queue to its end.\<close>

definition proc_rotate :: "pstate \<Rightarrow> pstate" where
  "proc_rotate e =
     (let e1 = pwr (proc_queue_end e) (proc_queue_start e) e;
          e2 = e1\<lparr>proc_queue_end := proc_queue_start e1\<rparr>;
          e3 = e2\<lparr>proc_queue_start := mem (kern e2) (proc_queue_end e2)\<rparr>
      in pwr (proc_queue_end e3) 0 e3)"

definition proc_next :: "pstate \<Rightarrow> kerror + pstate" where
  "proc_next e =
     (let e1 = set_proc (PID e) (\<lambda>p. p\<lparr>exec_count := exec_count p - 1\<rparr>) e in
      if exec_count (proc_table e1 (PID e1)) = 0
      then (let e2 = set_proc (PID e1) (\<lambda>p. p\<lparr>exec_count := priority p\<rparr>) e1;
                e3 = proc_rotate e2;
                e4 = set_proc (PID e3) (\<lambda>p. p\<lparr>state := PROC_ACTIVE\<rparr>) e3
            in rbind (proc_mem_unmap (PID e4) e4) (\<lambda>e5.
                 let e6 = e5\<lparr>PID := node_pid (kern e5) (proc_queue_start e5)\<rparr>
                 in rbind (proc_mem_map (PID e6) e6) (\<lambda>e7.
                      Inr (set_proc (PID e7) (\<lambda>p. p\<lparr>state := PROC_RUNNING\<rparr>) e7))))
      else Inr e1)"

text \<open>
  The timer interrupt: \<open>int_handle_proc_switch\<close> of \<open>int_asm.s\<close> stores the interrupted context, runs
  the scheduler and loads the context of the process it chose.
\<close>

definition int_proc_switch :: "proc_ctxt \<Rightarrow> pstate \<Rightarrow> kerror + (proc_ctxt \<times> pstate)" where
  "int_proc_switch c e =
     rbind (proc_next (proc_store_ctxt c e)) (\<lambda>e'. Inr (proc_load_ctxt e', e'))"

section \<open>Creating processes\<close>

definition proc_pid_taken :: "pstate \<Rightarrow> u16 \<Rightarrow> bool" where
  "proc_pid_taken e pid \<longleftrightarrow> state (proc_table e pid) \<noteq> PROC_DEAD"

partial_function (option) proc_new_pid_loop :: "(u16 \<Rightarrow> bool) \<Rightarrow> u16 \<Rightarrow> u16 option" where
  "proc_new_pid_loop taken pid = (if taken pid then proc_new_pid_loop taken (pid + 1) else Some pid)"

declare proc_new_pid_loop.simps [code]

definition proc_new_pid :: "pstate \<Rightarrow> kerror + (u16 \<times> pstate)" where
  "proc_new_pid e =
     (case proc_new_pid_loop (proc_pid_taken e) (next_pid e) of
        None \<Rightarrow> Inl Endless | Some pid \<Rightarrow> Inr (pid, e\<lparr>next_pid := pid + 1\<rparr>))"

definition with_kern :: "(kstate \<Rightarrow> kerror + ('a \<times> kstate)) \<Rightarrow> pstate \<Rightarrow> kerror + ('a \<times> pstate)" where
  "with_kern f e = rbind (f (kern e)) (\<lambda>(x, s). Inr (x, e\<lparr>kern := s\<rparr>))"

definition proc_page_table_register ::
  "nat \<Rightarrow> u16 \<Rightarrow> u32 \<Rightarrow> u32 \<Rightarrow> u32 \<Rightarrow> pstate \<Rightarrow> kerror + pstate"
where
  "proc_page_table_register depth pid table_vma space_vma flags e =
     rbind (with_kern (kmalloc depth 16) e) (\<lambda>(table_node, e1).
       let e2 = pwr table_node (page_tables (proc_table e1 pid)) e1;
           e3 = pwr (table_node + 4) (drop_bit 22 space_vma) e2;
           e4 = pwr (table_node + 12) (page_get_pma (kern e1) table_vma OR flags) e3;
           e5 = pwr (table_node + 8) table_vma e4
       in Inr (set_proc pid (\<lambda>p. p\<lparr>page_tables := table_node\<rparr>) e5))"

definition proc_page_register :: "u32 \<Rightarrow> u32 \<Rightarrow> u32 \<Rightarrow> pstate \<Rightarrow> pstate" where
  "proc_page_register table_vma vma entry e =
     pwr (table_vma + 4 * (drop_bit 12 vma AND 0x3ff)) entry e"

definition proc_queue_add :: "nat \<Rightarrow> u16 \<Rightarrow> pstate \<Rightarrow> kerror + pstate" where
  "proc_queue_add depth pid e =
     rbind (if proc_queue_end e \<noteq> 0
            then (let old_end = proc_queue_end e in
                  rbind (with_kern (kmalloc depth 8) e) (\<lambda>(n, e1).
                    let e2 = e1\<lparr>proc_queue_end := n\<rparr> in Inr (pwr old_end (proc_queue_end e2) e2)))
            else rbind (with_kern (kmalloc depth 8) e) (\<lambda>(n, e1).
                   let e2 = e1\<lparr>proc_queue_start := n\<rparr> in Inr (e2\<lparr>proc_queue_end := proc_queue_start e2\<rparr>)))
       (\<lambda>e3. let e4 = e3\<lparr>kern := set_node_pid (proc_queue_end e3) pid (kern e3)\<rparr>;
                 e5 = pwr (proc_queue_end e4) 0 e4
             in Inr (e5\<lparr>proc_num := proc_num e5 + 1\<rparr>))"

definition proc_start_ctxt :: "u32 \<Rightarrow> u32 \<Rightarrow> proc_ctxt \<Rightarrow> proc_ctxt" where
  "proc_start_ctxt entry_point kernel_start c =
     c\<lparr>c_eip := entry_point, c_ss := ucast GDT_SEL_DATA_PL3, c_gs := ucast GDT_SEL_DATA_PL3,
       c_fs := ucast GDT_SEL_DATA_PL3, c_es := ucast GDT_SEL_DATA_PL3, c_ds := ucast GDT_SEL_DATA_PL3,
       c_cs := ucast GDT_SEL_CODE_PL3, c_esp := kernel_start, c_eflags := 0x3202\<rparr>"

definition proc_register :: "nat \<Rightarrow> linker \<Rightarrow> u32 \<Rightarrow> u16 \<Rightarrow> pstate \<Rightarrow> kerror + (u16 \<times> pstate)" where
  "proc_register depth l entry_point prio e =
     rbind (proc_new_pid e) (\<lambda>(pid, e1).
       let e2 = set_proc pid (\<lambda>p. p\<lparr>ctxt := proc_start_ctxt entry_point (KERNEL_START_VMA l) (ctxt p)\<rparr>) e1;
           e3 = set_proc pid (\<lambda>p. p\<lparr>state := PROC_ACTIVE, exec_count := prio, priority := prio\<rparr>) e2
       in rbind (with_kern (kalloc (page_new depth) PAGE_SIZE PAGE_SIZE) e3) (\<lambda>(table, e4).
            let stack_page_vma = c_esp (ctxt (proc_table e4 pid)) - PAGE_SIZE;
                user_data_flags = PAGE_PUBLIC OR PAGE_WRITE OR PAGE_PRESENT
            in rbind (proc_page_table_register depth pid table stack_page_vma user_data_flags e4) (\<lambda>e5.
               rbind (with_kern (page_new depth) e5) (\<lambda>(pma, e6).
               rbind (proc_queue_add depth pid (proc_page_register table stack_page_vma (pma OR user_data_flags) e6))
                 (\<lambda>e7. Inr (pid, e7))))))"

text \<open>
  \<open>proc_init\<close>.  The process table is the block the first allocation returns, 65536 entries of 96
  bytes; the entries are kept in the map \<open>proc_table\<close>, with whatever they held before.
\<close>

definition SIZEOF_PROC :: u32 where "SIZEOF_PROC = 96"

text \<open>\<^verbatim>\<open>1 << (sizeof(pid_t) * BITS_PER_BYTE)\<close>, with process IDs of two bytes.\<close>

definition BITS_PER_BYTE :: nat where "BITS_PER_BYTE = 8"
definition PID_MAX :: u32 where "PID_MAX = push_bit (2 * BITS_PER_BYTE) 1"

definition proc_init :: "nat \<Rightarrow> linker \<Rightarrow> u32 \<Rightarrow> u32 \<Rightarrow> u32 \<Rightarrow> pstate \<Rightarrow> kerror + pstate" where
  "proc_init depth l proc1 proc2 proc3 e =
     rbind (with_kern (kmalloc depth (PID_MAX * SIZEOF_PROC)) e) (\<lambda>(table_vma, e1).
       let e2 = e1\<lparr>proc_queue_start := 0, proc_queue_end := 0\<rparr> in
       rbind (with_kern (kalloc (page_new depth) PAGE_SIZE PAGE_SIZE) e2) (\<lambda>(stack_page, e3).
         let e4 = e3\<lparr>TSS_esp0 := stack_page + PAGE_SIZE\<rparr>;
             e5 = set_proc 0 (\<lambda>p. p\<lparr>ppid := 0, state := PROC_RUNNING, exec_count := 1, priority := 10\<rparr>) e4
         in rbind (proc_queue_add depth 0 e5) (\<lambda>e6.
              let e7 = e6\<lparr>proc_num := proc_num e6 - 1\<rparr> in
              rbind (proc_register depth l proc1 30 e7) (\<lambda>(_, e8).
              rbind (proc_register depth l proc2 10 e8) (\<lambda>(_, e9).
              rbind (proc_register depth l proc3 10 e9) (\<lambda>(_, e10). Inr e10))))))"

text \<open>\<open>proc_dump_queue\<close> prints one line per node; these are the IDs it prints, in order.\<close>

partial_function (option) proc_dump_loop :: "kstate \<Rightarrow> u32 \<Rightarrow> u16 list option" where
  "proc_dump_loop s node =
     (if node = 0 then Some [] else Option.bind (proc_dump_loop s (mem s node)) (\<lambda>pids. Some (node_pid s node # pids)))"

declare proc_dump_loop.simps [code]

definition proc_dump_queue :: "pstate \<Rightarrow> u16 list option" where
  "proc_dump_queue e = proc_dump_loop (kern e) (proc_queue_start e)"

end
