(* ===== verification/Time_Slices.thy ===== *)
theory Time_Slices
  imports Prelude
begin

text \<open>
  What a round-robin scheduler with time slices promises, and what follows for its processes: who
  runs after a given number of ticks, that nobody waits longer than the slices ahead of it, and that
  a round gives every process exactly its quota.
\<close>

text \<open>
  \<open>queue\<close> lists the processes, the running one first; \<open>left\<close> is what remains of a process's slice
  and \<open>quota\<close> the length of its next one.
\<close>

locale time_slices =
  fixes tick :: "'s \<Rightarrow> 'e + 's" and inv :: "'s \<Rightarrow> bool" and queue :: "'s \<Rightarrow> 'p list"
    and left :: "'s \<Rightarrow> 'p \<Rightarrow> nat" and quota :: "'s \<Rightarrow> 'p \<Rightarrow> nat"
  assumes tick_ok: "inv s \<Longrightarrow> \<exists>s'. tick s = Inr s' \<and> inv s'"
    and queue_ok: "inv s \<Longrightarrow> queue s \<noteq> [] \<and> distinct (queue s)"
    and slices: "inv s \<Longrightarrow> p \<in> set (queue s) \<Longrightarrow> 0 < left s p \<and> 0 < quota s p"
    and stay: "inv s \<Longrightarrow> tick s = Inr s' \<Longrightarrow> 1 < left s (hd (queue s)) \<Longrightarrow>
      queue s' = queue s \<and> left s' = (left s)(hd (queue s) := left s (hd (queue s)) - 1) \<and> quota s' = quota s"
    and switch: "inv s \<Longrightarrow> tick s = Inr s' \<Longrightarrow> left s (hd (queue s)) = 1 \<Longrightarrow>
      queue s' = rotate1 (queue s) \<and> left s' = (left s)(hd (queue s) := quota s (hd (queue s))) \<and> quota s' = quota s"
begin

primrec run :: "nat \<Rightarrow> 's \<Rightarrow> 'e + 's" where
  "run 0 s = Inr s"
| "run (Suc n) s = rbind (tick s) (run n)"

lemma run_add: "run (m + n) s = rbind (run m s) (run n)"
proof (induction m arbitrary: s)
  case (Suc m)
  then show ?case by (cases "tick s") simp_all
qed simp

lemma run_ok: "inv s \<Longrightarrow> \<exists>s'. run n s = Inr s' \<and> inv s'"
proof (induction n arbitrary: s)
  case (Suc n)
  obtain s1 where "tick s = Inr s1" "inv s1" using tick_ok [OF Suc.prems] by blast
  then show ?case using Suc.IH by simp
qed simp

text \<open>Within its slice the running process keeps running.\<close>

lemma within_slice:
  "inv s \<Longrightarrow> j < left s (hd (queue s)) \<Longrightarrow> \<exists>s'. run j s = Inr s' \<and> inv s' \<and> queue s' = queue s \<and>
     left s' = (left s)(hd (queue s) := left s (hd (queue s)) - j) \<and> quota s' = quota s"
proof (induction j arbitrary: s)
  case (Suc j)
  obtain s1 where s1: "tick s = Inr s1" "inv s1" using tick_ok [OF Suc.prems(1)] by blast
  note st = stay [OF Suc.prems(1) s1(1)]
  have l: "1 < left s (hd (queue s))" using Suc.prems(2) by simp
  obtain s' where s': "run j s1 = Inr s'" "inv s'" "queue s' = queue s1"
      "left s' = (left s1)(hd (queue s1) := left s1 (hd (queue s1)) - j)" "quota s' = quota s1"
  proof -
    have "j < left s1 (hd (queue s1))" using Suc.prems(2) st [OF l] by simp
    from Suc.IH [OF s1(2) this] show ?thesis using that by blast
  qed
  show ?case using s1(1) s' st [OF l] by (auto simp: fun_eq_iff)
qed simp

lemma end_of_slice:
  assumes "inv s"
  shows "\<exists>s'. run (left s (hd (queue s))) s = Inr s' \<and> inv s' \<and> queue s' = rotate1 (queue s) \<and>
    left s' = (left s)(hd (queue s) := quota s (hd (queue s))) \<and> quota s' = quota s"
proof -
  let ?h = "hd (queue s)"
  have "?h \<in> set (queue s)" using queue_ok [OF assms] by simp
  then have l: "0 < left s ?h" using slices [OF assms] by simp
  obtain s1 where s1: "run (left s ?h - 1) s = Inr s1" "inv s1" "queue s1 = queue s"
      "left s1 = (left s)(?h := left s ?h - (left s ?h - 1))" "quota s1 = quota s"
    using within_slice [OF assms, of "left s ?h - 1"] l by auto
  obtain s2 where s2: "tick s1 = Inr s2" "inv s2" using tick_ok [OF s1(2)] by blast
  have "left s1 (hd (queue s1)) = 1" using s1(3,4) l by simp
  note sw = switch [OF s1(2) s2(1) this]
  have "run (left s ?h - 1 + 1) s = Inr s2" unfolding run_add s1(1) using s2(1) by simp
  then have "run (left s ?h) s = Inr s2" using l by simp
  then show ?thesis using s2(2) sw s1 by auto
qed

text \<open>
  Bounded waiting: the process at position \<open>i\<close> runs after exactly the slices of those ahead of it.
\<close>

lemma turn:
  assumes "inv s" and "i \<le> length (queue s)"
  shows "\<exists>s'. run (\<Sum>j<i. left s (queue s ! j)) s = Inr s' \<and> inv s' \<and> queue s' = rotate i (queue s) \<and>
    left s' = (\<lambda>p. if p \<in> set (take i (queue s)) then quota s p else left s p) \<and> quota s' = quota s"
  using assms(2)
proof (induction i)
  case 0
  then show ?case using assms(1) by simp
next
  case (Suc i)
  let ?q = "queue s"
  obtain s1 where s1: "run (\<Sum>j<i. left s (?q ! j)) s = Inr s1" "inv s1" "queue s1 = rotate i ?q"
      "left s1 = (\<lambda>p. if p \<in> set (take i ?q) then quota s p else left s p)" "quota s1 = quota s"
    using Suc by auto
  have i: "i < length ?q" using Suc.prems by simp
  then have hd: "hd (queue s1) = ?q ! i" unfolding s1(3) by (subst hd_rotate_conv_nth) auto
  have fresh: "?q ! i \<notin> set (take i ?q)"
    using queue_ok [OF assms(1)] i by (auto simp: in_set_conv_nth nth_eq_iff_index_eq)
  then have l: "left s1 (hd (queue s1)) = left s (?q ! i)" by (simp add: hd s1(4))
  obtain s2 where s2: "run (left s1 (hd (queue s1))) s1 = Inr s2" "inv s2" "queue s2 = rotate1 (queue s1)"
      "left s2 = (left s1)(hd (queue s1) := quota s1 (hd (queue s1)))" "quota s2 = quota s1"
    using end_of_slice [OF s1(2)] by blast
  have "run (\<Sum>j<Suc i. left s (?q ! j)) s = Inr s2"
    using s1(1) s2(1) unfolding l by (simp add: run_add)
  moreover have "set (take (Suc i) ?q) = insert (?q ! i) (set (take i ?q))"
    using i by (simp add: take_Suc_conv_app_nth)
  moreover have "queue s2 = rotate (Suc i) ?q" by (simp add: s2(3) s1(3))
  ultimately show ?case
    using s2(2,4,5) s1(4,5) by (auto simp: hd fun_eq_iff)
qed

text \<open>A full round: everybody has had its slice, and the queue is as before.\<close>

lemma round:
  assumes "inv s"
  shows "\<exists>s'. run (\<Sum>p\<leftarrow>queue s. left s p) s = Inr s' \<and> inv s' \<and> queue s' = queue s \<and>
    (\<forall>p\<in>set (queue s). left s' p = quota s p) \<and> quota s' = quota s"
proof -
  have "(\<Sum>j<length (queue s). left s (queue s ! j)) = (\<Sum>p\<leftarrow>queue s. left s p)"
    by (simp add: sum_list_sum_nth atLeast0LessThan)
  then show ?thesis using turn [OF assms, of "length (queue s)"] by auto
qed

end

end
