(* ===== verification/Proc_Correct.thy ===== *)
theory Proc_Correct
  imports Proc Time_Slices
begin

text \<open>
  The scheduler: the linked queue as a list, the invariant of the process table, and what one timer
  tick does.  \<open>proc_next\<close> is then a round-robin scheduler in the sense of theory \<open>Time_Slices\<close>.
\<close>

section \<open>Singly linked lists in kernel memory\<close>

fun sll :: "(u32 \<Rightarrow> u32) \<Rightarrow> u32 \<Rightarrow> u32 list \<Rightarrow> bool" where
  "sll m h [] \<longleftrightarrow> h = 0"
| "sll m h (p # ps) \<longleftrightarrow> h = p \<and> p \<noteq> 0 \<and> sll m (m p) ps"

lemma sll_cong: "(\<And>p. p \<in> set ps \<Longrightarrow> m' p = m p) \<Longrightarrow> sll m h ps \<Longrightarrow> sll m' h ps"
  by (induction ps arbitrary: h) auto

lemma sll_unique: "sll m h ps \<Longrightarrow> sll m h qs \<Longrightarrow> ps = qs"
proof (induction ps arbitrary: h qs)
  case Nil
  then show ?case by (cases qs) auto
next
  case (Cons p ps)
  then show ?case by (cases qs) auto
qed

text \<open>Appending behind the last node.\<close>

lemma sll_append:
  "sll m h (ps @ [l]) \<Longrightarrow> distinct (ps @ [l]) \<Longrightarrow> p \<notin> set (ps @ [l]) \<Longrightarrow> p \<noteq> 0 \<Longrightarrow>
     sll (m(l := p, p := 0)) h (ps @ [l, p])"
  by (induction ps arbitrary: h) auto

section \<open>The queue\<close>

definition queue_ok :: "pstate \<Rightarrow> u32 list \<Rightarrow> bool" where
  "queue_ok e ps \<longleftrightarrow> ps \<noteq> [] \<and> sll (mem (kern e)) (proc_queue_start e) ps \<and> proc_queue_end e = last ps \<and>
     distinct ps \<and> (\<forall>p\<in>set ps. \<forall>q\<in>set ps. p + 4 \<noteq> q)"

definition pids :: "pstate \<Rightarrow> u32 list \<Rightarrow> u16 list" where
  "pids e ps = map (node_pid (kern e)) ps"

lemma dump_loop_ok: "sll (mem s) h ps \<Longrightarrow> proc_dump_loop s h = Some (map (node_pid s) ps)"
proof (induction ps arbitrary: h)
  case Nil
  then show ?case by (simp add: proc_dump_loop.simps)
next
  case (Cons p ps)
  then have "h = p" "p \<noteq> 0" "proc_dump_loop s (mem s p) = Some (map (node_pid s) ps)" by simp_all
  then show ?case by (subst proc_dump_loop.simps) simp
qed

lemma dump_ok: "queue_ok e ps \<Longrightarrow> proc_dump_queue e = Some (pids e ps)"
  by (simp add: queue_ok_def proc_dump_queue_def dump_loop_ok pids_def)

lemma pwr_simps [simp]:
  "kern (pwr a v e) = wr a v (kern e)" "proc_table (pwr a v e) = proc_table e" "PID (pwr a v e) = PID e"
  "proc_queue_start (pwr a v e) = proc_queue_start e" "proc_queue_end (pwr a v e) = proc_queue_end e"
  "proc_num (pwr a v e) = proc_num e" "next_pid (pwr a v e) = next_pid e" "TSS_esp0 (pwr a v e) = TSS_esp0 e"
  by (simp_all add: pwr_def)

lemma set_proc_simps [simp]:
  "kern (set_proc p f e) = kern e" "PID (set_proc p f e) = PID e"
  "proc_queue_start (set_proc p f e) = proc_queue_start e" "proc_queue_end (set_proc p f e) = proc_queue_end e"
  "proc_table (set_proc p f e) = (proc_table e)(p := f (proc_table e p))"
  "proc_num (set_proc p f e) = proc_num e" "next_pid (set_proc p f e) = next_pid e"
  by (simp_all add: set_proc_def)

text \<open>Rotating the queue moves its first node to the end, and no process ID changes.\<close>

lemma rotate_memory:
  assumes "queue_ok e ps"
  shows "mem (kern (proc_rotate e)) = (mem (kern e))(last ps := hd ps, hd ps := 0)"
    and "\<And>a. a \<notin> set ps \<Longrightarrow> mem (kern (proc_rotate e)) a = mem (kern e) a"
    and "page_dir (kern (proc_rotate e)) = page_dir (kern e)"
    and "page_table_lookup (kern (proc_rotate e)) = page_table_lookup (kern e)"
    and "proc_table (proc_rotate e) = proc_table e" and "PID (proc_rotate e) = PID e"
proof -
  obtain p qs where ps: "ps = p # qs" using assms by (cases ps) (auto simp: queue_ok_def)
  have q: "proc_queue_end e = last ps" "proc_queue_start e = p"
    using assms ps by (simp_all add: queue_ok_def)
  show m: "mem (kern (proc_rotate e)) = (mem (kern e))(last ps := hd ps, hd ps := 0)"
    unfolding proc_rotate_def by (simp add: Let_def q ps)
  show "mem (kern (proc_rotate e)) a = mem (kern e) a" if "a \<notin> set ps" for a
    using that assms ps unfolding m queue_ok_def by auto
  show "page_dir (kern (proc_rotate e)) = page_dir (kern e)"
    "page_table_lookup (kern (proc_rotate e)) = page_table_lookup (kern e)"
    "proc_table (proc_rotate e) = proc_table e" "PID (proc_rotate e) = PID e"
    by (simp_all add: proc_rotate_def Let_def)
qed

lemma rotate_queue:
  assumes "queue_ok e ps"
  shows "queue_ok (proc_rotate e) (rotate1 ps)" and "pids (proc_rotate e) (rotate1 ps) = rotate1 (pids e ps)"
proof -
  obtain p qs where ps: "ps = p # qs" using assms by (cases ps) (auto simp: queue_ok_def)
  have q: "proc_queue_end e = last ps" "proc_queue_start e = p" "sll (mem (kern e)) (mem (kern e) p) qs"
    "p \<noteq> 0" "distinct ps" "\<forall>a\<in>set ps. \<forall>b\<in>set ps. a + 4 \<noteq> b"
    using assms ps by (simp_all add: queue_ok_def)
  note m = rotate_memory [OF assms]
  have st: "proc_queue_start (proc_rotate e) = (if qs = [] then p else mem (kern e) p)"
    "proc_queue_end (proc_rotate e) = p"
    using q(5) unfolding proc_rotate_def by (auto simp: Let_def q(1,2) ps)
  have "sll (mem (kern (proc_rotate e))) (proc_queue_start (proc_rotate e)) (qs @ [p])"
  proof (cases qs rule: rev_cases)
    case Nil
    then show ?thesis using st q(4) m(1) ps by simp
  next
    case (snoc ws l)
    have "sll ((mem (kern e))(l := p, p := 0)) (mem (kern e) p) (ws @ [l, p])"
      by (rule sll_append) (use q(3,4,5) ps snoc in auto)
    then show ?thesis using st m(1) ps snoc by simp
  qed
  then show "queue_ok (proc_rotate e) (rotate1 ps)"
    using st(2) q(5,6) ps by (auto simp: queue_ok_def)
  have "node_pid (kern (proc_rotate e)) a = node_pid (kern e) a" if "a \<in> set ps" for a
  proof -
    have "a + 4 \<notin> set ps" using q(6) that by blast
    then show ?thesis unfolding node_pid_def by (simp add: m(2))
  qed
  then show "pids (proc_rotate e) (rotate1 ps) = rotate1 (pids e ps)"
    unfolding pids_def ps by simp
qed

section \<open>Memory maps\<close>

text \<open>The directory after the page tables of a list of nodes have been entered, or taken out.\<close>

definition map_tables :: "(u32 \<Rightarrow> u32) \<Rightarrow> u32 list \<Rightarrow> kstate \<Rightarrow> kstate" where
  "map_tables m ns s = fold (\<lambda>n. page_set_dir_entry (m (n + 4)) (m (n + 8)) (m (n + 12))) ns s"

definition unmap_tables :: "(u32 \<Rightarrow> u32) \<Rightarrow> u32 list \<Rightarrow> kstate \<Rightarrow> kstate" where
  "unmap_tables m ns s = fold (\<lambda>n. page_set_dir_entry (m (n + 4)) 0 0) ns s"

lemma set_dir_entry_mem [simp]: "mem (page_set_dir_entry i t v s) = mem s"
  by (simp add: page_set_dir_entry_def)

lemma map_loop_ok: "sll (mem s) h ns \<Longrightarrow> proc_mem_map_loop h s = Some (map_tables (mem s) ns s)"
proof (induction ns arbitrary: h s)
  case Nil
  then show ?case by (simp add: proc_mem_map_loop.simps map_tables_def)
next
  case (Cons n ns)
  let ?s = "page_set_dir_entry (mem s (n + 4)) (mem s (n + 8)) (mem s (n + 12)) s"
  have "proc_mem_map_loop (mem s n) ?s = Some (map_tables (mem ?s) ns ?s)"
    by (rule Cons.IH) (use Cons.prems in simp)
  then show ?case
    using Cons.prems by (subst proc_mem_map_loop.simps) (simp add: map_tables_def)
qed

lemma unmap_loop_ok: "sll (mem s) h ns \<Longrightarrow> proc_mem_unmap_loop h s = Some (unmap_tables (mem s) ns s)"
proof (induction ns arbitrary: h s)
  case Nil
  then show ?case by (simp add: proc_mem_unmap_loop.simps unmap_tables_def)
next
  case (Cons n ns)
  let ?s = "page_set_dir_entry (mem s (n + 4)) 0 0 s"
  have "proc_mem_unmap_loop (mem s n) ?s = Some (unmap_tables (mem ?s) ns ?s)"
    by (rule Cons.IH) (use Cons.prems in simp)
  then show ?case
    using Cons.prems by (subst proc_mem_unmap_loop.simps) (simp add: unmap_tables_def)
qed

lemma tables_mem [simp]: "mem (map_tables m ns s) = mem s" "mem (unmap_tables m ns s) = mem s"
proof -
  show "mem (map_tables m ns s) = mem s"
    unfolding map_tables_def by (induction ns arbitrary: s) simp_all
  show "mem (unmap_tables m ns s) = mem s"
    unfolding unmap_tables_def by (induction ns arbitrary: s) simp_all
qed

lemma map_tables_cong:
  "page_dir s = page_dir s' \<Longrightarrow> page_table_lookup s = page_table_lookup s' \<Longrightarrow>
     page_dir (map_tables m ns s) = page_dir (map_tables m ns s') \<and>
     page_table_lookup (map_tables m ns s) = page_table_lookup (map_tables m ns s')"
  unfolding map_tables_def by (induction ns arbitrary: s s') (simp_all add: page_set_dir_entry_def)

lemma unmap_tables_cong:
  "page_dir s = page_dir s' \<Longrightarrow> page_table_lookup s = page_table_lookup s' \<Longrightarrow>
     page_dir (unmap_tables m ns s) = page_dir (unmap_tables m ns s') \<and>
     page_table_lookup (unmap_tables m ns s) = page_table_lookup (unmap_tables m ns s')"
  unfolding unmap_tables_def by (induction ns arbitrary: s s') (simp_all add: page_set_dir_entry_def)

text \<open>Directory slots outside the list keep their entry; taken-out slots are empty.\<close>

lemma map_tables_other:
  "i \<notin> (\<lambda>n. m (n + 4)) ` set ns \<Longrightarrow> page_dir (map_tables m ns s) i = page_dir s i"
  unfolding map_tables_def by (induction ns arbitrary: s) (auto simp: page_set_dir_entry_def)

lemma unmap_tables_dir:
  "page_dir (unmap_tables m ns s) i = (if i \<in> (\<lambda>n. m (n + 4)) ` set ns then 0 else page_dir s i)"
  unfolding unmap_tables_def by (induction ns arbitrary: s) (auto simp: page_set_dir_entry_def)

lemma map_tables_dir:
  "distinct (map (\<lambda>n. m (n + 4)) ns) \<Longrightarrow> n \<in> set ns \<Longrightarrow>
     page_dir (map_tables m ns s) (m (n + 4)) = m (n + 12) \<and>
     page_table_lookup (map_tables m ns s) (m (n + 4)) = m (n + 8)"
proof (induction ns arbitrary: s rule: rev_induct)
  case (snoc k ns)
  have k: "map_tables m (ns @ [k]) s = page_set_dir_entry (m (k + 4)) (m (k + 8)) (m (k + 12)) (map_tables m ns s)"
    by (simp add: map_tables_def)
  show ?case
  proof (cases "n = k")
    case True
    then show ?thesis unfolding k by (simp add: page_set_dir_entry_def)
  next
    case False
    then have n: "n \<in> set ns" using snoc.prems(2) by simp
    then have "m (n + 4) \<noteq> m (k + 4)" using snoc.prems(1) by (auto simp: image_iff)
    then show ?thesis
      using snoc.IH [OF _ n] snoc.prems(1) unfolding k by (simp add: page_set_dir_entry_def)
  qed
qed simp

section \<open>The invariant\<close>

text \<open>
  \<open>ps\<close> are the queue's nodes and \<open>pl\<close> gives every process its list of page table nodes.  The first
  process of the queue is the running one; every other one is waiting.
\<close>

definition sched_inv :: "pstate \<Rightarrow> u32 list \<Rightarrow> (u16 \<Rightarrow> u32 list) \<Rightarrow> bool" where
  "sched_inv e ps pl \<longleftrightarrow>
     queue_ok e ps \<and> distinct (pids e ps) \<and> PID e = hd (pids e ps) \<and>
     state (proc_table e (hd (pids e ps))) = PROC_RUNNING \<and>
     (\<forall>q\<in>set (tl (pids e ps)). state (proc_table e q) = PROC_ACTIVE) \<and>
     (\<forall>q\<in>set (pids e ps). sll (mem (kern e)) (page_tables (proc_table e q)) (pl q) \<and>
        (\<forall>n\<in>set (pl q). {n, n + 4, n + 8, n + 12} \<inter> set ps = {}))"

lemma sched_invD:
  assumes "sched_inv e ps pl"
  shows "queue_ok e ps" "distinct (pids e ps)" "PID e = hd (pids e ps)"
    "state (proc_table e (PID e)) = PROC_RUNNING" "\<And>q. q \<in> set (tl (pids e ps)) \<Longrightarrow> state (proc_table e q) = PROC_ACTIVE"
    "\<And>q. q \<in> set (pids e ps) \<Longrightarrow> sll (mem (kern e)) (page_tables (proc_table e q)) (pl q)"
    "\<And>q n. q \<in> set (pids e ps) \<Longrightarrow> n \<in> set (pl q) \<Longrightarrow> {n, n + 4, n + 8, n + 12} \<inter> set ps = {}"
    "PID e \<in> set (pids e ps)"
proof -
  show "queue_ok e ps" "distinct (pids e ps)" "PID e = hd (pids e ps)"
    "state (proc_table e (PID e)) = PROC_RUNNING" "\<And>q. q \<in> set (tl (pids e ps)) \<Longrightarrow> state (proc_table e q) = PROC_ACTIVE"
    "\<And>q. q \<in> set (pids e ps) \<Longrightarrow> sll (mem (kern e)) (page_tables (proc_table e q)) (pl q)"
    "\<And>q n. q \<in> set (pids e ps) \<Longrightarrow> n \<in> set (pl q) \<Longrightarrow> {n, n + 4, n + 8, n + 12} \<inter> set ps = {}"
    using assms unfolding sched_inv_def by simp_all
  have "pids e ps \<noteq> []" "PID e = hd (pids e ps)" using assms by (simp_all add: sched_inv_def queue_ok_def pids_def)
  then show "PID e \<in> set (pids e ps)" using hd_in_set by metis
qed

section \<open>One tick\<close>

text \<open>Within its time slice a process only loses one tick.\<close>

lemma next_stay:
  assumes k: "sched_inv e ps pl" and "exec_count (proc_table e (PID e)) \<noteq> 1"
  defines "e' \<equiv> set_proc (PID e) (\<lambda>p. p\<lparr>exec_count := exec_count p - 1\<rparr>) e"
  shows "proc_next e = Inr e'" and "sched_inv e' ps pl"
proof -
  have "exec_count (proc_table e (PID e)) - 1 \<noteq> 0" using assms(2) by simp
  then show "proc_next e = Inr e'"
    unfolding proc_next_def e'_def by (simp add: Let_def)
  have "queue_ok e' ps = queue_ok e ps" "pids e' ps = pids e ps" "PID e' = PID e" "kern e' = kern e"
    "\<And>q. state (proc_table e' q) = state (proc_table e q)" "\<And>q. page_tables (proc_table e' q) = page_tables (proc_table e q)"
    by (simp_all add: e'_def queue_ok_def pids_def)
  then show "sched_inv e' ps pl"
    using k unfolding sched_inv_def by simp
qed

text \<open>
  The state after the switch from the running process to \<open>new\<close>: \<open>out\<close> and \<open>inn\<close> are the nodes of their
  page tables.
\<close>

definition slice_over :: "pstate \<Rightarrow> pstate" where
  "slice_over e = set_proc (PID e) (\<lambda>p. p\<lparr>exec_count := priority p\<rparr>)
     (set_proc (PID e) (\<lambda>p. p\<lparr>exec_count := exec_count p - 1\<rparr>) e)"

definition switched :: "pstate \<Rightarrow> u16 \<Rightarrow> u32 list \<Rightarrow> u32 list \<Rightarrow> pstate" where
  "switched e new out inn =
     (let e4 = set_proc (PID e) (\<lambda>p. p\<lparr>state := PROC_ACTIVE\<rparr>) (proc_rotate (slice_over e));
          s = map_tables (mem (kern e)) inn (unmap_tables (mem (kern e)) out (kern e4))
      in set_proc new (\<lambda>p. p\<lparr>state := PROC_RUNNING\<rparr>) (e4\<lparr>kern := s, PID := new\<rparr>))"

text \<open>The queue of \<open>e\<close>, rotated: its memory, and what the loops over page tables do with it.\<close>

lemma slice_rotated:
  assumes k: "sched_inv e ps pl"
  defines "e3 \<equiv> proc_rotate (slice_over e)"
  shows "queue_ok e3 (rotate1 ps)" and "pids e3 (rotate1 ps) = rotate1 (pids e ps)"
    and "a \<notin> set ps \<Longrightarrow> mem (kern e3) a = mem (kern e) a"
    and "page_dir (kern e3) = page_dir (kern e)" and "page_table_lookup (kern e3) = page_table_lookup (kern e)"
    and "proc_table e3 = (proc_table e)(PID e := (proc_table e (PID e))\<lparr>exec_count := priority (proc_table e (PID e))\<rparr>)"
    and "PID e3 = PID e"
    and "r \<in> set (pids e ps) \<Longrightarrow> sll (mem (kern e3)) (page_tables (proc_table e r)) (pl r)"
    and "r \<in> set (pids e ps) \<Longrightarrow> map_tables (mem (kern e3)) (pl r) s = map_tables (mem (kern e)) (pl r) s"
    and "r \<in> set (pids e ps) \<Longrightarrow> unmap_tables (mem (kern e3)) (pl r) s = unmap_tables (mem (kern e)) (pl r) s"
proof -
  note i = sched_invD [OF k]
  have q2: "queue_ok (slice_over e) ps" and p2: "pids (slice_over e) ps = pids e ps"
    using i(1) by (simp_all add: queue_ok_def pids_def slice_over_def)
  note rm = rotate_memory [OF q2, folded e3_def] and rq = rotate_queue [OF q2, folded e3_def]
  have so: "kern (slice_over e) = kern e" "PID (slice_over e) = PID e"
    "proc_table (slice_over e) = (proc_table e)(PID e := (proc_table e (PID e))\<lparr>exec_count := priority (proc_table e (PID e))\<rparr>)"
    by (simp_all add: slice_over_def)
  show "queue_ok e3 (rotate1 ps)" "pids e3 (rotate1 ps) = rotate1 (pids e ps)" using rq p2 by simp_all
  show keep: "mem (kern e3) a = mem (kern e) a" if "a \<notin> set ps" for a using rm(2) [OF that] so(1) by simp
  show "page_dir (kern e3) = page_dir (kern e)" "page_table_lookup (kern e3) = page_table_lookup (kern e)"
    "proc_table e3 = (proc_table e)(PID e := (proc_table e (PID e))\<lparr>exec_count := priority (proc_table e (PID e))\<rparr>)" "PID e3 = PID e"
    using rm(3-6) so by simp_all
  show "sll (mem (kern e3)) (page_tables (proc_table e r)) (pl r)" if "r \<in> set (pids e ps)"
    by (rule sll_cong [OF keep i(6) [OF that]]) (use i(7) [OF that] in auto)
  have fields: "mem (kern e3) (n + 4) = mem (kern e) (n + 4)" "mem (kern e3) (n + 8) = mem (kern e) (n + 8)"
    "mem (kern e3) (n + 12) = mem (kern e) (n + 12)" if "r \<in> set (pids e ps)" "n \<in> set (pl r)" for n
    using i(7) [OF that] keep by auto
  show "map_tables (mem (kern e3)) (pl r) s = map_tables (mem (kern e)) (pl r) s"
    "unmap_tables (mem (kern e3)) (pl r) s = unmap_tables (mem (kern e)) (pl r) s" if "r \<in> set (pids e ps)"
    unfolding map_tables_def unmap_tables_def by (intro fold_cong refl; simp add: fields [OF that])+
qed

lemma queue_head: "queue_ok e ps \<Longrightarrow> node_pid (kern e) (proc_queue_start e) = hd (pids e ps)"
  by (cases ps) (auto simp: queue_ok_def pids_def)

text \<open>\<open>proc_next\<close> at the end of a slice.\<close>

lemma next_run:
  assumes k: "sched_inv e ps pl" and cnt: "exec_count (proc_table e (PID e)) = 1"
  shows "proc_next e = Inr (switched e (hd (rotate1 (pids e ps))) (pl (PID e)) (pl (hd (rotate1 (pids e ps)))))"
proof -
  let ?new = "hd (rotate1 (pids e ps))" and ?e3 = "proc_rotate (slice_over e)" and ?m = "mem (kern e)"
  let ?e4 = "set_proc (PID e) (\<lambda>p. p\<lparr>state := PROC_ACTIVE\<rparr>) ?e3"
  let ?s5 = "unmap_tables ?m (pl (PID e)) (kern ?e3)"
  let ?s7 = "map_tables ?m (pl ?new) ?s5"
  note sr = slice_rotated [OF k]
  have old: "PID e \<in> set (pids e ps)" by (rule sched_invD(8) [OF k])
  then have "rotate1 (pids e ps) \<noteq> []" by auto
  then have "?new \<in> set (rotate1 (pids e ps))" by (rule hd_in_set)
  then have new: "?new \<in> set (pids e ps)" by simp
  have tab: "page_tables (proc_table ?e4 r) = page_tables (proc_table e r)" for r by (simp add: sr(6))
  have tab': "page_tables (proc_table (?e4\<lparr>kern := ?s5, PID := ?new\<rparr>) r) = page_tables (proc_table e r)" for r by (simp add: sr(6))
  have u: "proc_mem_unmap (PID e) ?e4 = Inr (?e4\<lparr>kern := ?s5\<rparr>)"
    unfolding proc_mem_unmap_def tab using unmap_loop_ok [OF sr(8) [OF old]] sr(10) [OF old] by simp
  have pid: "node_pid ?s5 (proc_queue_start ?e3) = ?new"
    using queue_head [OF sr(1)] unfolding sr(2) by (simp add: node_pid_def)
  have mp: "proc_mem_map ?new (?e4\<lparr>kern := ?s5, PID := ?new\<rparr>) = Inr (?e4\<lparr>kern := ?s7, PID := ?new\<rparr>)"
    using map_loop_ok [of ?s5 _ "pl ?new"] sr(8) [OF new] sr(9) [OF new]
    unfolding proc_mem_map_def tab' by simp
  let ?e1 = "set_proc (PID e) (\<lambda>p. p\<lparr>exec_count := exec_count p - 1\<rparr>) e"
  have so: "set_proc (PID ?e1) (\<lambda>p. p\<lparr>exec_count := priority p\<rparr>) ?e1 = slice_over e" by (simp add: slice_over_def)
  have "exec_count (proc_table ?e1 (PID ?e1)) = 0" using cnt by simp
  then show ?thesis
    unfolding proc_next_def switched_def Let_def so using u mp pid by (simp add: sr(7))
qed

lemma switched_fields:
  assumes k: "sched_inv e ps pl"
  defines "new \<equiv> hd (rotate1 (pids e ps))"
  defines "e' \<equiv> switched e new (pl (PID e)) (pl new)"
  shows "PID e' = new" and "a \<notin> set ps \<Longrightarrow> mem (kern e') a = mem (kern e) a"
    and "proc_table e' = (let t = (proc_table e)(PID e := (proc_table e (PID e))\<lparr>exec_count := priority (proc_table e (PID e)),
        state := PROC_ACTIVE\<rparr>) in t(new := (t new)\<lparr>state := PROC_RUNNING\<rparr>))"
    and "page_dir (kern e') = page_dir (map_tables (mem (kern e)) (pl new) (unmap_tables (mem (kern e)) (pl (PID e)) (kern e)))"
    and "page_table_lookup (kern e') =
      page_table_lookup (map_tables (mem (kern e)) (pl new) (unmap_tables (mem (kern e)) (pl (PID e)) (kern e)))"
    and "queue_ok e' (rotate1 ps)" and "pids e' (rotate1 ps) = rotate1 (pids e ps)"
    and "r \<in> set (pids e ps) \<Longrightarrow> sll (mem (kern e')) (page_tables (proc_table e' r)) (pl r)"
proof -
  note sr = slice_rotated [OF k]
  show "PID e' = new" "proc_table e' = (let t = (proc_table e)(PID e := (proc_table e (PID e))\<lparr>exec_count := priority (proc_table e (PID e)),
        state := PROC_ACTIVE\<rparr>) in t(new := (t new)\<lparr>state := PROC_RUNNING\<rparr>))"
    by (simp_all add: e'_def switched_def Let_def sr(6))
  then have tab: "page_tables (proc_table e' r) = page_tables (proc_table e r)" by (simp add: Let_def)
  have m: "mem (kern e') = mem (kern (proc_rotate (slice_over e)))" by (simp add: e'_def switched_def Let_def)
  show "a \<notin> set ps \<Longrightarrow> mem (kern e') a = mem (kern e) a" unfolding m by (rule sr(3))
  show "r \<in> set (pids e ps) \<Longrightarrow> sll (mem (kern e')) (page_tables (proc_table e' r)) (pl r)" unfolding m tab by (rule sr(8))
  have q: "proc_queue_start e' = proc_queue_start (proc_rotate (slice_over e))" "proc_queue_end e' = proc_queue_end (proc_rotate (slice_over e))"
    by (simp_all add: e'_def switched_def Let_def)
  show "queue_ok e' (rotate1 ps)" using sr(1) unfolding queue_ok_def m q .
  show "pids e' (rotate1 ps) = rotate1 (pids e ps)" using sr(2) unfolding pids_def node_pid_def m .
  let ?u = "unmap_tables (mem (kern e)) (pl (PID e))"
  have "page_dir (?u (kern (proc_rotate (slice_over e)))) = page_dir (?u (kern e))"
    "page_table_lookup (?u (kern (proc_rotate (slice_over e)))) = page_table_lookup (?u (kern e))"
    using unmap_tables_cong [OF sr(4,5)] by blast+
  from map_tables_cong [OF this] show
    "page_dir (kern e') = page_dir (map_tables (mem (kern e)) (pl new) (?u (kern e)))"
    "page_table_lookup (kern e') = page_table_lookup (map_tables (mem (kern e)) (pl new) (?u (kern e)))"
    by (simp_all add: e'_def switched_def Let_def)
qed

text \<open>
  At the end of its slice the running process goes to the end of the queue with a new slice, its
  page tables leave the directory and those of the next process enter it.
\<close>

lemma switched_inv:
  assumes k: "sched_inv e ps pl"
  defines "new \<equiv> hd (rotate1 (pids e ps))"
  shows "sched_inv (switched e new (pl (PID e)) (pl new)) (rotate1 ps) pl"
proof -
  note i = sched_invD [OF k] and sf = switched_fields [OF k, folded new_def]
  obtain x xs where x: "pids e ps = x # xs" using i(8) by (cases "pids e ps") auto
  have dx: "distinct (rotate1 (pids e ps))" using i(2) by simp
  have "state (proc_table (switched e new (pl (PID e)) (pl new)) r) = PROC_ACTIVE" if r: "r \<in> set (tl (rotate1 (pids e ps)))" for r
  proof -
    have "r \<noteq> new" using r dx unfolding new_def by (cases "rotate1 (pids e ps)") auto
    moreover have "r = PID e \<or> r \<in> set (tl (pids e ps))" using r x i(3) by (cases xs) auto
    ultimately show ?thesis unfolding sf(3) Let_def using i(5) by auto
  qed
  moreover have "state (proc_table (switched e new (pl (PID e)) (pl new)) new) = PROC_RUNNING" unfolding sf(3) by (simp add: Let_def)
  ultimately show ?thesis
    unfolding sched_inv_def sf(7) using sf(1,6,8) i(7) dx by (simp add: new_def)
qed

lemma next_switch:
  assumes k: "sched_inv e ps pl" and cnt: "exec_count (proc_table e (PID e)) = 1"
  defines "old \<equiv> PID e" and "new \<equiv> hd (rotate1 (pids e ps))"
  shows "\<exists>e'. proc_next e = Inr e' \<and> sched_inv e' (rotate1 ps) pl \<and> pids e' (rotate1 ps) = rotate1 (pids e ps) \<and>
    PID e' = new \<and>
    proc_table e' = (let t = (proc_table e)(old := (proc_table e old)\<lparr>exec_count := priority (proc_table e old),
        state := PROC_ACTIVE\<rparr>) in t(new := (t new)\<lparr>state := PROC_RUNNING\<rparr>)) \<and>
    (\<forall>a. a \<notin> set ps \<longrightarrow> mem (kern e') a = mem (kern e) a) \<and>
    page_dir (kern e') = page_dir (map_tables (mem (kern e)) (pl new) (unmap_tables (mem (kern e)) (pl old) (kern e))) \<and>
    page_table_lookup (kern e') =
      page_table_lookup (map_tables (mem (kern e)) (pl new) (unmap_tables (mem (kern e)) (pl old) (kern e)))"
  unfolding old_def new_def using next_run [OF k cnt] switched_inv [OF k] switched_fields [OF k]
  by (intro exI [of _ "switched e (hd (rotate1 (pids e ps))) (pl (PID e)) (pl (hd (rotate1 (pids e ps))))"]) simp

end
