(* ===== verification/Proc_Schedule.thy ===== *)
theory Proc_Schedule
  imports Proc_Correct Time_Slices
begin

text \<open>
  The scheduler of \<open>proc.c\<close> as a time slice scheduler, the timer interrupt that drives it, and the
  search for a free process ID.
\<close>

section \<open>\<open>proc_next\<close> keeps time slices\<close>

definition schedulable :: "pstate \<Rightarrow> bool" where
  "schedulable e \<longleftrightarrow> (\<exists>ps pl. sched_inv e ps pl \<and>
     (\<forall>q\<in>set (pids e ps). exec_count (proc_table e q) \<noteq> 0 \<and> priority (proc_table e q) \<noteq> 0))"

definition run_queue :: "pstate \<Rightarrow> u16 list" where
  "run_queue e = (case proc_dump_queue e of None \<Rightarrow> [] | Some q \<Rightarrow> q)"

definition ticks_left :: "pstate \<Rightarrow> u16 \<Rightarrow> nat" where
  "ticks_left e p = unat (exec_count (proc_table e p))"

definition ticks_quota :: "pstate \<Rightarrow> u16 \<Rightarrow> nat" where
  "ticks_quota e p = unat (priority (proc_table e p))"

lemma run_queue_pids: "sched_inv e ps pl \<Longrightarrow> run_queue e = pids e ps"
  using dump_ok [OF sched_invD(1)] by (simp add: run_queue_def)

lemma schedulableE:
  assumes "schedulable e"
  obtains ps pl where "sched_inv e ps pl" "run_queue e = pids e ps" "pids e ps \<noteq> []" "PID e = hd (run_queue e)"
    "\<And>q. q \<in> set (pids e ps) \<Longrightarrow> exec_count (proc_table e q) \<noteq> 0 \<and> priority (proc_table e q) \<noteq> 0"
proof -
  obtain ps pl where p: "sched_inv e ps pl"
      "\<And>q. q \<in> set (pids e ps) \<Longrightarrow> exec_count (proc_table e q) \<noteq> 0 \<and> priority (proc_table e q) \<noteq> 0"
    using assms unfolding schedulable_def by blast
  have "pids e ps \<noteq> []" using sched_invD(8) [OF p(1)] by auto
  then show thesis using that [OF p(1)] run_queue_pids [OF p(1)] p(2) sched_invD(3) [OF p(1)] by simp
qed

lemma schedulableI:
  "sched_inv e ps pl \<Longrightarrow> (\<And>q. q \<in> set (pids e ps) \<Longrightarrow> exec_count (proc_table e q) \<noteq> 0 \<and> priority (proc_table e q) \<noteq> 0)
     \<Longrightarrow> schedulable e"
  unfolding schedulable_def by blast

lemma tick_stay:
  assumes "schedulable e" and "1 < ticks_left e (hd (run_queue e))"
  shows "\<exists>e'. proc_next e = Inr e' \<and> schedulable e' \<and> run_queue e' = run_queue e \<and>
    ticks_left e' = (ticks_left e)(hd (run_queue e) := ticks_left e (hd (run_queue e)) - 1) \<and>
    ticks_quota e' = ticks_quota e"
proof -
  obtain ps pl where p: "sched_inv e ps pl" "run_queue e = pids e ps" "pids e ps \<noteq> []" "PID e = hd (run_queue e)"
      "\<And>q. q \<in> set (pids e ps) \<Longrightarrow> exec_count (proc_table e q) \<noteq> 0 \<and> priority (proc_table e q) \<noteq> 0"
    using schedulableE [OF assms(1)] by blast
  let ?e' = "set_proc (PID e) (\<lambda>p. p\<lparr>exec_count := exec_count p - 1\<rparr>) e"
  have c: "1 < unat (exec_count (proc_table e (PID e)))" using assms(2) p(4) by (simp add: ticks_left_def)
  then have "exec_count (proc_table e (PID e)) \<noteq> 0" by auto
  from unat_minus_one [OF this] c have ne: "exec_count (proc_table e (PID e)) \<noteq> 1" "exec_count (proc_table e (PID e)) - 1 \<noteq> 0"
    "unat (exec_count (proc_table e (PID e)) - 1) = unat (exec_count (proc_table e (PID e))) - 1"
    by auto
  note s = next_stay [OF p(1) ne(1)]
  have q': "pids ?e' ps = pids e ps" by (simp add: pids_def)
  have "schedulable ?e'"
    using p(5) ne(2) by (intro schedulableI [OF s(2)]) (auto simp: q')
  moreover have "run_queue ?e' = run_queue e" using run_queue_pids [OF s(2)] q' p(2) by simp
  moreover have "ticks_left ?e' = (ticks_left e)(PID e := ticks_left e (PID e) - 1)"
    using ne(3) by (auto simp: ticks_left_def fun_eq_iff)
  moreover have "ticks_quota ?e' = ticks_quota e" by (auto simp: ticks_quota_def fun_eq_iff)
  ultimately show ?thesis using s(1) p(4) by simp
qed

lemma tick_switch:
  assumes "schedulable e" and "ticks_left e (hd (run_queue e)) = 1"
  shows "\<exists>e'. proc_next e = Inr e' \<and> schedulable e' \<and> run_queue e' = rotate1 (run_queue e) \<and>
    ticks_left e' = (ticks_left e)(hd (run_queue e) := ticks_quota e (hd (run_queue e))) \<and>
    ticks_quota e' = ticks_quota e"
proof -
  obtain ps pl where p: "sched_inv e ps pl" "run_queue e = pids e ps" "pids e ps \<noteq> []" "PID e = hd (run_queue e)"
      "\<And>q. q \<in> set (pids e ps) \<Longrightarrow> exec_count (proc_table e q) \<noteq> 0 \<and> priority (proc_table e q) \<noteq> 0"
    using schedulableE [OF assms(1)] by blast
  have "unat (exec_count (proc_table e (PID e))) = unat (1 :: u16)" using assms(2) p(4) by (simp add: ticks_left_def)
  then have "exec_count (proc_table e (PID e)) = 1" by (rule unsigned_word_eqI)
  then obtain e' where e': "proc_next e = Inr e'" "sched_inv e' (rotate1 ps) pl" "pids e' (rotate1 ps) = rotate1 (pids e ps)"
      "proc_table e' = (let t = (proc_table e)(PID e := (proc_table e (PID e))\<lparr>exec_count := priority (proc_table e (PID e)),
        state := PROC_ACTIVE\<rparr>); new = hd (rotate1 (pids e ps)) in t(new := (t new)\<lparr>state := PROC_RUNNING\<rparr>))"
    using next_switch [OF p(1)] by (auto simp: Let_def)
  have c: "exec_count (proc_table e' q) = (if q = PID e then priority (proc_table e q) else exec_count (proc_table e q))"
    "priority (proc_table e' q) = priority (proc_table e q)" for q
    unfolding e'(4) Let_def by auto
  have "schedulable e'"
    using p(5) by (intro schedulableI [OF e'(2)]) (auto simp: e'(3) c)
  moreover have "run_queue e' = rotate1 (run_queue e)" using run_queue_pids [OF e'(2)] e'(3) p(2) by simp
  moreover have "ticks_left e' = (ticks_left e)(PID e := ticks_quota e (PID e))"
    by (auto simp: ticks_left_def ticks_quota_def c fun_eq_iff)
  moreover have "ticks_quota e' = ticks_quota e" by (auto simp: ticks_quota_def c fun_eq_iff)
  ultimately show ?thesis using e'(1) p(4) by simp
qed

lemma schedulable_left:
  assumes "schedulable e" and "q \<in> set (run_queue e)"
  shows "0 < ticks_left e q" and "0 < ticks_quota e q"
  using assms by (auto elim!: schedulableE simp: ticks_left_def ticks_quota_def unat_gt_0)

interpretation scheduler: time_slices proc_next schedulable run_queue ticks_left ticks_quota
proof
  fix e assume e: "schedulable e"
  obtain ps pl where p: "sched_inv e ps pl" "run_queue e = pids e ps" "pids e ps \<noteq> []"
    using schedulableE [OF e] by blast
  show "run_queue e \<noteq> [] \<and> distinct (run_queue e)" using p sched_invD(2) [OF p(1)] by simp
  have "hd (run_queue e) \<in> set (run_queue e)" using p(2,3) by simp
  then have "0 < ticks_left e (hd (run_queue e))" by (rule schedulable_left(1) [OF e])
  then have "1 < ticks_left e (hd (run_queue e)) \<or> ticks_left e (hd (run_queue e)) = 1" by linarith
  then show "\<exists>e'. proc_next e = Inr e' \<and> schedulable e'"
    using tick_stay [OF e] tick_switch [OF e] by blast
  show "0 < ticks_left e q \<and> 0 < ticks_quota e q" if "q \<in> set (run_queue e)" for q
    using schedulable_left [OF e that] by simp
  fix e'
  assume n: "proc_next e = Inr e'"
  show "run_queue e' = run_queue e \<and>
      ticks_left e' = (ticks_left e)(hd (run_queue e) := ticks_left e (hd (run_queue e)) - 1) \<and> ticks_quota e' = ticks_quota e"
    if "1 < ticks_left e (hd (run_queue e))" using tick_stay [OF e that] n by auto
  show "run_queue e' = rotate1 (run_queue e) \<and>
      ticks_left e' = (ticks_left e)(hd (run_queue e) := ticks_quota e (hd (run_queue e))) \<and> ticks_quota e' = ticks_quota e"
    if "ticks_left e (hd (run_queue e)) = 1" using tick_switch [OF e that] n by auto
qed

section \<open>Contexts survive the switches\<close>

text \<open>A tick changes no saved context and leaves every other component of a process but its state.\<close>

lemma next_ctxt:
  assumes "schedulable e" and "proc_next e = Inr e'"
  shows "ctxt (proc_table e' q) = ctxt (proc_table e q)" and "schedulable e'"
proof -
  obtain ps pl where p: "sched_inv e ps pl" using schedulableE [OF assms(1)] by blast
  show "ctxt (proc_table e' q) = ctxt (proc_table e q)"
  proof (cases "exec_count (proc_table e (PID e)) = 1")
    case True
    then show ?thesis using next_switch [OF p] assms(2) by (auto simp: Let_def)
  next
    case False
    then show ?thesis using next_stay(1) [OF p] assms(2) by auto
  qed
  show "schedulable e'" using scheduler.tick_ok [OF assms(1)] assms(2) by auto
qed

lemma store_ctxt_sched:
  "pids (proc_store_ctxt c e) ps = pids e ps" "sched_inv (proc_store_ctxt c e) ps pl = sched_inv e ps pl"
  "exec_count (proc_table (proc_store_ctxt c e) q) = exec_count (proc_table e q)"
  "priority (proc_table (proc_store_ctxt c e) q) = priority (proc_table e q)"
proof -
  let ?e = "proc_store_ctxt c e"
  have f: "kern ?e = kern e" "PID ?e = PID e" "proc_queue_start ?e = proc_queue_start e"
    "proc_queue_end ?e = proc_queue_end e" "state (proc_table ?e q) = state (proc_table e q)"
    "page_tables (proc_table ?e q) = page_tables (proc_table e q)" for q
    by (simp_all add: proc_store_ctxt_def)
  then have p: "pids ?e ps = pids e ps" "queue_ok ?e ps = queue_ok e ps" for ps
    by (simp_all only: pids_def queue_ok_def)
  show "pids ?e ps = pids e ps" by (rule p)
  show "sched_inv ?e ps pl = sched_inv e ps pl" unfolding sched_inv_def f p by simp
  show "exec_count (proc_table ?e q) = exec_count (proc_table e q)" "priority (proc_table ?e q) = priority (proc_table e q)"
    by (simp_all add: proc_store_ctxt_def)
qed

lemma store_ctxt_schedulable: "schedulable (proc_store_ctxt c e) = schedulable e"
  unfolding schedulable_def store_ctxt_sched ..

lemma int_proc_switch_ok:
  assumes "schedulable e"
  shows "\<exists>e'. int_proc_switch c e = Inr (ctxt (proc_table e' (PID e')), e') \<and> schedulable e' \<and>
    (\<forall>q. ctxt (proc_table e' q) = (if q = PID e then c else ctxt (proc_table e q)))"
proof -
  have i: "schedulable (proc_store_ctxt c e)" using assms by (simp add: store_ctxt_schedulable)
  obtain e' where e': "proc_next (proc_store_ctxt c e) = Inr e'" using scheduler.tick_ok [OF i] by blast
  have "ctxt (proc_table e' q) = (if q = PID e then c else ctxt (proc_table e q))" for q
    using next_ctxt(1) [OF i e', of q] by (simp add: proc_store_ctxt_def)
  then show ?thesis
    using next_ctxt(2) [OF i e'] e' by (simp add: int_proc_switch_def proc_load_ctxt_def)
qed

text \<open>
  \<open>away p e e'\<close>: timer interrupts lead from \<open>e\<close> to \<open>e'\<close>, each interrupting a process other than
  \<open>p\<close>, with whatever context it has then.
\<close>

inductive away :: "u16 \<Rightarrow> pstate \<Rightarrow> pstate \<Rightarrow> bool" for p e where
  away_refl: "away p e e"
| away_step: "away p e e1 \<Longrightarrow> PID e1 \<noteq> p \<Longrightarrow> int_proc_switch c e1 = Inr (d, e2) \<Longrightarrow> away p e e2"

lemma away_ctxt:
  assumes "away p e e'" and "schedulable e"
  shows "schedulable e' \<and> ctxt (proc_table e' p) = ctxt (proc_table e p)"
  using assms
proof (induction rule: away.induct)
  case (away_step e1 c d e2)
  then have "schedulable e1" by simp
  then show ?case using int_proc_switch_ok [of e1 c] away_step by auto
qed simp

lemma resume:
  assumes "schedulable e" and "int_proc_switch c e = Inr (d, e1)" and "away (PID e) e1 e2" and "PID e2 = PID e"
  shows "proc_load_ctxt e2 = c"
  using int_proc_switch_ok [OF assms(1), of c] assms(2) away_ctxt [OF assms(3)] assms(4)
  by (auto simp: proc_load_ctxt_def)

section \<open>Process IDs\<close>

lemma new_pid_finds:
  "(\<forall>i<n. taken (pid + word_of_nat i)) \<Longrightarrow> \<not> taken (pid + word_of_nat n) \<Longrightarrow>
     proc_new_pid_loop taken pid = Some (pid + word_of_nat n)"
proof (induction n arbitrary: pid)
  case 0
  then show ?case by (simp add: proc_new_pid_loop.simps)
next
  case (Suc n)
  have "taken (pid + 1 + word_of_nat i)" if "i < n" for i
    using Suc.prems(1) [rule_format, of "Suc i"] that by (simp add: ac_simps)
  moreover have "taken pid" using Suc.prems(1) [rule_format, of 0] by simp
  ultimately show ?case
    using Suc.IH [of "pid + 1"] Suc.prems(2) by (simp add: proc_new_pid_loop.simps ac_simps)
qed

lemma new_pid_free:
  assumes "proc_new_pid_loop taken pid = Some p"
  shows "\<not> taken p"
  by (rule proc_new_pid_loop.raw_induct [OF _ assms]) (auto split: if_splits)

lemma new_pid_loop_spec:
  "proc_new_pid_loop taken pid =
     (if \<forall>p. taken p then None else Some (pid + word_of_nat (LEAST n. \<not> taken (pid + word_of_nat n))))"
proof (cases "\<forall>p. taken p")
  case True
  then show ?thesis using new_pid_free [of taken pid] by (cases "proc_new_pid_loop taken pid") auto
next
  case False
  then obtain p where "\<not> taken p" by blast
  then have "\<not> taken (pid + word_of_nat (unat (p - pid)))" by simp
  then have "\<exists>n. \<not> taken (pid + word_of_nat n)" by blast
  then have "\<not> taken (pid + word_of_nat (LEAST n. \<not> taken (pid + word_of_nat n)))" by (rule LeastI_ex)
  moreover have "taken (pid + word_of_nat i)" if "i < (LEAST n. \<not> taken (pid + word_of_nat n))" for i
    using not_less_Least [OF that] by simp
  ultimately have "proc_new_pid_loop taken pid = Some (pid + word_of_nat (LEAST n. \<not> taken (pid + word_of_nat n)))"
    by (intro new_pid_finds) auto
  then show ?thesis using False by simp
qed

end
