(* ===== verification/Proc_Queue.thy ===== *)
theory Proc_Queue
  imports Proc_Schedule Heap_Client
begin

text \<open>
  Adding a process to the queue: \<open>proc_queue_add\<close> with the node it gets from \<open>kmalloc\<close>.
\<close>

section \<open>Nodes are blocks of the heap\<close>

definition in_heap :: "nat \<Rightarrow> chunk list \<Rightarrow> nat list \<Rightarrow> u32 list \<Rightarrow> bool" where
  "in_heap d cs fs ps \<longleftrightarrow> (\<forall>p\<in>set ps. (unat p, 8) \<in> clients d cs fs)"

lemma in_heap_block: "in_heap d cs fs ps \<Longrightarrow> p \<in> set ps \<Longrightarrow> (unat p, 8) \<in> set (blocks d cs)"
  by (simp add: in_heap_def clients_def)

lemma cell_word: "m p = cell m (unat p)" "m (p + 4) = cell m (unat p + 4)"
  by (simp_all add: cell_def)

lemma unat_plus4: "unat p + 8 \<le> 2 ^ 32 \<Longrightarrow> unat (p + 4 :: u32) = unat p + 4"
  by (simp add: unat_word_ariths)

lemma node_limit:
  assumes "heap_ok s d cs ns" and "(unat (p :: u32), 8) \<in> set (blocks d cs)"
  shows "unat p + 8 \<le> 2 ^ 32" and "p \<noteq> 0" and "p + 4 \<noteq> p"
  using blocks_range [OF assms(2)] heap_atD(2,3) [OF heap_okD(1) [OF assms(1)]] by auto

lemma nodes_apart:
  assumes "heap_ok s d cs ns" and "(unat (p :: u32), 8) \<in> set (blocks d cs)" and "(unat q, 8) \<in> set (blocks d cs)"
  shows "p + 4 \<noteq> q"
proof
  assume "p + 4 = q"
  then have "unat q = unat p + 4" using unat_plus4 [OF node_limit(1) [OF assms(1,2)]] by simp
  then show False using blocks_disjoint [OF assms(2,3)] by auto
qed

lemma node_writes:
  assumes k: "heap_ok s d cs ns \<and> pool_ok s d cs fs" and p: "(unat (p :: u32), 8) \<in> clients d cs fs"
  shows "heap_ok (wr p v s) d cs ns \<and> pool_ok (wr p v s) d cs fs"
    and "heap_ok (wr (p + 4) v s) d cs ns \<and> pool_ok (wr (p + 4) v s) d cs fs"
proof -
  note w = client_write_ok(1,2) [OF conjunct1 [OF k] conjunct2 [OF k] p]
  show "heap_ok (wr p v s) d cs ns \<and> pool_ok (wr p v s) d cs fs"
    using w [of "unat p" v] by simp
  show "heap_ok (wr (p + 4) v s) d cs ns \<and> pool_ok (wr (p + 4) v s) d cs fs"
    using w [of "unat p + 4" v] by simp
qed

lemma low_half: "(ucast ((x AND NOT 0xffff) OR ucast (pid :: u16) :: u32) :: u16) = pid"
proof -
  have m: "(0xffff :: u32) = mask 16" by (simp add: mask_eq_exp_minus_1)
  show ?thesis unfolding m by (auto intro!: bit_word_eqI simp: bit_simps)
qed

section \<open>The node is appended\<close>

text \<open>The queue's structure after the three stores that link a new node \<open>p\<close>.\<close>

lemma link_ok:
  fixes x :: u32
  assumes k: "heap_ok s d cs ns" and ps: "in_heap d cs fs ps" and p: "(unat p, 8) \<in> set (blocks d cs)" "p \<notin> set ps"
    and l: "sll (mem s) h ps" "distinct ps" and l': "m1 = (if ps = [] then mem s else (mem s)(last ps := p))"
  defines "m' \<equiv> m1(p + 4 := x, p := 0)"
  shows "sll m' (if ps = [] then p else h) (ps @ [p])" and "q \<in> set ps \<Longrightarrow> m' (q + 4) = mem s (q + 4)" and "m' (p + 4) = x"
proof -
  have n: "q + 4 \<noteq> r" if "q \<in> set (ps @ [p])" "r \<in> set (ps @ [p])" for q r
    using nodes_apart [OF k] in_heap_block [OF ps] p(1) that by auto
  have p4: "p + 4 \<noteq> p" and p0: "p \<noteq> 0" using node_limit [OF k p(1)] by simp_all
  show "m' (p + 4) = x" using p4 by (simp add: m'_def)
  show "m' (q + 4) = mem s (q + 4)" if "q \<in> set ps"
    using n [of q p] n [of q "last ps"] that p(2) last_in_set [of ps] by (auto simp: m'_def l')
  show "sll m' (if ps = [] then p else h) (ps @ [p])"
  proof (cases ps rule: rev_cases)
    case Nil
    then show ?thesis using p0 by (simp add: m'_def)
  next
    case (snoc qs z)
    let ?m = "(mem s)(p + 4 := x)"
    have "sll ?m h (qs @ [z])"
      unfolding snoc [symmetric] by (rule sll_cong [OF _ l(1)]) (use n [of p] in auto)
    then have "sll (?m(z := p, p := 0)) h (qs @ [z, p])"
      by (rule sll_append) (use l(2) p(2) p0 snoc in auto)
    moreover have "m' = ?m(z := p, p := 0)"
      unfolding m'_def l' using n [of p z] snoc by (simp add: fun_upd_twist)
    ultimately show ?thesis by (simp add: snoc)
  qed
qed

definition queue_is :: "pstate \<Rightarrow> u32 list \<Rightarrow> bool" where
  "queue_is e ps \<longleftrightarrow> (if ps = [] then proc_queue_end e = 0 else queue_ok e ps)"

text \<open>A node's cells are not among those that a growth of the heap for one more node writes.\<close>

definition nodes_safe :: "kstate \<Rightarrow> nat \<Rightarrow> chunk list \<Rightarrow> u32 list \<Rightarrow> bool" where
  "nodes_safe s d cs ps \<longleftrightarrow> (\<forall>p\<in>set ps. unat p \<notin> table_cells s d cs 8 \<and> unat p + 4 \<notin> table_cells s d cs 8)"

text \<open>The stores of \<open>proc_queue_add\<close>, once it has its node \<open>p\<close>.\<close>

definition queue_linked :: "u16 \<Rightarrow> u32 \<Rightarrow> u32 list \<Rightarrow> kstate \<Rightarrow> kstate" where
  "queue_linked pid p ps s =
     (let sL = (if ps = [] then s else wr (last ps) p s)
      in wr p 0 (wr (p + 4) ((mem sL (p + 4) AND NOT 0xffff) OR ucast pid) sL))"

definition queue_added :: "u16 \<Rightarrow> u32 \<Rightarrow> u32 list \<Rightarrow> kstate \<Rightarrow> pstate \<Rightarrow> pstate" where
  "queue_added pid p ps s e = e\<lparr>kern := queue_linked pid p ps s,
     proc_queue_start := (if ps = [] then p else proc_queue_start e), proc_queue_end := p, proc_num := proc_num e + 1\<rparr>"

lemma queue_added_fields [simp]:
  "kern (queue_added pid p ps s e) = queue_linked pid p ps s" "proc_num (queue_added pid p ps s e) = proc_num e + 1"
  "proc_table (queue_added pid p ps s e) = proc_table e" "PID (queue_added pid p ps s e) = PID e"
  "next_pid (queue_added pid p ps s e) = next_pid e" "TSS_esp0 (queue_added pid p ps s e) = TSS_esp0 e"
  by (simp_all add: queue_added_def)

lemma queue_add_step:
  assumes km: "kmalloc depth 8 (kern e) = Inr (p, s1)" and h: "heap_ok s1 d cs ns" and ps: "in_heap d cs fs ps"
    and p: "(unat p, 8) \<in> set (blocks d cs)" "p \<notin> set ps" and q: "queue_is e ps"
    and kept: "\<And>a. a \<in> set ps \<Longrightarrow> mem s1 a = mem (kern e) a" "\<And>a. a \<in> set ps \<Longrightarrow> mem s1 (a + 4) = mem (kern e) (a + 4)"
  shows "proc_queue_add depth pid e = Inr (queue_added pid p ps s1 e)" and "queue_ok (queue_added pid p ps s1 e) (ps @ [p])"
    and "pids (queue_added pid p ps s1 e) (ps @ [p]) = pids e ps @ [pid]"
proof -
  let ?e = "queue_added pid p ps s1 e"
  have l: "sll (mem s1) (if ps = [] then 0 else proc_queue_start e) ps" "distinct ps"
    using q sll_cong [OF kept(1), of ps] by (auto simp: queue_is_def queue_ok_def split: if_splits)
  have qe: "proc_queue_end e = (if ps = [] then 0 else last ps)"
    using q by (auto simp: queue_is_def queue_ok_def)
  have last0: "ps \<noteq> [] \<Longrightarrow> last ps \<noteq> 0"
    using node_limit(2) [OF h] in_heap_block [OF ps] last_in_set [of ps] by blast
  define sL where "sL = (if ps = [] then s1 else wr (last ps) p s1)"
  define x where "x = (mem sL (p + 4) AND NOT 0xffff) OR ucast pid"
  have s': "queue_linked pid p ps s1 = wr p 0 (wr (p + 4) x sL)" by (simp add: queue_linked_def sL_def x_def Let_def)
  show "proc_queue_add depth pid e = Inr ?e"
    using last0 unfolding proc_queue_add_def with_kern_def km qe queue_added_def s' x_def sL_def
    by (simp add: Let_def pwr_def set_node_pid_def)
  have mL: "mem sL = (if ps = [] then mem s1 else (mem s1)(last ps := p))" by (simp add: sL_def)
  note lk = link_ok [OF h ps p l mL, where x = x]
  have m': "mem (queue_linked pid p ps s1) = (mem sL)(p + 4 := x, p := 0)" by (simp add: s')
  have blk: "(unat a, 8) \<in> set (blocks d cs)" if "a \<in> set (ps @ [p])" for a
    using that p(1) in_heap_block [OF ps] by auto
  show "queue_ok ?e (ps @ [p])"
    unfolding queue_ok_def
  proof (intro conjI ballI)
    show "sll (mem (kern ?e)) (proc_queue_start ?e) (ps @ [p])"
      using lk(1) by (simp add: queue_added_def m' split: if_splits)
    show "distinct (ps @ [p])" using l(2) p(2) by simp
    fix a b assume "a \<in> set (ps @ [p])" "b \<in> set (ps @ [p])"
    then show "a + 4 \<noteq> b" using nodes_apart [OF h] blk by blast
  qed (simp_all add: queue_added_def)
  have "node_pid (queue_linked pid p ps s1) a = node_pid (kern e) a" if "a \<in> set ps" for a
    using lk(2) [OF that] kept(2) [OF that] unfolding node_pid_def m' by simp
  moreover have "node_pid (queue_linked pid p ps s1) p = pid"
    using lk(3) low_half [of "mem sL (p + 4)" pid] unfolding node_pid_def m' x_def by simp
  ultimately show "pids ?e (ps @ [p]) = pids e ps @ [pid]" by (simp add: pids_def)
qed

lemma queue_linked_ok:
  assumes h: "heap_ok s d cs ns \<and> pool_ok s d cs fs" and p: "(unat p, 8) \<in> clients d cs fs" and ps: "in_heap d cs fs ps"
  shows "heap_ok (queue_linked pid p ps s) d cs ns \<and> pool_ok (queue_linked pid p ps s) d cs fs"
proof -
  have "last ps \<in> set ps" if "ps \<noteq> []" using that by simp
  then have "heap_ok (if ps = [] then s else wr (last ps) p s) d cs ns \<and> pool_ok (if ps = [] then s else wr (last ps) p s) d cs fs"
    using node_writes(1) [OF h] ps h by (simp add: in_heap_def)
  then show ?thesis unfolding queue_linked_def Let_def by (intro node_writes(1) node_writes(2) p)
qed

lemma queue_add_ok:
  assumes k: "heap_ok (kern e) d cs ns" and pool: "pool_ok (kern e) d cs fs" and r: "room (kern e) d cs fs 8"
    and q: "queue_is e ps" and ps: "in_heap d cs fs ps" and safe: "nodes_safe (kern e) d cs ps"
  shows "\<exists>e' p cs' ns' fs'. proc_queue_add (Suc depth) pid e = Inr e' \<and> queue_ok e' (ps @ [p]) \<and>
    pids e' (ps @ [p]) = pids e ps @ [pid] \<and> heap_ok (kern e') d cs' ns' \<and> pool_ok (kern e') d cs' fs' \<and>
    in_heap d cs' fs' (ps @ [p]) \<and> clients d cs' fs' = insert (unat p, 8) (clients d cs fs) \<and>
    proc_num e' = proc_num e + 1 \<and> proc_table e' = proc_table e \<and> PID e' = PID e \<and> next_pid e' = next_pid e"
proof -
  have r8: "rounded (unat (8 :: u32)) = 8" by (simp add: rounded_def)
  obtain n s1 cs' ns' fs' where g: "kmalloc (Suc depth) 8 (kern e) = Inr (word_of_nat n, s1)" "heap_ok s1 d cs' ns'"
      "n + 8 + 8 \<le> 2 ^ 32" "clients d cs' fs' = insert (n, 8) (clients d cs fs)"
      "\<forall>(m, c)\<in>clients d cs fs. n + 8 + 8 \<le> m \<or> m + c + 8 \<le> n"
      "keeps (table_cells (kern e) d cs 8) (clients d cs fs) (mem (kern e)) (mem s1)" "pool_ok s1 d cs' fs'"
    by (rule kmalloc_block [OF k pool r, of depth, unfolded r8, THEN exE]) (elim exE conjE, rule that)
  define p :: u32 where "p = word_of_nat n"
  have up: "unat p = n" unfolding p_def by (rule unat_of_nat32) (use g(3) in simp)
  have pc: "(unat p, 8) \<in> clients d cs' fs'" using g(4) up by simp
  then have pb: "(unat p, 8) \<in> set (blocks d cs')" by (simp add: clients_def)
  have ps': "in_heap d cs' fs' ps" using ps g(4) by (simp add: in_heap_def)
  have new: "p \<notin> set ps"
  proof
    assume "p \<in> set ps"
    then have "(n, 8) \<in> clients d cs fs" using ps up by (auto simp: in_heap_def)
    then show False using g(5) by fastforce
  qed
  have kept: "mem s1 a = mem (kern e) a" "mem s1 (a + 4) = mem (kern e) (a + 4)" if "a \<in> set ps" for a
    unfolding cell_word(1) [of _ a] cell_word(2)
    by (rule keepsD [OF g(6), of "unat a" 8]; use that ps safe in \<open>simp add: in_heap_def nodes_safe_def\<close>)+
  note st = queue_add_step [OF g(1) [folded p_def] g(2) ps' pb new q kept, of pid]
  have "heap_ok (queue_linked pid p ps s1) d cs' ns' \<and> pool_ok (queue_linked pid p ps s1) d cs' fs'"
    using queue_linked_ok [OF conjI [OF g(2,7)] pc ps'] .
  moreover have "in_heap d cs' fs' (ps @ [p])" using ps' pc by (simp add: in_heap_def)
  ultimately show ?thesis
    using st g(4) up
    by (intro exI [of _ "queue_added pid p ps s1 e"] exI [of _ p] exI [of _ cs'] exI [of _ ns'] exI [of _ fs']) simp
qed

end
