(* ===== verification/Proc_Properties.thy ===== *)
theory Proc_Properties
  imports Proc_Queue Heap_Properties
begin

text \<open>
  What is shown of the scheduler, of the process table and of the run queue, with a concrete system of
  two processes: the kernel, which is about to be switched out, and one user process.
\<close>

section \<open>A concrete system\<close>

definition zero_ctxt :: proc_ctxt where
  "zero_ctxt = \<lparr>c_ds = 0, c_es = 0, c_fs = 0, c_gs = 0, c_eax = 0, c_ecx = 0, c_edx = 0, c_ebx = 0, c_ebp = 0,
     c_esi = 0, c_edi = 0, c_eip = 0, c_cs = 0, c_eflags = 0, c_esp = 0, c_ss = 0\<rparr>"

definition demo_proc :: "u32 \<Rightarrow> proc_state \<Rightarrow> u16 \<Rightarrow> u16 \<Rightarrow> proc" where
  "demo_proc tables st cnt prio = \<lparr>inode_id = 0, start_time = 0, page_tables = tables, state = st, ctxt = zero_ctxt,
     exec_count = cnt, priority = prio, ppid = 0\<rparr>"

definition demo_mem :: "u32 \<Rightarrow> u32" where
  "demo_mem = (\<lambda>_. 0)(0xC0401010 := 0xC0401030, 0xC0401034 := 1,
     0xC0401054 := 0x2ff, 0xC0401058 := 0xC0405000, 0xC040105C := 0x207007)"

definition demo_procs :: pstate where
  "demo_procs = \<lparr>kern = demo demo_mem 0 0xC0401068,
     proc_table = (\<lambda>_. demo_proc 0 PROC_DEAD 0 0)(0 := demo_proc 0 PROC_RUNNING 1 10, 1 := demo_proc 0xC0401050 PROC_ACTIVE 1 30),
     proc_num = 1, PID = 0, proc_queue_start = 0xC0401010, proc_queue_end = 0xC0401030, next_pid = 2, TSS_esp0 = 0\<rparr>"

definition demo_tables :: "u16 \<Rightarrow> u32 list" where
  "demo_tables = (\<lambda>_. [])(1 := [0xC0401050])"

lemma demo_sched: "sched_inv demo_procs [0xC0401010, 0xC0401030] demo_tables"
  by (simp add: sched_inv_def queue_ok_def pids_def node_pid_def demo_procs_def demo_def demo_mem_def demo_proc_def demo_tables_def)

lemma demo_schedulable: "schedulable demo_procs"
  by (rule schedulableI [OF demo_sched]) (auto simp: pids_def node_pid_def demo_procs_def demo_def demo_mem_def demo_proc_def)

lemma demo_queue: "run_queue demo_procs = [0, 1]"
  using run_queue_pids [OF demo_sched] by (simp add: pids_def node_pid_def demo_procs_def demo_def demo_mem_def)

section \<open>Ticks\<close>

primrec proc_ticks :: "nat \<Rightarrow> pstate \<Rightarrow> kerror + pstate" where
  "proc_ticks 0 e = Inr e"
| "proc_ticks (Suc n) e = rbind (proc_next e) (proc_ticks n)"

lemma run_ticks: "scheduler.run n e = proc_ticks n e"
proof (induction n arbitrary: e)
  case (Suc n)
  then have "scheduler.run n = proc_ticks n" by blast
  then show ?case by simp
qed simp

text \<open>C6. Invariant: after any number of timer ticks the scheduler has neither died nor looped, the run
  queue has the same processes, and exactly the process at its head, the current one, is running.\<close>

lemma one_running:
  assumes "schedulable e" and "q \<in> set (run_queue e)"
  shows "state (proc_table e q) = PROC_RUNNING \<longleftrightarrow> q = PID e"
proof -
  obtain ps pl where p: "sched_inv e ps pl" "run_queue e = pids e ps" "pids e ps \<noteq> []" "PID e = hd (run_queue e)"
    using schedulableE [OF assms(1)] by blast
  have "q = PID e \<or> q \<in> set (tl (pids e ps))"
    using assms(2) p(2,3,4) by (cases "pids e ps") auto
  then show ?thesis using sched_invD(4,5) [OF p(1)] by auto
qed

lemma next_queue_set:
  assumes "schedulable e" and "proc_next e = Inr e'"
  shows "set (run_queue e') = set (run_queue e)"
proof -
  have "hd (run_queue e) \<in> set (run_queue e)" using scheduler.queue_ok [OF assms(1)] by simp
  then have "0 < ticks_left e (hd (run_queue e))" by (rule schedulable_left(1) [OF assms(1)])
  then have "1 < ticks_left e (hd (run_queue e)) \<or> ticks_left e (hd (run_queue e)) = 1" by linarith
  then show ?thesis
    using scheduler.stay [OF assms] scheduler.switch [OF assms] by auto
qed

lemma ticks_invariant:
  "schedulable e \<Longrightarrow> \<exists>e'. proc_ticks n e = Inr e' \<and> schedulable e' \<and> set (run_queue e') = set (run_queue e)"
proof (induction n arbitrary: e)
  case (Suc n)
  obtain e1 where "proc_next e = Inr e1" "schedulable e1" using scheduler.tick_ok [OF Suc.prems] by blast
  then show ?case using Suc.IH [of e1] next_queue_set [OF Suc.prems] by auto
qed simp

theorem scheduler_invariant:
  assumes "schedulable e"
  shows "\<exists>e'. proc_ticks n e = Inr e' \<and> schedulable e' \<and> set (run_queue e') = set (run_queue e) \<and> PID e' = hd (run_queue e') \<and>
    (\<forall>q\<in>set (run_queue e'). state (proc_table e' q) = PROC_RUNNING \<longleftrightarrow> q = PID e')"
proof -
  obtain e' where e': "proc_ticks n e = Inr e'" "schedulable e'" "set (run_queue e') = set (run_queue e)"
    using ticks_invariant [OF assms] by blast
  then show ?thesis using one_running [OF e'(2)] schedulableE [OF e'(2)] by blast
qed

theorem scheduler_invariant_witness:
  "\<exists>e'. proc_ticks 100 demo_procs = Inr e' \<and> schedulable e' \<and> set (run_queue e') = set (run_queue demo_procs) \<and>
    PID e' = hd (run_queue e') \<and> (\<forall>q\<in>set (run_queue e'). state (proc_table e' q) = PROC_RUNNING \<longleftrightarrow> q = PID e')"
  by (rule scheduler_invariant [OF demo_schedulable])

text \<open>C15. Liveness, with a bound: the process at place \<open>i\<close> of the run queue is running after exactly the
  remaining slices of those before it, and those before it have their full slices again.\<close>

theorem bounded_waiting:
  assumes "schedulable e" and "i < length (run_queue e)"
  shows "\<exists>e'. proc_ticks (\<Sum>j<i. ticks_left e (run_queue e ! j)) e = Inr e' \<and> PID e' = run_queue e ! i \<and>
    state (proc_table e' (run_queue e ! i)) = PROC_RUNNING \<and> run_queue e' = rotate i (run_queue e) \<and>
    (\<forall>q\<in>set (take i (run_queue e)). ticks_left e' q = ticks_quota e q)"
proof -
  obtain e' where e': "proc_ticks (\<Sum>j<i. ticks_left e (run_queue e ! j)) e = Inr e'" "schedulable e'"
      "run_queue e' = rotate i (run_queue e)"
      "ticks_left e' = (\<lambda>p. if p \<in> set (take i (run_queue e)) then ticks_quota e p else ticks_left e p)"
    using scheduler.turn [OF assms(1), of i] assms(2) unfolding run_ticks by auto
  have "hd (run_queue e') = run_queue e ! i"
    unfolding e'(3) using assms(2) by (subst hd_rotate_conv_nth) auto
  then have pid: "PID e' = run_queue e ! i" using schedulableE [OF e'(2)] by metis
  have "PID e' \<in> set (run_queue e')" unfolding pid e'(3) using assms(2) by simp
  then have "state (proc_table e' (PID e')) = PROC_RUNNING" using one_running [OF e'(2)] by blast
  then show ?thesis using e'(1,3,4) pid by auto
qed

theorem bounded_waiting_witness:
  "\<exists>e'. proc_ticks (\<Sum>j<1. ticks_left demo_procs (run_queue demo_procs ! j)) demo_procs = Inr e' \<and>
    PID e' = run_queue demo_procs ! 1 \<and>
    state (proc_table e' (run_queue demo_procs ! 1)) = PROC_RUNNING \<and> run_queue e' = rotate 1 (run_queue demo_procs) \<and>
    (\<forall>q\<in>set (take 1 (run_queue demo_procs)). ticks_left e' q = ticks_quota demo_procs q)"
  by (rule bounded_waiting [OF demo_schedulable]) (simp add: demo_queue)

text \<open>C23. Fairness: when the remaining slices of all processes have passed, the queue is as before and
  every process has a full slice of its priority's length.\<close>

theorem fair_round:
  assumes "schedulable e"
  shows "\<exists>e'. proc_ticks (\<Sum>p\<leftarrow>run_queue e. ticks_left e p) e = Inr e' \<and> run_queue e' = run_queue e \<and>
    (\<forall>p\<in>set (run_queue e). ticks_left e' p = ticks_quota e p) \<and> ticks_quota e' = ticks_quota e"
  using scheduler.round [OF assms] unfolding run_ticks by blast

theorem fair_round_witness:
  "\<exists>e'. proc_ticks (\<Sum>p\<leftarrow>run_queue demo_procs. ticks_left demo_procs p) demo_procs = Inr e' \<and>
    run_queue e' = run_queue demo_procs \<and>
    (\<forall>p\<in>set (run_queue demo_procs). ticks_left e' p = ticks_quota demo_procs p) \<and> ticks_quota e' = ticks_quota demo_procs"
  by (rule fair_round [OF demo_schedulable])

section \<open>Switching\<close>

text \<open>C18. Memory protection at a switch: afterwards every page table of the new process is in the page
  directory and in the lookup table, no directory entry of the old process is left unless the new
  process uses the same index, and every other entry is as before.\<close>

theorem switch_changes_memory_map:
  assumes "sched_inv e ps pl" and "exec_count (proc_table e (PID e)) = 1"
    and "distinct (map (\<lambda>n. mem (kern e) (n + 4)) (pl (hd (rotate1 (pids e ps)))))"
  shows "\<exists>e'. proc_next e = Inr e' \<and> PID e' = hd (rotate1 (pids e ps)) \<and>
    (\<forall>n\<in>set (pl (PID e')). page_dir (kern e') (mem (kern e) (n + 4)) = mem (kern e) (n + 12) \<and>
       page_table_lookup (kern e') (mem (kern e) (n + 4)) = mem (kern e) (n + 8)) \<and>
    (\<forall>i. i \<notin> (\<lambda>n. mem (kern e) (n + 4)) ` set (pl (PID e')) \<longrightarrow>
       page_dir (kern e') i = (if i \<in> (\<lambda>n. mem (kern e) (n + 4)) ` set (pl (PID e)) then 0 else page_dir (kern e) i))"
proof -
  obtain e' where e': "proc_next e = Inr e'" "PID e' = hd (rotate1 (pids e ps))"
      "page_dir (kern e') = page_dir (map_tables (mem (kern e)) (pl (PID e')) (unmap_tables (mem (kern e)) (pl (PID e)) (kern e)))"
      "page_table_lookup (kern e') = page_table_lookup (map_tables (mem (kern e)) (pl (PID e'))
         (unmap_tables (mem (kern e)) (pl (PID e)) (kern e)))"
    using next_switch [OF assms(1,2)] by auto
  have "page_dir (kern e') (mem (kern e) (n + 4)) = mem (kern e) (n + 12) \<and>
      page_table_lookup (kern e') (mem (kern e) (n + 4)) = mem (kern e) (n + 8)" if "n \<in> set (pl (PID e'))" for n
    unfolding e'(3,4) by (rule map_tables_dir [OF assms(3) [folded e'(2)] that])
  moreover have "page_dir (kern e') i = (if i \<in> (\<lambda>n. mem (kern e) (n + 4)) ` set (pl (PID e)) then 0 else page_dir (kern e) i)"
    if "i \<notin> (\<lambda>n. mem (kern e) (n + 4)) ` set (pl (PID e'))" for i
    unfolding e'(3) map_tables_other [OF that] by (rule unmap_tables_dir)
  ultimately show ?thesis using e'(1,2) by blast
qed

lemma demo_pids: "pids demo_procs [0xC0401010, 0xC0401030] = [0, 1]"
  by (simp add: pids_def node_pid_def demo_procs_def demo_def demo_mem_def)

theorem switch_changes_memory_map_witness:
  "\<exists>e'. proc_next demo_procs = Inr e' \<and> PID e' = 1 \<and> page_dir (kern e') 0x2ff = 0x207007 \<and>
    page_table_lookup (kern e') 0x2ff = 0xC0405000"
proof -
  have "mem (kern demo_procs) (0xC0401050 + 4) = 0x2ff" "mem (kern demo_procs) (0xC0401050 + 8) = 0xC0405000"
    "mem (kern demo_procs) (0xC0401050 + 12) = 0x207007"
    by (simp_all add: demo_procs_def demo_def demo_mem_def)
  moreover have "exec_count (proc_table demo_procs (PID demo_procs)) = 1"
    by (simp add: demo_procs_def demo_proc_def)
  ultimately show ?thesis
    using switch_changes_memory_map [OF demo_sched] by (fastforce simp: demo_pids demo_tables_def)
qed



text \<open>C24. A new process gets the first process ID from \<open>next_pid\<close> on, round the 65536 IDs, that is not
  taken; when all are taken the search never ends.\<close>

theorem new_pid_is_first_free:
  "proc_new_pid e =
    (if \<forall>p. state (proc_table e p) \<noteq> PROC_DEAD then Inl Endless
     else let pid = next_pid e + word_of_nat (LEAST n. state (proc_table e (next_pid e + word_of_nat n)) = PROC_DEAD)
          in Inr (pid, e\<lparr>next_pid := pid + 1\<rparr>))"
proof -
  have "proc_pid_taken e = (\<lambda>p. state (proc_table e p) \<noteq> PROC_DEAD)" by (simp add: fun_eq_iff proc_pid_taken_def)
  then show ?thesis unfolding proc_new_pid_def new_pid_loop_spec by (simp add: Let_def)
qed

section \<open>The run queue\<close>

text \<open>C22. \<open>proc_queue_add\<close> appends the process to the run queue, in a node that \<open>kmalloc\<close> took from the
  heap; the processes already queued keep their places and the heap stays well formed.\<close>

theorem queue_add_appends:
  assumes "heap_ok (kern e) d cs ns" and "pool_ok (kern e) d cs fs" and "room (kern e) d cs fs 8" and "queue_is e ps"
    and "in_heap d cs fs ps" and "nodes_safe (kern e) d cs ps"
  shows "\<exists>e' p cs' ns' fs'. proc_queue_add (Suc depth) pid e = Inr e' \<and> queue_ok e' (ps @ [p]) \<and>
    proc_dump_queue e' = Some (pids e ps @ [pid]) \<and> heap_ok (kern e') d cs' ns' \<and> pool_ok (kern e') d cs' fs' \<and>
    in_heap d cs' fs' (ps @ [p]) \<and> clients d cs' fs' = insert (unat p, 8) (clients d cs fs) \<and>
    proc_num e' = proc_num e + 1"
  using queue_add_ok [OF assms, of depth pid] dump_ok by metis

definition demo_idle :: pstate where
  "demo_idle = demo_procs\<lparr>kern := demo_empty, proc_queue_start := 0, proc_queue_end := 0, proc_num := 0\<rparr>"

theorem queue_add_appends_witness:
  "\<exists>e' p cs' ns' fs'. proc_queue_add (Suc 0) 5 demo_idle = Inr e' \<and> queue_ok e' ([] @ [p]) \<and>
    proc_dump_queue e' = Some (pids demo_idle [] @ [5]) \<and> heap_ok (kern e') demo_base cs' ns' \<and>
    pool_ok (kern e') demo_base cs' fs' \<and> in_heap demo_base cs' fs' ([] @ [p]) \<and>
    clients demo_base cs' fs' = insert (unat p, 8) (clients demo_base [] []) \<and> proc_num e' = proc_num demo_idle + 1"
proof (rule queue_add_appends)
  show "heap_ok (kern demo_idle) demo_base [] []" using demo_heaps(1) by (simp add: demo_idle_def)
  show "pool_ok (kern demo_idle) demo_base [] []" by (simp add: demo_idle_def demo_empty_def demo_def)
  show "room (kern demo_idle) demo_base [] [] 8"
    by (simp add: demo_idle_def room_def rounded_def tables_apart_def pages_needed_def page_at_def demo_empty_def demo_def)
qed (simp_all add: demo_idle_def queue_is_def in_heap_def nodes_safe_def)

end
