(* ===== verification/Interrupts.thy ===== *)
theory Interrupts
  imports Gdt Printf_Correct
begin

text \<open>
  \<open>int.c\<close> and \<open>int.h\<close>: the gates of the interrupt table, the handler each vector gets, what each
  handler prints before it halts, and the decoding of a page fault's error code.  Handlers are a
  datatype; the addresses the linker gives them are a parameter.
\<close>

section \<open>Gates\<close>

definition IDT_SIZE :: nat where "IDT_SIZE = 256"
definition IDT_VECTOR_TIMER :: nat where "IDT_VECTOR_TIMER = 65"

definition IDT_GATE_TASK :: u8 where "IDT_GATE_TASK = 0x28"
definition IDT_GATE_INTERRUPT16 :: u8 where "IDT_GATE_INTERRUPT16 = 0x30"
definition IDT_GATE_INTERRUPT32 :: u8 where "IDT_GATE_INTERRUPT32 = 0x70"
definition IDT_GATE_TRAP16 :: u8 where "IDT_GATE_TRAP16 = 0x38"
definition IDT_GATE_TRAP32 :: u8 where "IDT_GATE_TRAP32 = 0x78"

record idt_descriptor_t =
  offset_lo :: u16
  selector :: u16
  gate_type :: u8
  dpl :: "2 word"
  present :: "1 word"
  offset_hi :: u16

text \<open>The bit fields of \<open>idt_descriptor_t\<close>, from bit 0 up; five reserved bits come before the type.\<close>

definition gate_raw :: "idt_descriptor_t \<Rightarrow> u64" where
  "gate_raw g =
     ucast (offset_lo g) OR push_bit 16 (ucast (selector g)) OR push_bit 37 (ucast (gate_type g)) OR
     push_bit 45 (ucast (dpl g)) OR push_bit 47 (ucast (present g)) OR push_bit 48 (ucast (offset_hi g))"

definition idt_descriptor :: "u32 \<Rightarrow> u32 \<Rightarrow> u32 \<Rightarrow> u32 \<Rightarrow> idt_descriptor_t" where
  "idt_descriptor handler sel type level =
     \<lparr>offset_lo = ucast (handler AND 0xffff), selector = ucast sel, gate_type = ucast type,
      dpl = ucast level, present = 1, offset_hi = ucast (drop_bit 16 handler)\<rparr>"

section \<open>Handlers\<close>

datatype handler =
    int_handle_interrupt | int_handle_exception | int_handle_divide_error | int_handle_debug
  | int_handle_nmi_interrupt | int_handle_breakpoint | int_handle_overflow
  | int_handle_bound_range_exceeded | int_handle_invalid_opcode | int_handle_device_not_available
  | int_handle_double_fault | int_handle_coprocessor_segment_overrun | int_handle_invalid_tss
  | int_handle_segment_not_present | int_handle_stack_fault | int_handle_general_protection
  | int_handle_page_fault | int_handle_unknown | int_handle_proc_switch

text \<open>The handlers declared with an error code parameter.\<close>

fun takes_error :: "handler \<Rightarrow> bool" where
  "takes_error int_handle_exception = True"
| "takes_error int_handle_double_fault = True"
| "takes_error int_handle_invalid_tss = True"
| "takes_error int_handle_segment_not_present = True"
| "takes_error int_handle_stack_fault = True"
| "takes_error int_handle_general_protection = True"
| "takes_error int_handle_page_fault = True"
| "takes_error _ = False"

definition vector_handler :: "nat \<Rightarrow> handler" where
  "vector_handler i =
     (if i = 0 then int_handle_divide_error
      else if i = 1 then int_handle_debug
      else if i = 2 then int_handle_nmi_interrupt
      else if i = 3 then int_handle_breakpoint
      else if i = 4 then int_handle_overflow
      else if i = 5 then int_handle_bound_range_exceeded
      else if i = 6 then int_handle_invalid_opcode
      else if i = 7 then int_handle_device_not_available
      else if i = 8 then int_handle_double_fault
      else if i = 9 then int_handle_coprocessor_segment_overrun
      else if i = 10 then int_handle_invalid_tss
      else if i = 11 then int_handle_segment_not_present
      else if i = 12 then int_handle_stack_fault
      else if i = 13 then int_handle_general_protection
      else if i = 14 then int_handle_page_fault
      else if i = 17 then int_handle_exception
      else if i = IDT_VECTOR_TIMER then int_handle_proc_switch
      else int_handle_unknown)"

record idt_state =
  idt :: "u64 list"
  idtr :: u64
  idt_cpu :: cpu

definition int_init_vectors :: "(handler \<Rightarrow> u32) \<Rightarrow> idt_state \<Rightarrow> idt_state" where
  "int_init_vectors address s =
     fold (\<lambda>i s. s\<lparr>idt := (idt s)[i := gate_raw (idt_descriptor (address (vector_handler i))
              (ucast GDT_SEL_CODE_PL0) (ucast IDT_GATE_INTERRUPT32) (ucast RING0))]\<rparr>) [0..<IDT_SIZE] s"

text \<open>\<open>lidt\<close> reads the six bytes of its operand.\<close>

definition lidt :: "u64 \<Rightarrow> cpu \<Rightarrow> cpu" where
  "lidt v c = c\<lparr>reg_idtr := take_bit 48 v\<rparr>"

definition int_load_idt :: "u32 \<Rightarrow> idt_state \<Rightarrow> idt_state" where
  "int_load_idt idt_addr s =
     (let s1 = s\<lparr>idtr := push_bit 16 (ucast idt_addr) OR (8 * 256 - 1)\<rparr>
      in s1\<lparr>idt_cpu := lidt (idtr s1) (idt_cpu s1)\<rparr>)"

definition int_init :: "(handler \<Rightarrow> u32) \<Rightarrow> u32 \<Rightarrow> idt_state \<Rightarrow> idt_state" where
  "int_init address idt_addr s = int_load_idt idt_addr (int_init_vectors address s)"

text \<open>The names of the vectors that the processor reserves; no code prints them yet.\<close>

definition int_string :: "string list" where
  "int_string =
    [''Divide Error'', ''Debug Exception'', ''NMI Interrupt'',
     ''Breakpoint'', ''Overflow'', ''BOUND Range Exceeded'',
     ''Invalid Opcode (Undefined Opcode)'', ''Device Not Available (No Math Coprocessor)'', ''Double Fault'',
     ''Coprocessor Segment Overrun'', ''Invalid TSS'', ''Segment Not Present'',
     ''Stack-Segment Fault'', ''General Protection'', ''Page Fault'',
     ''Intel Reserved (15)'', ''x87 FPU Floating-Point Error'', ''Alignment Check'',
     ''Machine Check'', ''SIMD Floating-Point Exception'', ''Virtualization Exception'',
     ''Intel Reserved (21)'', ''Intel Reserved (22)'', ''Intel Reserved (23)'',
     ''Intel Reserved (24)'', ''Intel Reserved (25)'', ''Intel Reserved (26)'',
     ''Intel Reserved (27)'', ''Intel Reserved (28)'', ''Intel Reserved (29)'',
     ''Intel Reserved (30)'', ''Intel Reserved (31)'']"

lemma int_string_complete: "length int_string = 32" "distinct int_string"
  by (simp_all add: int_string_def)

section \<open>What the handlers print\<close>

record interrupt_frame =
  f_ip :: u32
  f_cs :: u32
  f_flags :: u32

text \<open>The bit fields of \<open>error_code_page_t\<close>, and those the handler looks at.\<close>

definition error_code_page :: layout where
  "error_code_page = [(''violation'', 1), (''write'', 1), (''user_mode'', 1), (''reserved'', 1), (''instruction'', 1),
     (''protection'', 1), (''_reserved0'', 9), (''sgx'', 1), (''_reserved1'', 16)]"

definition pf_violation :: "u32 \<Rightarrow> bool" where
  "pf_violation e \<longleftrightarrow> get_field error_code_page ''violation'' e \<noteq> 0"

definition pf_user_mode :: "u32 \<Rightarrow> bool" where
  "pf_user_mode e \<longleftrightarrow> get_field error_code_page ''user_mode'' e \<noteq> 0"

text \<open>The enumeration of the causes of page faults: its members, from the value 0 up.\<close>

definition page_fault_causes :: "string list" where
  "page_fault_causes =
     [''SUPERVISOR_NOT_PRESENT'', ''SUPERVISOR_VIOLATION'', ''SUPERVISOR_WRITE_NOT_PRESENT'',
      ''SUPERVISOR_WRITE_VIOLATION'', ''USER_NOT_PRESENT'', ''USER_VIOLATION'', ''USER_WRITE_NOT_PRESENT'',
      ''USER_WRITE_VIOLATION'', ''RESERVED_SUPERVISOR_NOT_PRESENT'', ''RESERVED_SUPERVISOR_VIOLATION'',
      ''RESERVED_SUPERVISOR_WRITE_NOT_PRESENT'', ''RESERVED_SUPERVISOR_WRITE_VIOLATION'',
      ''RESERVED_USER_NOT_PRESENT'', ''RESERVED_USER_VIOLATION'', ''RESERVED_USER_WRITE_NOT_PRESENT'',
      ''RESERVED_USER_WRITE_VIOLATION'', ''FETCH_SUPERVISOR_NOT_PRESENT'', ''FETCH_SUPERVISOR_VIOLATION'',
      ''FETCH_SUPERVISOR_WRITE_NOT_PRESENT'', ''FETCH_SUPERVISOR_WRITE_VIOLATION'', ''FETCH_USER_NOT_PRESENT'',
      ''FETCH_USER_VIOLATION'', ''FETCH_USER_WRITE_NOT_PRESENT'', ''FETCH_USER_WRITE_VIOLATION'',
      ''FETCH_RESERVED_SUPERVISOR_NOT_PRESENT'', ''FETCH_RESERVED_SUPERVISOR_VIOLATION'',
      ''FETCH_RESERVED_SUPERVISOR_WRITE_NOT_PRESENT'', ''FETCH_RESERVED_SUPERVISOR_WRITE_VIOLATION'',
      ''FETCH_RESERVED_USER_NOT_PRESENT'', ''FETCH_RESERVED_USER_VIOLATION'',
      ''FETCH_RESERVED_USER_WRITE_NOT_PRESENT'', ''FETCH_RESERVED_USER_WRITE_VIOLATION'',
      ''PROTECTION_SUPERVISOR_NOT_PRESENT'', ''PROTECTION_SUPERVISOR_VIOLATION'',
      ''PROTECTION_SUPERVISOR_WRITE_NOT_PRESENT'', ''PROTECTION_SUPERVISOR_WRITE_VIOLATION'',
      ''PROTECTION_USER_NOT_PRESENT'', ''PROTECTION_USER_VIOLATION'', ''PROTECTION_USER_WRITE_NOT_PRESENT'',
      ''PROTECTION_USER_WRITE_VIOLATION'', ''PROTECTION_RESERVED_SUPERVISOR_NOT_PRESENT'',
      ''PROTECTION_RESERVED_SUPERVISOR_VIOLATION'', ''PROTECTION_RESERVED_SUPERVISOR_WRITE_NOT_PRESENT'',
      ''PROTECTION_RESERVED_SUPERVISOR_WRITE_VIOLATION'', ''PROTECTION_RESERVED_USER_NOT_PRESENT'',
      ''PROTECTION_RESERVED_USER_VIOLATION'', ''PROTECTION_RESERVED_USER_WRITE_NOT_PRESENT'',
      ''PROTECTION_RESERVED_USER_WRITE_VIOLATION'', ''PROTECTION_FETCH_SUPERVISOR_NOT_PRESENT'',
      ''PROTECTION_FETCH_SUPERVISOR_VIOLATION'', ''PROTECTION_FETCH_SUPERVISOR_WRITE_NOT_PRESENT'',
      ''PROTECTION_FETCH_SUPERVISOR_WRITE_VIOLATION'', ''PROTECTION_FETCH_USER_NOT_PRESENT'',
      ''PROTECTION_FETCH_USER_VIOLATION'', ''PROTECTION_FETCH_USER_WRITE_NOT_PRESENT'',
      ''PROTECTION_FETCH_USER_WRITE_VIOLATION'', ''PROTECTION_FETCH_RESERVED_SUPERVISOR_NOT_PRESENT'',
      ''PROTECTION_FETCH_RESERVED_SUPERVISOR_VIOLATION'',
      ''PROTECTION_FETCH_RESERVED_SUPERVISOR_WRITE_NOT_PRESENT'',
      ''PROTECTION_FETCH_RESERVED_SUPERVISOR_WRITE_VIOLATION'', ''PROTECTION_FETCH_RESERVED_USER_NOT_PRESENT'',
      ''PROTECTION_FETCH_RESERVED_USER_VIOLATION'', ''PROTECTION_FETCH_RESERVED_USER_WRITE_NOT_PRESENT'',
      ''PROTECTION_FETCH_RESERVED_USER_WRITE_VIOLATION'']"

text \<open>The format and arguments of the handler's one call of \<open>printk\<close>; then it halts.\<close>

fun handler_message ::
  "handler \<Rightarrow> interrupt_frame \<Rightarrow> u32 \<Rightarrow> u32 \<Rightarrow> u32 \<Rightarrow> u32 \<Rightarrow> (string \<times> va_list) option"
where
  "handler_message int_handle_interrupt f frame e cr2_val sp =
     Some (''INT: IP: %p CS: %p FLAGS: %p'' @ [CHR 0x0A], [f_ip f, f_cs f, f_flags f])"
| "handler_message int_handle_exception f frame e cr2_val sp =
     Some (''EXC: IP: %p CS: %p FLAGS: %p ERROR: %u'' @ [CHR 0x0A], [f_ip f, f_cs f, f_flags f, e])"
| "handler_message int_handle_divide_error f frame e cr2_val sp =
     Some (''Divide Error Exception: ip: %p'', [f_ip f])"
| "handler_message int_handle_debug f frame e cr2_val sp =
     Some (''Debug Exception: ip: %p'' @ [CHR 0x0A], [f_ip f])"
| "handler_message int_handle_nmi_interrupt f frame e cr2_val sp =
     Some (''NMI Interrupt: ip: %p'' @ [CHR 0x0A], [f_ip f])"
| "handler_message int_handle_breakpoint f frame e cr2_val sp =
     Some (''Breakpoint Exception: ip: %p'' @ [CHR 0x0A], [f_ip f])"
| "handler_message int_handle_overflow f frame e cr2_val sp =
     Some (''Overflow Exception: ip: %p'' @ [CHR 0x0A], [f_ip f])"
| "handler_message int_handle_bound_range_exceeded f frame e cr2_val sp =
     Some (''BOUND Range Exceeded Exception: ip: %p'' @ [CHR 0x0A], [f_ip f])"
| "handler_message int_handle_invalid_opcode f frame e cr2_val sp =
     Some (''Invalid Opcode Exception: ip: %p'' @ [CHR 0x0A], [f_ip f])"
| "handler_message int_handle_device_not_available f frame e cr2_val sp =
     Some (''Device Not Available Exception: ip: %p'' @ [CHR 0x0A], [f_ip f])"
| "handler_message int_handle_double_fault f frame e cr2_val sp =
     Some (''Double Fault Exception: ip: %p, error: %p'' @ [CHR 0x0A], [f_ip f, e])"
| "handler_message int_handle_coprocessor_segment_overrun f frame e cr2_val sp =
     Some (''Coprocessor Segment Overrun: ip: %p'' @ [CHR 0x0A], [f_ip f])"
| "handler_message int_handle_invalid_tss f frame e cr2_val sp =
     Some (''Invalid TSS Exception: ip: %p, error: %p'' @ [CHR 0x0A], [f_ip f, e])"
| "handler_message int_handle_segment_not_present f frame e cr2_val sp =
     Some (''Segment Not present: ip: %p, error: %p'' @ [CHR 0x0A], [f_ip f, e])"
| "handler_message int_handle_stack_fault f frame e cr2_val sp =
     Some (''Stack Fault Exception: ip: %p, error: %p'' @ [CHR 0x0A], [f_ip f, e])"
| "handler_message int_handle_general_protection f frame e cr2_val sp =
     Some (''General Protection Exception: ip: %p, error: %p'' @ [CHR 0x0A], [f_ip f, e])"
| "handler_message int_handle_page_fault f frame e cr2_val sp =
     Some (if pf_user_mode e
           then (''USER PAGE FAULT (%p): ip: %p, error: %p'' @ [CHR 0x0A], [cr2_val, f_ip f, e])
           else if \<not> pf_violation e
           then (''SUPERVISOR PAGE ABSENT (%p): ip: %p, error: %p, sp: %p'' @ [CHR 0x0A], [cr2_val, f_ip f, e, sp])
           else (''UNKNOWN PAGE FAULT (%p): ip: %p, error: %p'' @ [CHR 0x0A], [cr2_val, f_ip f, e]))"
| "handler_message int_handle_unknown f frame e cr2_val sp =
     Some (''UNKNOWN INTERRUPT! %p'', [frame])"
| "handler_message int_handle_proc_switch f frame e cr2_val sp = None"

section \<open>Causes of page faults\<close>

text \<open>The name a cause has, put together from the fields of the error code.\<close>

definition cause_name :: "u32 \<Rightarrow> string" where
  "cause_name e =
     (let f = (\<lambda>name. get_field error_code_page name e \<noteq> 0) in
      (if f ''protection'' then ''PROTECTION_'' else []) @ (if f ''instruction'' then ''FETCH_'' else []) @
      (if f ''reserved'' then ''RESERVED_'' else []) @ (if f ''user_mode'' then ''USER_'' else ''SUPERVISOR_'') @
      (if f ''write'' then ''WRITE_'' else []) @ (if f ''violation'' then ''VIOLATION'' else ''NOT_PRESENT''))"

lemma error_code_page_layout: "layout_width error_code_page = 32" "distinct (map fst error_code_page)"
  by (simp_all add: layout_width_def error_code_page_def)

text \<open>The member with the value of an error code is the one named after the code's fields.\<close>

lemma cause_names: "page_fault_causes = map (\<lambda>n. cause_name (word_of_nat n)) [0..<64]"
  by code_simp

section \<open>Gates and vectors\<close>

text \<open>The fields of a gate, as the processor reads them.\<close>

definition gate_offset :: "u64 \<Rightarrow> u32" where
  "gate_offset g = ucast (take_bit 16 g) OR push_bit 16 (ucast (drop_bit 48 g))"
definition gate_selector :: "u64 \<Rightarrow> u16" where "gate_selector g = ucast (drop_bit 16 g)"
definition gate_kind :: "u64 \<Rightarrow> u64" where "gate_kind g = take_bit 5 (drop_bit 40 g)"
definition gate_dpl :: "u64 \<Rightarrow> u64" where "gate_dpl g = take_bit 2 (drop_bit 45 g)"
definition gate_present :: "u64 \<Rightarrow> bool" where "gate_present g = bit g 47"

lemma bit_gate_raw:
  "bit (gate_raw g) n =
    (if n < 16 then bit (offset_lo g) n
     else if n < 32 then bit (selector g) (n - 16)
     else if n < 37 then False
     else if n < 45 then bit (gate_type g) (n - 37)
     else if n < 47 then bit (dpl g) (n - 45)
     else if n < 48 then bit (present g) (n - 47)
     else n < 64 \<and> bit (offset_hi g) (n - 48))"
proof -
  have len: "bit (offset_lo g) n \<Longrightarrow> n < 16" "bit (selector g) k \<Longrightarrow> k < 16" "bit (gate_type g) k \<Longrightarrow> k < 8"
    "bit (dpl g) k \<Longrightarrow> k < 2" "bit (present g) k \<Longrightarrow> k < 1" for k
    by (auto dest: bit_imp_le_length)
  consider "n < 16" | "16 \<le> n" "n < 32" | "32 \<le> n" "n < 37" | "37 \<le> n" "n < 45" | "45 \<le> n" "n < 47"
    | "47 \<le> n" "n < 48" | "48 \<le> n" "n < 64" | "64 \<le> n" by linarith
  then show ?thesis
    unfolding gate_raw_def
    by cases (simp_all add: bit_simps, (use len(1) len(2) [of "n - 16"] len(3) [of "n - 37"] len(4) [of "n - 45"] len(5) [of "n - 47"] in auto)+)
qed

lemma nth_int_init_vectors:
  assumes "length (idt s) = IDT_SIZE" and "i < IDT_SIZE"
  shows "idt (int_init_vectors address s) ! i = gate_raw (idt_descriptor (address (vector_handler i))
     (ucast GDT_SEL_CODE_PL0) (ucast IDT_GATE_INTERRUPT32) (ucast RING0))"
proof -
  let ?g = "\<lambda>i. gate_raw (idt_descriptor (address (vector_handler i))
     (ucast GDT_SEL_CODE_PL0) (ucast IDT_GATE_INTERRUPT32) (ucast RING0))"
  have "length (idt s) = IDT_SIZE \<Longrightarrow> length (idt (fold (\<lambda>i s. s\<lparr>idt := (idt s)[i := ?g i]\<rparr>) [0..<n] s)) = IDT_SIZE \<and>
      (\<forall>i<n. i < IDT_SIZE \<longrightarrow> idt (fold (\<lambda>i s. s\<lparr>idt := (idt s)[i := ?g i]\<rparr>) [0..<n] s) ! i = ?g i)" for n
    by (induction n) (auto simp: less_Suc_eq nth_list_update)
  then show ?thesis using assms unfolding int_init_vectors_def by blast
qed

end
