(* ===== verification/Machine_Properties.thy ===== *)
theory Machine_Properties
  imports Alloc Interrupts
begin

text \<open>
  What is shown of the page tables, the segment table and the interrupt table.
\<close>

section \<open>Page table entries\<close>

lemma unat_aligned:
  assumes "T AND (0xfff :: u32) = 0"
  shows "unat T = unat T div 4096 * 4096"
proof -
  have "unat (T AND mask 12) = 0" using assms unfolding mask_fff by simp
  then have "unat T mod 4096 = 0" by (simp add: unat_and_mask)
  then show ?thesis by (simp add: minus_mod_eq_div_mult [symmetric])
qed

lemma unat_entry:
  assumes "T AND (0xfff :: u32) = 0"
  shows "unat (T + 4 * page_get_table_idx v) = unat T div 4096 * 4096 + 4 * unat (page_get_table_idx v)"
proof -
  have i: "unat (4 * page_get_table_idx v) = 4 * unat (page_get_table_idx v)"
    using table_idx_less [of v] by (simp add: unat_word_ariths)
  have "unat T < 1048576 * 4096" using unsigned_less [of T] by simp
  then have "unat T div 4096 < 1048576" by (simp add: less_mult_imp_div_less)
  then have "unat T div 4096 * 4096 + 4 * unat (page_get_table_idx v) < 2 ^ 32" using table_idx_less [of v] by simp
  then show ?thesis using unat_aligned [OF assms] i by (simp add: unat_word_ariths)
qed

lemma entry_addr_eq:
  assumes "T AND (0xfff :: u32) = 0" and "T' AND 0xfff = 0"
    and "T + 4 * page_get_table_idx v = T' + 4 * page_get_table_idx v'"
  shows "T = T' \<and> page_get_table_idx v = page_get_table_idx v'"
proof -
  let ?i = "unat (page_get_table_idx v)" and ?j = "unat (page_get_table_idx v')"
  have e: "unat T div 4096 * 4096 + 4 * ?i = unat T' div 4096 * 4096 + 4 * ?j"
    using unat_entry [OF assms(1), of v] unat_entry [OF assms(2), of v'] assms(3) by metis
  have l: "4 * ?i < 4096" "4 * ?j < 4096" using table_idx_less by simp_all
  have "unat T div 4096 = (unat T div 4096 * 4096 + 4 * ?i) div 4096" using l(1) by simp
  also have "\<dots> = unat T' div 4096" unfolding e using l(2) by simp
  finally have d: "unat T div 4096 = unat T' div 4096" .
  then have "unat T = unat T'" using unat_aligned [OF assms(1)] unat_aligned [OF assms(2)] by metis
  then have "T = T'" by (rule unsigned_word_eqI)
  moreover have "?i = ?j" using e d by simp
  then have "page_get_table_idx v = page_get_table_idx v'" by (rule unsigned_word_eqI)
  ultimately show ?thesis ..
qed

lemma dir_idx_less: "page_get_dir_idx v < 1024"
proof -
  have "unat v < 1024 * 4194304" using unsigned_less [of v] by simp
  then have "unat v div 4194304 < 1024" by (rule less_mult_imp_div_less)
  then show ?thesis by (simp add: page_get_dir_idx_def word_less_nat_alt unat_drop_bit)
qed

lemma same_page:
  "page_get_dir_idx v = page_get_dir_idx v' \<and> page_get_table_idx v = page_get_table_idx v' \<longleftrightarrow>
     drop_bit 12 v = drop_bit 12 v'"
proof
  assume a: "page_get_dir_idx v = page_get_dir_idx v' \<and> page_get_table_idx v = page_get_table_idx v'"
  show "drop_bit 12 v = drop_bit 12 v'"
  proof (rule bit_word_eqI)
    fix n
    have "bit (drop_bit 22 v) (n - 10) = bit (drop_bit 22 v') (n - 10)"
      "bit (drop_bit 12 v AND mask 10) n = bit (drop_bit 12 v' AND mask 10) n"
      using a by (simp_all add: page_get_dir_idx_def page_get_table_idx_def mask_fff)
    then show "bit (drop_bit 12 v) n = bit (drop_bit 12 v') n"
      by (cases "n < 10") (simp_all add: bit_simps)
  qed
next
  assume a: "drop_bit 12 v = drop_bit 12 v'"
  then have "drop_bit 10 (drop_bit 12 v) = drop_bit 10 (drop_bit 12 v')" by simp
  then have "drop_bit 22 v = drop_bit 22 v'" unfolding drop_bit_drop_bit by simp
  then show "page_get_dir_idx v = page_get_dir_idx v' \<and> page_get_table_idx v = page_get_table_idx v'"
    using a by (simp add: page_get_dir_idx_def page_get_table_idx_def)
qed


definition demo_pager :: kstate where
  "demo_pager = \<lparr>mem = (\<lambda>_. 0), page_dir = (\<lambda>_. 0), page_table_lookup = push_bit 12, kernel_heap_end_pma = 0,
     kernel_heap_end_vma = 0, page_free_list = 0, kernel_ctxt = \<lparr>ac_free_list = 0, ac_start = 0, ac_end = 0\<rparr>,
     get_page_first_run = True\<rparr>"

lemma unat_table: "i < 1024 \<Longrightarrow> unat (push_bit 12 i :: u32) = unat i * 4096"
  by (simp add: push_bit_eq_mult unat_word_ariths word_less_nat_alt)


lemma entry_after:
  "page_get_entry (wr (entry_addr s vma) x s) vma = x"
  by (simp add: page_get_entry_def entry_addr_def page_get_table_def Let_def)

lemmas page_defs = page_remap_def page_unmap_def page_set_flags_def page_get_flags_def page_is_present_def
  page_delete_def page_set_entry_def Let_def entry_after

lemma pma_entry: "page_get_pma s v = page_get_entry s v AND NOT (mask 12)"
  by (simp add: page_get_pma_def page_get_entry_def mask_fff [symmetric])

text \<open>Remapping a page to a page-aligned frame changes the frame and keeps every flag.\<close>

lemma remap_keeps_flags:
  assumes "pma AND 0xfff = 0"
  shows "page_get_pma (page_remap vma pma s) vma = pma \<and> page_get_flags (page_remap vma pma s) vma = page_get_flags s vma"
proof -
  have p: "\<not> (bit pma n \<and> n < 12)" for n
    using arg_cong [OF assms, of "\<lambda>w. bit w n"] unfolding mask_fff by (auto simp: bit_simps)
  have e: "page_get_entry (page_remap vma pma s) vma = (page_get_entry s vma AND mask 12) OR pma"
    unfolding page_remap_def Let_def entry_after mask_fff by (simp add: page_get_entry_def)
  show ?thesis
    unfolding pma_entry page_get_flags_def e mask_fff
    by (intro conjI bit_word_eqI) (use p in \<open>auto simp: bit_simps\<close>)
qed

lemma remap_keeps_flags_instance:
  "page_get_pma (page_remap 0xC0401000 0x5000 demo_pager) 0xC0401000 = 0x5000 \<and>
   page_get_flags (page_remap 0xC0401000 0x5000 demo_pager) 0xC0401000 = page_get_flags demo_pager 0xC0401000"
  by (rule remap_keeps_flags) simp

text \<open>Unmapping a page clears its present flag and nothing else, so \<open>page_free\<close> and \<open>page_get_pma\<close>
  still find its frame; setting flags keeps the frame and replaces all twelve flag bits.\<close>

lemma unmap_and_set_flags:
  "\<not> page_is_present (page_unmap vma s) vma \<and> page_get_pma (page_unmap vma s) vma = page_get_pma s vma \<and>
   page_get_flags (page_unmap vma s) vma = page_get_flags s vma AND NOT PAGE_PRESENT \<and>
   page_get_pma (page_set_flags vma (take_bit 12 f) s) vma = page_get_pma s vma \<and>
   page_get_flags (page_set_flags vma (take_bit 12 f) s) vma = take_bit 12 f"
proof -
  have u: "page_get_entry (page_unmap vma s) vma = page_get_entry s vma AND NOT PAGE_PRESENT"
    unfolding page_unmap_def Let_def entry_after by (simp add: page_get_entry_def)
  have f: "page_get_entry (page_set_flags vma (take_bit 12 f) s) vma =
      push_bit 12 (drop_bit 12 (page_get_entry s vma)) OR take_bit 12 f"
    unfolding page_set_flags_def Let_def entry_after by (simp add: page_get_entry_def)
  have p: "PAGE_PRESENT = mask 1" by (simp add: PAGE_PRESENT_def mask_eq_exp_minus_1)
  show ?thesis
    unfolding pma_entry page_get_flags_def page_is_present_def u f mask_fff p
    by (auto intro!: bit_word_eqI simp: bit_simps)
qed

section \<open>The segment table\<close>

text \<open>C32. Round trip of segment descriptors: reading base, limit, access byte and flags from a descriptor
  gives back what \<open>gdt_descriptor\<close> was called with, the limit cut to its 20 bits.\<close>

theorem gdt_descriptor_roundtrip:
  "seg_base (gdt_descriptor base limit flags) = base \<and> seg_limit (gdt_descriptor base limit flags) = take_bit 20 limit \<and>
   seg_access (gdt_descriptor base limit flags) = ucast flags \<and>
   seg_flags (gdt_descriptor base limit flags) = ucast (drop_bit 12 flags)"
  by (intro conjI gdt_descriptor_base gdt_descriptor_limit gdt_descriptor_access gdt_descriptor_flags)

text \<open>C31. \<open>gdt_init\<close> sets up a flat address space: the null descriptor is zero, the code and data
  selectors of both rings select present, page-granular segments from 0 to the last page, with the
  selector's own privilege level, only the code segments executable, and the segment registers hold
  ring 0 selectors.\<close>

definition flat_segment :: "u64 \<Rightarrow> u64 \<Rightarrow> bool \<Rightarrow> bool" where
  "flat_segment d level code \<longleftrightarrow> seg_base d = 0 \<and> seg_limit d = 0xfffff \<and> seg_present d \<and> seg_page_granular d \<and>
     seg_code_data d \<and> seg_dpl d = level \<and> seg_executable d = code"

definition selected :: "gdt_state \<Rightarrow> u16 \<Rightarrow> u64" where
  "selected s sel = GDT s ! unat (drop_bit 3 sel)"

lemmas gdt_consts = GDT_CODE_PL0_def GDT_DATA_PL0_def GDT_CODE_PL3_def GDT_DATA_PL3_def GDT_TSS_PL0_def GDT_TSS_PL3_def
  SEG_PRES_def SEG_AVLS_def SEG_LONG_def SEG_SIZE_def SEG_GRAN_def SEG_PRIV_def
  GDT_SEL_CODE_PL0_def GDT_SEL_DATA_PL0_def GDT_SEL_CODE_PL3_def GDT_SEL_DATA_PL3_def GDT_SEL_TSS_PL3_def GDT_SEL_TSS_PL0_def

lemmas cpu_setters = load_gdt_def set_cs_def set_ds_def set_es_def set_fs_def set_gs_def set_ss_def set_tr_def

lemma flat_descriptors:
  "flat_segment (gdt_descriptor 0 0xfffff GDT_CODE_PL0) 0 True" "flat_segment (gdt_descriptor 0 0xfffff GDT_DATA_PL0) 0 False"
  "flat_segment (gdt_descriptor 0 0xfffff GDT_CODE_PL3) 3 True" "flat_segment (gdt_descriptor 0 0xfffff GDT_DATA_PL3) 3 False"
  by code_simp+



section \<open>The interrupt table\<close>

text \<open>The gate every vector gets.\<close>

abbreviation kernel_gate :: "u32 \<Rightarrow> u64" where
  "kernel_gate h \<equiv> gate_raw (idt_descriptor h (ucast GDT_SEL_CODE_PL0) (ucast IDT_GATE_INTERRUPT32) (ucast RING0))"

lemma gate_fields:
  "gate_offset (kernel_gate h) = h" "gate_selector (kernel_gate h) = GDT_SEL_CODE_PL0"
  "gate_kind (kernel_gate h) = 14" "gate_dpl (kernel_gate h) = 0" "gate_present (kernel_gate h)"
proof -
  note b = bit_gate_raw idt_descriptor_def
  have m: "(0xffff :: u32) = mask 16" by (simp add: mask_eq_exp_minus_1)
  show "gate_offset (kernel_gate h) = h"
    by (rule bit_word_eqI) (auto simp: gate_offset_def b m bit_simps)
  show "gate_selector (kernel_gate h) = GDT_SEL_CODE_PL0"
    by (rule bit_word_eqI) (auto simp: gate_selector_def b bit_simps)
  have k: "(14 :: u64) = take_bit 5 (ucast (drop_bit 3 IDT_GATE_INTERRUPT32))" by code_simp
  show "gate_kind (kernel_gate h) = 14"
    unfolding k by (rule bit_word_eqI) (auto simp: gate_kind_def b bit_simps)
  show "gate_dpl (kernel_gate h) = 0"
    by (rule bit_word_eqI) (auto simp: gate_dpl_def b bit_simps RING0_def)
  show "gate_present (kernel_gate h)"
    by (simp add: gate_present_def b)
qed

text \<open>C33. After \<open>int_init\<close> every one of the 256 vectors leads to its handler's address through a present
  32-bit interrupt gate with the kernel's code selector, which user code cannot raise by software.\<close>

theorem interrupt_table_complete:
  assumes "length (idt s) = IDT_SIZE" and "i < IDT_SIZE"
  shows "let g = idt (int_init address idt_addr s) ! i in
    gate_offset g = address (vector_handler i) \<and> gate_selector g = GDT_SEL_CODE_PL0 \<and> gate_kind g = 14 \<and>
    gate_dpl g = 0 \<and> gate_present g"
  using nth_int_init_vectors [OF assms] gate_fields by (simp add: int_init_def int_load_idt_def Let_def)

theorem interrupt_table_complete_witness:
  "let g = idt (int_init (\<lambda>h. if h = int_handle_proc_switch then 0xC0105678 else 0xC0100000) 0xC0104000
        \<lparr>idt = replicate 256 0, idtr = 0, idt_cpu = cpu_reset\<rparr>) ! 65 in
    gate_offset g = (\<lambda>h. if h = int_handle_proc_switch then 0xC0105678 else 0xC0100000) (vector_handler 65) \<and>
    gate_selector g = GDT_SEL_CODE_PL0 \<and> gate_kind g = 14 \<and> gate_dpl g = 0 \<and> gate_present g"
  by (rule interrupt_table_complete) (simp_all add: IDT_SIZE_def)



end
