(* ===== verification/Init_Vga.thy ===== *)
theory Init_Vga
  imports Vga
begin

text \<open>
  \<open>init_vga.c\<close>: the text driver of the init section, behind \<open>init_printk\<close>.  It keeps a row and a column
  and, unlike \<open>vga.c\<close>, breaks the line as soon as a row is full and scrolls as soon as the last row is
  left; scrolled-in cells hold a bare space, whose color is black on black.  \<open>None\<close> is an access outside
  the buffer.
\<close>

section \<open>State and operations\<close>

definition INIT_VGA_HEIGHT :: u32 where "INIT_VGA_HEIGHT = 25"
definition INIT_VGA_WIDTH :: u32 where "INIT_VGA_WIDTH = 80"

record init_vga =
  iv_row :: u32
  iv_col :: u32
  iv_color :: u8
  iv_cells :: "u16 list"

definition init_vga_start :: "u16 list \<Rightarrow> init_vga" where
  "init_vga_start cs = \<lparr>iv_row = 0, iv_col = 0,
     iv_color = color_code VGA_COLOR_LIGHT_GREY OR push_bit 4 (color_code VGA_COLOR_BLACK), iv_cells = cs\<rparr>"

definition init_vga_entry_color :: "u8 \<Rightarrow> u8 \<Rightarrow> u8" where
  "init_vga_entry_color fg bg = fg OR push_bit 4 bg"

definition init_vga_entry :: "u8 \<Rightarrow> u8 \<Rightarrow> u16" where
  "init_vga_entry uc color = ucast uc OR push_bit 8 (ucast color)"

definition iv_store :: "u32 \<Rightarrow> u16 \<Rightarrow> init_vga \<Rightarrow> init_vga option" where
  "iv_store index x v =
     (if unat index < length (iv_cells v) then Some (v\<lparr>iv_cells := (iv_cells v)[unat index := x]\<rparr>) else None)"

definition init_vga_putentryat :: "char \<Rightarrow> u8 \<Rightarrow> u32 \<Rightarrow> u32 \<Rightarrow> init_vga \<Rightarrow> init_vga option" where
  "init_vga_putentryat c color x y v =
     iv_store (y * INIT_VGA_WIDTH + x) (init_vga_entry (of_char c) color) v"

text \<open>The \<open>for\<close> loops count from a start to a bound in steps of one; the body can fail.\<close>

fun iterate :: "('a \<Rightarrow> 's \<Rightarrow> 's option) \<Rightarrow> 'a list \<Rightarrow> 's \<Rightarrow> 's option" where
  "iterate body [] s = Some s"
| "iterate body (i # is) s = Option.bind (body i s) (iterate body is)"

definition counter :: "u32 \<Rightarrow> u32 \<Rightarrow> u32 list" where
  "counter lo hi = map word_of_nat [unat lo..<unat hi]"

definition iv_copy_cell :: "u32 \<Rightarrow> u32 \<Rightarrow> u32 \<Rightarrow> init_vga \<Rightarrow> init_vga option" where
  "iv_copy_cell lines y x v =
     (let to_index = y * INIT_VGA_WIDTH + x;
          from_index = to_index + lines * INIT_VGA_WIDTH in
      if unat from_index < length (iv_cells v) then iv_store to_index (iv_cells v ! unat from_index) v else None)"

definition init_vga_scrolldown :: "u32 \<Rightarrow> init_vga \<Rightarrow> init_vga option" where
  "init_vga_scrolldown lines v =
     Option.bind (iterate (\<lambda>y. iterate (iv_copy_cell lines y) (counter 0 INIT_VGA_WIDTH))
         (counter 0 (INIT_VGA_HEIGHT - lines)) v) (\<lambda>v1.
     Option.bind (iterate (\<lambda>y. iterate (\<lambda>x. iv_store (y * INIT_VGA_WIDTH + x) 0x20) (counter 0 INIT_VGA_WIDTH))
         (counter (INIT_VGA_HEIGHT - lines) INIT_VGA_HEIGHT) v1) (\<lambda>v2.
     Some (v2\<lparr>iv_row := iv_row v2 - lines\<rparr>)))"

definition init_vga_linebreak :: "init_vga \<Rightarrow> init_vga option" where
  "init_vga_linebreak v =
     (let v1 = v\<lparr>iv_col := 0\<rparr>;
          v2 = v1\<lparr>iv_row := iv_row v1 + 1\<rparr> in
      if iv_row v2 = INIT_VGA_HEIGHT then init_vga_scrolldown 1 v2 else Some v2)"

definition init_vga_putc :: "char \<Rightarrow> init_vga \<Rightarrow> init_vga option" where
  "init_vga_putc c v =
     (if c = CHR 0x0A then init_vga_linebreak v
      else Option.bind (init_vga_putentryat c (iv_color v) (iv_col v) (iv_row v) v) (\<lambda>v1.
             let v2 = v1\<lparr>iv_col := iv_col v1 + 1\<rparr> in
             if iv_col v2 = INIT_VGA_WIDTH then init_vga_linebreak v2 else Some v2))"

primrec init_vga_write :: "string \<Rightarrow> init_vga \<Rightarrow> init_vga option" where
  "init_vga_write [] v = Some v"
| "init_vga_write (c # cs) v = Option.bind (init_vga_putc c v) (init_vga_write cs)"

definition init_vga_puts :: "cmem \<Rightarrow> u32 \<Rightarrow> init_vga \<Rightarrow> init_vga option" where
  "init_vga_puts m data v =
     Option.bind (strlen m data) (\<lambda>size.
       init_vga_write (map (\<lambda>i. m (data + word_of_nat i)) [0..<unat size]) v)"

definition init_vga_clear :: "init_vga \<Rightarrow> init_vga option" where
  "init_vga_clear v =
     iterate (\<lambda>y. iterate (\<lambda>x v. iv_store (y * INIT_VGA_WIDTH + x)
         (init_vga_entry (of_char (CHR '' '')) (iv_color v)) v) (counter 0 INIT_VGA_WIDTH))
       (counter 0 INIT_VGA_HEIGHT) v"

definition init_vga_get_col :: "init_vga \<Rightarrow> u32" where "init_vga_get_col v = iv_col v"
definition init_vga_get_row :: "init_vga \<Rightarrow> u32" where "init_vga_get_row v = iv_row v"

section \<open>Nested loops over rows and columns\<close>

lemma iterate_append: "iterate f (xs @ ys) s = Option.bind (iterate f xs s) (iterate f ys)"
  by (induction xs arbitrary: s) (simp_all split: bind_splits)

lemma iterate_map: "iterate f (map g xs) s = iterate (\<lambda>x. f (g x)) xs s"
  by (induction xs arbitrary: s) (simp_all split: bind_splits)

lemma iterate_cong: "(\<And>x s. x \<in> set xs \<Longrightarrow> f x s = g x s) \<Longrightarrow> iterate f xs s = iterate g xs s"
  by (induction xs arbitrary: s) (auto split: bind_splits)

lemma counter_width: "counter 0 INIT_VGA_WIDTH = map word_of_nat [0..<80]"
proof -
  have "unat (80 :: u32) = 80" by simp
  then show ?thesis unfolding counter_def INIT_VGA_WIDTH_def by (simp only: unsigned_0)
qed

text \<open>Rows \<open>a\<close> to \<open>b\<close> with 80 columns each are the cells from \<open>80 a\<close> to \<open>80 b\<close>.\<close>

lemma rows_are_cells:
  assumes "a \<le> b" and "b \<le> 25"
  shows "iterate (\<lambda>y. iterate (\<lambda>x. f (y * INIT_VGA_WIDTH + x)) (counter 0 INIT_VGA_WIDTH))
      (map word_of_nat [a..<b]) s = iterate f (map word_of_nat [80 * a..<80 * b]) s"
  using assms
proof (induction "b - a" arbitrary: a s)
  case 0
  then show ?case by simp
next
  case (Suc n)
  have row: "iterate (\<lambda>x. f (word_of_nat a * INIT_VGA_WIDTH + x)) (counter 0 INIT_VGA_WIDTH) s =
      iterate f (map word_of_nat [80 * a..<80 * a + 80]) s" for s
  proof -
    have "map word_of_nat [80 * a..<80 * a + 80] = map (\<lambda>x. word_of_nat a * INIT_VGA_WIDTH + x) (counter 0 INIT_VGA_WIDTH)"
      unfolding counter_width unfolding INIT_VGA_WIDTH_def by (intro nth_equalityI) (simp_all add: algebra_simps)
    then show ?thesis by (simp only: iterate_map)
  qed
  have ab: "[a..<b] = a # [Suc a..<b]" "[80 * a..<80 * b] = [80 * a..<80 * a + 80] @ [80 * Suc a..<80 * b]"
  proof -
    show "[a..<b] = a # [Suc a..<b]" using Suc.hyps(2) by (simp add: upt_conv_Cons)
    have "80 * b = 80 * a + 80 + 80 * (b - Suc a)" using Suc.hyps(2) by simp
    then show "[80 * a..<80 * b] = [80 * a..<80 * a + 80] @ [80 * Suc a..<80 * b]"
      using upt_add_eq_append [of "80 * a" "80 * a + 80" "80 * (b - Suc a)"] by (simp add: add.commute)
  qed
  then show ?case
    using Suc.hyps(1) [of "Suc a"] Suc.hyps(2) Suc.prems
    by (simp add: row iterate_append cong: Option.bind_cong)
qed

section \<open>Scrolling\<close>

definition iv_ok :: "init_vga \<Rightarrow> bool" where
  "iv_ok v \<longleftrightarrow> length (iv_cells v) = 2000 \<and> iv_row v < 25 \<and> iv_col v < 80"

lemma counter_rows: "counter 0 24 = map word_of_nat [0..<24]" "counter 24 25 = map word_of_nat [24..<25]"
  "counter 0 25 = map word_of_nat [0..<25]"
proof -
  have "unat (24 :: u32) = 24" "unat (25 :: u32) = 25" by simp_all
  then show "counter 0 24 = map word_of_nat [0..<24]" "counter 24 25 = map word_of_nat [24..<25]"
    "counter 0 25 = map word_of_nat [0..<25]"
    unfolding counter_def by (simp_all only: unsigned_0)
qed

definition iv_move :: "u32 \<Rightarrow> init_vga \<Rightarrow> init_vga option" where
  "iv_move i v = (if unat (i + 80) < length (iv_cells v) then iv_store i (iv_cells v ! unat (i + 80)) v else None)"

lemma move_cells:
  assumes "n + 80 \<le> 2000" and "length (iv_cells v) = 2000"
  shows "iterate iv_move (map word_of_nat [0..<n]) v =
    Some (v\<lparr>iv_cells := take n (drop 80 (iv_cells v)) @ drop n (iv_cells v)\<rparr>)"
  using assms(1)
proof (induction n)
  case 0
  then show ?case by simp
next
  case (Suc n)
  let ?v = "v\<lparr>iv_cells := take n (drop 80 (iv_cells v)) @ drop n (iv_cells v)\<rparr>"
  have u: "unat (word_of_nat n :: u32) = n" "unat (word_of_nat n + 80 :: u32) = n + 80"
    using Suc.prems unat_of_nat32 [of n] unat_of_nat32 [of "n + 80"] by simp_all
  have "iv_cells ?v ! (n + 80) = iv_cells v ! (n + 80)"
    using Suc.prems assms(2) by (simp add: nth_append)
  moreover have "(take n (drop 80 (iv_cells v)) @ drop n (iv_cells v))[n := iv_cells v ! (n + 80)] =
      take (Suc n) (drop 80 (iv_cells v)) @ drop (Suc n) (iv_cells v)"
  proof -
    have "drop n (iv_cells v) = iv_cells v ! n # drop (Suc n) (iv_cells v)"
      using Suc.prems assms(2) by (simp add: Cons_nth_drop_Suc)
    then show ?thesis
      using Suc.prems assms(2) by (simp add: list_update_append take_Suc_conv_app_nth add.commute [of 80])
  qed
  ultimately have "iv_move (word_of_nat n) ?v =
      Some (v\<lparr>iv_cells := take (Suc n) (drop 80 (iv_cells v)) @ drop (Suc n) (iv_cells v)\<rparr>)"
    using Suc.prems assms(2) u by (simp add: iv_move_def iv_store_def)
  then show ?case using Suc by (simp add: iterate_append)
qed

lemma fill_cells:
  assumes "a \<le> b" and "b \<le> 2000" and "length (iv_cells v) = 2000"
  shows "iterate (\<lambda>i. iv_store i x) (map word_of_nat [a..<b]) v =
    Some (v\<lparr>iv_cells := take a (iv_cells v) @ replicate (b - a) x @ drop b (iv_cells v)\<rparr>)"
  using assms(1,2)
proof (induction "b - a" arbitrary: b)
  case 0
  then show ?case by simp
next
  case (Suc k)
  then obtain c where b: "b = Suc c" by (cases b) auto
  let ?v = "v\<lparr>iv_cells := take a (iv_cells v) @ replicate (c - a) x @ drop c (iv_cells v)\<rparr>"
  have ih: "iterate (\<lambda>i. iv_store i x) (map word_of_nat [a..<c]) v = Some ?v"
    using Suc.hyps(1) [of c] Suc.hyps(2) Suc.prems b by simp
  have "(take a (iv_cells v) @ replicate (c - a) x @ drop c (iv_cells v))[c := x] =
      take a (iv_cells v) @ replicate (b - a) x @ drop b (iv_cells v)"
  proof -
    have "a \<le> c" using Suc.hyps(2) b by simp
    moreover have "drop c (iv_cells v) = iv_cells v ! c # drop (Suc c) (iv_cells v)"
      using Suc.prems assms(3) b by (simp add: Cons_nth_drop_Suc)
    ultimately show ?thesis
      using Suc.prems assms(3) b
      by (simp add: list_update_append Suc_diff_le replicate_append_same [symmetric])
  qed
  moreover have "unat (word_of_nat c :: u32) = c" using Suc.prems b by (simp add: unat_of_nat32)
  ultimately have "iv_store (word_of_nat c) x ?v =
      Some (v\<lparr>iv_cells := take a (iv_cells v) @ replicate (b - a) x @ drop b (iv_cells v)\<rparr>)"
    using Suc.hyps(2) Suc.prems assms(3) b by (simp add: iv_store_def)
  then show ?case using ih b Suc.hyps(2) by (simp add: iterate_append)
qed

definition iv_rows_up :: "init_vga \<Rightarrow> init_vga" where
  "iv_rows_up v = v\<lparr>iv_cells := drop 80 (iv_cells v) @ replicate 80 0x20, iv_row := iv_row v - 1\<rparr>"

lemma init_vga_scrolldown_eq:
  assumes "length (iv_cells v) = 2000"
  shows "init_vga_scrolldown 1 v = Some (iv_rows_up v)"
proof -
  have copy: "iv_copy_cell 1 y = (\<lambda>x. iv_move (y * INIT_VGA_WIDTH + x))" for y
    by (intro ext) (simp add: iv_copy_cell_def iv_move_def INIT_VGA_WIDTH_def Let_def)
  have "iterate (\<lambda>y. iterate (iv_copy_cell 1 y) (counter 0 INIT_VGA_WIDTH)) (counter 0 (INIT_VGA_HEIGHT - 1)) v =
      Some (v\<lparr>iv_cells := take 1920 (drop 80 (iv_cells v)) @ drop 1920 (iv_cells v)\<rparr>)"
    unfolding copy using rows_are_cells [of 0 24 iv_move v] move_cells [of 1920 v] assms
    by (simp add: INIT_VGA_HEIGHT_def counter_rows)
  moreover have "iterate (\<lambda>y. iterate (\<lambda>x. iv_store (y * INIT_VGA_WIDTH + x) 0x20) (counter 0 INIT_VGA_WIDTH))
      (counter (INIT_VGA_HEIGHT - 1) INIT_VGA_HEIGHT) w =
      Some (w\<lparr>iv_cells := take 1920 (iv_cells w) @ replicate 80 0x20 @ drop 2000 (iv_cells w)\<rparr>)"
    if "length (iv_cells w) = 2000" for w
    using rows_are_cells [of 24 25 "\<lambda>i. iv_store i 0x20" w] fill_cells [of 1920 2000 w] that
    by (simp add: INIT_VGA_HEIGHT_def counter_rows)
  ultimately show ?thesis
    using assms by (simp add: init_vga_scrolldown_def iv_rows_up_def)
qed

section \<open>The driver is a console\<close>

definition iv_cursor :: "init_vga \<Rightarrow> nat" where
  "iv_cursor v = 80 * unat (iv_row v) + unat (iv_col v)"

definition iv_glyph :: "init_vga \<Rightarrow> char \<Rightarrow> u16" where
  "iv_glyph v c = init_vga_entry (of_char c) (iv_color v)"

lemma iv_ok_rows_up:
  assumes "length (iv_cells v) = 2000" and "iv_row v = 25" and "iv_col v < 80"
  shows "iv_ok (iv_rows_up v)"
  using assms by (simp add: iv_ok_def iv_rows_up_def)

lemma unat_lt: "(w :: u32) < 25 \<longleftrightarrow> unat w < 25" "(w :: u32) < 80 \<longleftrightarrow> unat w < 80"
  by (simp_all add: word_less_nat_alt)

lemma init_vga_linebreak_ok:
  assumes "length (iv_cells v) = 2000" and "iv_row v < 25"
  shows "\<exists>v'. init_vga_linebreak v = Some v' \<and> iv_ok v' \<and> iv_col v' = 0 \<and> iv_color v' = iv_color v \<and>
    (unat (iv_row v) < 24 \<longrightarrow> iv_cells v' = iv_cells v \<and> unat (iv_row v') = Suc (unat (iv_row v)))"
proof -
  have r: "unat (iv_row v + 1) = Suc (unat (iv_row v))"
    using assms(2) by (intro unat_plus_one_less [where lim = 25]) (simp add: unat_lt)
  have e: "iv_row v + 1 = INIT_VGA_HEIGHT \<longleftrightarrow> unat (iv_row v) = 24"
    unfolding INIT_VGA_HEIGHT_def word_unat_eq_iff r by simp
  show ?thesis
  proof (cases "unat (iv_row v) = 24")
    case True
    then have "iv_row v + 1 = 25" using e by (simp add: INIT_VGA_HEIGHT_def)
    then show ?thesis
      using iv_ok_rows_up [of "v\<lparr>iv_col := 0, iv_row := 25\<rparr>"] assms(1) True
      by (simp add: init_vga_linebreak_def Let_def INIT_VGA_HEIGHT_def init_vga_scrolldown_eq iv_rows_up_def)
  next
    case False
    then show ?thesis
      using e r assms by (simp add: init_vga_linebreak_def Let_def iv_ok_def unat_lt)
  qed
qed

lemma iv_index:
  assumes "iv_row v < 25" and "iv_col v < 80"
  shows "unat (iv_row v * INIT_VGA_WIDTH + iv_col v) = iv_cursor v" and "iv_cursor v < 2000"
proof -
  have l: "unat (iv_row v) < 25" "unat (iv_col v) < 80" using assms by (simp_all add: unat_lt)
  then show "iv_cursor v < 2000" by (simp add: iv_cursor_def)
  have "unat (iv_row v * 80) = unat (iv_row v) * 80"
    using l by (subst unat_mult_less) simp_all
  then show "unat (iv_row v * INIT_VGA_WIDTH + iv_col v) = iv_cursor v"
    using l unfolding iv_cursor_def INIT_VGA_WIDTH_def by (subst unat_add_less_32) simp_all
qed

lemma init_vga_putc_ok:
  assumes "iv_ok v"
  shows "\<exists>v'. init_vga_putc c v = Some v' \<and> iv_ok v' \<and> iv_color v' = iv_color v \<and>
    (c \<noteq> CHR 0x0A \<and> iv_cursor v < 1999 \<longrightarrow>
       iv_cells v' = (iv_cells v)[iv_cursor v := iv_glyph v c] \<and> iv_cursor v' = Suc (iv_cursor v))"
proof -
  have a: "length (iv_cells v) = 2000" "iv_row v < 25" "iv_col v < 80"
    using assms by (simp_all add: iv_ok_def)
  note i = iv_index [OF a(2,3)]
  show ?thesis
  proof (cases "c = CHR 0x0A")
    case True
    then show ?thesis using init_vga_linebreak_ok [OF a(1,2)] by (auto simp: init_vga_putc_def)
  next
    case False
    let ?w = "v\<lparr>iv_cells := (iv_cells v)[iv_cursor v := iv_glyph v c], iv_col := iv_col v + 1\<rparr>"
    have put: "init_vga_putc c v = (if iv_col ?w = INIT_VGA_WIDTH then init_vga_linebreak ?w else Some ?w)"
      using False a(1) i by (simp add: init_vga_putc_def init_vga_putentryat_def iv_store_def iv_glyph_def Let_def)
    have c1: "unat (iv_col v + 1) = Suc (unat (iv_col v))"
      using a(3) by (intro unat_plus_one_less [where lim = 80]) (simp add: unat_lt)
    have e: "iv_col ?w = INIT_VGA_WIDTH \<longleftrightarrow> unat (iv_col v) = 79"
      unfolding INIT_VGA_WIDTH_def word_unat_eq_iff using c1 by simp
    show ?thesis
    proof (cases "unat (iv_col v) = 79")
      case True
      obtain v' where v': "init_vga_linebreak ?w = Some v'" "iv_ok v'" "iv_col v' = 0" "iv_color v' = iv_color v"
          "unat (iv_row v) < 24 \<longrightarrow> iv_cells v' = iv_cells ?w \<and> unat (iv_row v') = Suc (unat (iv_row v))"
        using init_vga_linebreak_ok [of ?w] a by auto
      then show ?thesis using put e True by (auto simp: iv_cursor_def)
    next
      case False
      then show ?thesis
        using put e a c1 by (auto simp: iv_ok_def unat_lt iv_cursor_def)
    qed
  qed
qed

interpretation init_console: console
  init_vga_putc iv_ok iv_cursor iv_cells iv_glyph 1999
proof
  fix s :: init_vga and c :: char
  assume "iv_ok s"
  then show "\<exists>s'. init_vga_putc c s = Some s' \<and> iv_ok s'" using init_vga_putc_ok by blast
next
  fix s s' :: init_vga and c :: char
  assume "iv_ok s" "c \<noteq> CHR 0x0A" "iv_cursor s < 1999" "init_vga_putc c s = Some s'"
  then show "iv_cells s' = (iv_cells s)[iv_cursor s := iv_glyph s c] \<and>
      iv_cursor s' = Suc (iv_cursor s) \<and> iv_glyph s' = iv_glyph s"
    using init_vga_putc_ok [of s c] by (auto simp: iv_glyph_def fun_eq_iff)
next
  fix s :: init_vga
  assume "iv_ok s"
  then show "1999 < length (iv_cells s)" by (simp add: iv_ok_def)
qed

lemma init_vga_write_puts: "init_vga_write cs v = puts init_vga_putc cs v"
  by (induction cs arbitrary: v) (simp_all split: bind_split)

lemma init_vga_clear_eq:
  assumes "length (iv_cells v) = 2000"
  shows "init_vga_clear v = Some (v\<lparr>iv_cells := replicate 2000 (iv_glyph v (CHR '' ''))\<rparr>)"
proof -
  have col: "iterate (\<lambda>i w. iv_store i (init_vga_entry (of_char (CHR '' '')) (iv_color w)) w) is w =
      iterate (\<lambda>i. iv_store i (iv_glyph v (CHR '' ''))) is w" if "iv_color w = iv_color v" for "is" w
    using that by (induction "is" arbitrary: w) (auto simp: iv_glyph_def iv_store_def split: bind_splits)
  show ?thesis
    unfolding init_vga_clear_def
    using rows_are_cells [of 0 25 "\<lambda>i w. iv_store i (init_vga_entry (of_char (CHR '' '')) (iv_color w)) w" v]
      col [of v] fill_cells [of 0 2000 v "iv_glyph v (CHR '' '')"] assms
    by (simp add: INIT_VGA_HEIGHT_def counter_rows)
qed

end
