(* ===== verification/Init_Map.thy ===== *)
theory Init_Map
  imports Alloc Cpu Init_Vga
begin

text \<open>
  \<open>init.c\<close>: the first page map, built with paging off.  Memory is physical here, one 32-bit cell per
  4-aligned address.  \<open>init_page_struct\<close> lies at \<open>init_page_struct_addr\<close>: the page directory, the lookup
  table and the stack page, 4096 bytes each.
\<close>

section \<open>State\<close>

record init_state =
  phys :: "u32 \<Rightarrow> u32"
  init_page_next_pma :: u32
  init_page_next_vma :: u32
  init_vga_buffer_vma :: u32
  page_table_vma_offset :: u32

definition init_start :: "(u32 \<Rightarrow> u32) \<Rightarrow> init_state" where
  "init_start m = \<lparr>phys = m, init_page_next_pma = 0, init_page_next_vma = 0, init_vga_buffer_vma = 0,
     page_table_vma_offset = PAGE_SIZE\<rparr>"

definition iwr :: "u32 \<Rightarrow> u32 \<Rightarrow> init_state \<Rightarrow> init_state" where
  "iwr a v s = s\<lparr>phys := (phys s)(a := v)\<rparr>"

text \<open>The addresses of \<open>page_dir[i]\<close> and \<open>page_table_lookup[i]\<close>.\<close>

definition dir_at :: "linker \<Rightarrow> u32 \<Rightarrow> u32" where
  "dir_at l i = init_page_struct_addr l + 4 * i"

definition lookup_at :: "linker \<Rightarrow> u32 \<Rightarrow> u32" where
  "lookup_at l i = init_page_struct_addr l + PAGE_SIZE + 4 * i"

section \<open>Mapping a page\<close>

definition init_page_clear :: "u32 \<Rightarrow> init_state \<Rightarrow> init_state" where
  "init_page_clear pma s =
     fold (\<lambda>i s. iwr (pma + word_of_nat (8 * i) + 4) 0 (iwr (pma + word_of_nat (8 * i)) 0 s)) [0..<512] s"

definition init_page_table_new :: "linker \<Rightarrow> u32 \<Rightarrow> init_state \<Rightarrow> u32 \<times> init_state" where
  "init_page_table_new l vma s =
     (let page_dir_idx = drop_bit 22 vma;
          table_pma = align (init_page_next_pma s) PAGE_SIZE;
          s1 = init_page_clear table_pma s;
          s2 = s1\<lparr>init_page_next_pma := table_pma + PAGE_SIZE\<rparr>;
          s3 = iwr (lookup_at l page_dir_idx) (page_table_vma_offset s2) s2
      in (table_pma, s3\<lparr>page_table_vma_offset := page_table_vma_offset s3 + PAGE_SIZE\<rparr>))"

definition init_page_map :: "linker \<Rightarrow> u32 \<Rightarrow> u32 \<Rightarrow> u32 \<Rightarrow> init_state \<Rightarrow> init_state" where
  "init_page_map l vma pma flags s =
     (let page_dir_idx = drop_bit 22 vma;
          page_table_idx = drop_bit 12 vma AND 0x3ff;
          table = push_bit 12 (drop_bit 12 (phys s (dir_at l page_dir_idx)));
          (table, s1) =
            (if phys s (dir_at l page_dir_idx) AND PAGE_PRESENT = 0
             then (let (new_table, s1) = init_page_table_new l vma s;
                       s2 = iwr (dir_at l page_dir_idx) (new_table OR PAGE_PUBLIC OR PAGE_WRITE OR PAGE_PRESENT) s1
                   in (new_table, iwr (new_table + 4 * page_table_idx) pma s2))
             else (table, iwr (table + 4 * page_table_idx)
                            ((phys s (table + 4 * page_table_idx) AND 0xfff) OR pma) s));
          a = table + 4 * page_table_idx
      in iwr a (phys s1 a OR flags) s1)"

section \<open>The kernel's map\<close>

text \<open>
  The loops share the counter \<open>i\<close>: \<open>page_range f i lim s\<close> runs \<^verbatim>\<open>for (; i < lim; i += PAGE_SIZE)\<close> and
  returns the counter with the state.
\<close>

definition page_range ::
  "(u32 \<Rightarrow> init_state \<Rightarrow> init_state) \<Rightarrow> u32 \<Rightarrow> u32 \<Rightarrow> init_state \<Rightarrow> kerror + (u32 \<times> init_state)"
where
  "page_range f i lim s =
     returns (for_loop PAGE_SIZE (\<lambda>i (_, s). Inr (i + PAGE_SIZE, f i s)) i lim (i, s))"

definition VGA_PADDR_BUFFER :: u32 where "VGA_PADDR_BUFFER = 0xB8000"

definition new_tables :: "u32 \<Rightarrow> u32 \<Rightarrow> u32" where
  "new_tables next_pma kernel_end_pma =
     (let kernel_end_dir_aligned = align kernel_end_pma (PAGE_ENTRIES * PAGE_SIZE) in
      if next_pma < kernel_end_dir_aligned then 0
      else (next_pma - kernel_end_dir_aligned) div (PAGE_ENTRIES * PAGE_SIZE))"

definition fix_entry :: "linker \<Rightarrow> nat \<Rightarrow> init_state \<Rightarrow> init_state" where
  "fix_entry l i s =
     (let a = lookup_at l (word_of_nat i) in
      if phys s a \<noteq> 0 then iwr a (phys s a + (init_page_next_vma s - PAGE_SIZE)) s else s)"

definition fix_lookup :: "linker \<Rightarrow> init_state \<Rightarrow> init_state" where
  "fix_lookup l s = fold (fix_entry l) [0..<1024] s"

definition init_map_kernel :: "linker \<Rightarrow> init_state \<Rightarrow> kerror + init_state" where
  "init_map_kernel l s0 =
     (let s1 = s0\<lparr>init_page_next_pma := KERNEL_END_VMA l - KERNEL_START_VMA l + INIT_BSS_END l\<rparr> in
      rbind (page_range (\<lambda>i. init_page_map l i i (PAGE_WRITE OR PAGE_PRESENT)) (INIT_START l) (INIT_BSS_END l) s1) (\<lambda>(_, s2).
      rbind (page_range (\<lambda>i. init_page_map l (TEXT_START_VMA l + i) (INIT_BSS_END l + i) (PAGE_PUBLIC OR PAGE_PRESENT))
               0 (RODATA_END_VMA l - TEXT_START_VMA l) s2) (\<lambda>(i, s3).
      rbind (page_range (\<lambda>i. init_page_map l (TEXT_START_VMA l + i) (INIT_BSS_END l + i)
                               (PAGE_PUBLIC OR PAGE_WRITE OR PAGE_PRESENT))
               i (BSS_END_VMA l - TEXT_START_VMA l) s3) (\<lambda>(_, s4).
      let s5 = s4\<lparr>init_page_next_vma := BSS_END_VMA l\<rparr>;
          s6 = init_page_map l (init_page_next_vma s5) (init_page_struct_addr l) (PAGE_WRITE OR PAGE_PRESENT) s5;
          s7 = s6\<lparr>init_page_next_vma := init_page_next_vma s6 + PAGE_SIZE\<rparr>;
          s8 = init_page_map l (init_page_next_vma s7) (init_page_struct_addr l + PAGE_SIZE) (PAGE_WRITE OR PAGE_PRESENT) s7;
          s9 = s8\<lparr>init_page_next_vma := init_page_next_vma s8 + PAGE_SIZE\<rparr>;
          s10 = init_page_map l (0 - PAGE_SIZE) (init_page_struct_addr l + 2 * PAGE_SIZE) (PAGE_WRITE OR PAGE_PRESENT) s9;
          s11 = s10\<lparr>init_vga_buffer_vma := init_page_next_vma s10\<rparr> in
      rbind (page_range (\<lambda>i s. init_page_map l (init_page_next_vma s + i) (VGA_PADDR_BUFFER + i)
                               (PAGE_PUBLIC OR PAGE_WRITE OR PAGE_PRESENT) s)
               0 (VGA_WIDTH * VGA_HEIGHT * 2) s11) (\<lambda>(i, s12).
      let s13 = s12\<lparr>init_page_next_vma := init_page_next_vma s12 + i\<rparr>;
          kernel_end_pma = KERNEL_END_VMA l - KERNEL_START_VMA l + INIT_BSS_END l;
          init_alloc_size = init_page_next_pma s13 - kernel_end_pma;
          n_new_tables = new_tables (init_page_next_pma s13) kernel_end_pma in
      rbind (page_range (\<lambda>i s. init_page_map l (init_page_next_vma s + i) (kernel_end_pma + i) (PAGE_WRITE OR PAGE_PRESENT) s)
               0 (init_alloc_size + n_new_tables * PAGE_SIZE) s13) (\<lambda>(_, s14).
      let s15 = fix_lookup l s14
      in Inr (s15\<lparr>init_page_next_vma := init_page_next_vma s15 + (init_alloc_size + n_new_tables * PAGE_SIZE)\<rparr>)))))))"

section \<open>Turning paging on\<close>

text \<open>
  What the processor finds for a virtual address: the entry of its page, 0 when the directory has no
  table for it, and the physical address.
\<close>

definition walk_entry :: "(u32 \<Rightarrow> u32) \<Rightarrow> u32 \<Rightarrow> u32 \<Rightarrow> u32" where
  "walk_entry m dir vma =
     (let pde = m (dir + 4 * drop_bit 22 vma) in
      if pde AND PAGE_PRESENT = 0 then 0
      else m (push_bit 12 (drop_bit 12 pde) + 4 * (drop_bit 12 vma AND 0x3ff)))"

definition walk :: "(u32 \<Rightarrow> u32) \<Rightarrow> u32 \<Rightarrow> u32 \<Rightarrow> u32" where
  "walk m dir vma = push_bit 12 (drop_bit 12 (walk_entry m dir vma)) OR (vma AND 0xfff)"

text \<open>
  \<open>init\<close> builds the map, loads it, hands the screen over, and jumps to \<open>kernel_main\<close> on the new stack.
  The kernel then sees memory through the map: that is the state \<open>kernel_main\<close> starts in.
\<close>

record handover =
  ho_kern :: kstate
  ho_cpu :: cpu
  ho_vga :: vga

definition kernel_view :: "linker \<Rightarrow> init_state \<Rightarrow> kstate" where
  "kernel_view l s =
     \<lparr>mem = (\<lambda>vma. phys s (walk (phys s) (init_page_struct_addr l) vma)),
      page_dir = (\<lambda>i. phys s (walk (phys s) (init_page_struct_addr l) (BSS_END_VMA l + 4 * i))),
      page_table_lookup = (\<lambda>i. phys s (walk (phys s) (init_page_struct_addr l) (BSS_END_VMA l + PAGE_SIZE + 4 * i))),
      kernel_heap_end_pma = init_page_next_pma s, kernel_heap_end_vma = init_page_next_vma s,
      page_free_list = 0, kernel_ctxt = \<lparr>ac_free_list = 0, ac_start = 0, ac_end = 0\<rparr>, get_page_first_run = True\<rparr>"

definition init :: "linker \<Rightarrow> init_vga \<Rightarrow> vga \<Rightarrow> cpu \<Rightarrow> init_state \<Rightarrow> kerror + handover" where
  "init l iv v c s =
     rbind (init_map_kernel l s) (\<lambda>s1.
       let c1 = page_load_dir (init_page_struct_addr l) c;
           c2 = page_enable c1;
           v1 = vga_map_buffer (init_vga_buffer_vma s1) v;
           v2 = vga_set_position (init_vga_get_row iv) (init_vga_get_col iv) v1
       in Inr \<lparr>ho_kern = kernel_view l s1, ho_cpu = set_sp (- 8) c2, ho_vga = v2\<rparr>)"

end
