(* ===== verification/Init_Map_Correct.thy ===== *)
theory Init_Map_Correct
  imports Init_Map Heap_Grow
begin

text \<open>
  The map that \<open>init_map_kernel\<close> builds.  \<open>boot_map\<close> describes the physical memory while it is built:
  which directory entries have a table, in the order the tables were taken, and the entry of every page.
\<close>

section \<open>Words\<close>

lemma page_split:
  fixes f :: u32
  assumes "t < 2 ^ 32" and "4096 dvd t" and "f AND NOT (mask 12) = 0"
  shows "push_bit 12 (drop_bit 12 (word_of_nat t OR f)) = word_of_nat t" and "(word_of_nat t OR f) AND mask 12 = f"
proof -
  have "unat (word_of_nat t AND mask 12 :: u32) = 0"
    using assms(1,2) unat_of_nat32 [of t] by (simp add: unat_and_mask)
  then have t: "word_of_nat t AND mask 12 = (0 :: u32)" by (simp only: unat_eq_zero)
  have b: "n < 12 \<Longrightarrow> \<not> bit (word_of_nat t :: u32) n" for n
    using arg_cong [OF t, of "\<lambda>w. bit w n"] by (auto simp: bit_simps)
  have g: "12 \<le> n \<Longrightarrow> \<not> bit f n" for n
    using arg_cong [OF assms(3), of "\<lambda>w. bit w n"] by (cases "n < 32") (auto simp: bit_simps dest: bit_imp_le_length)
  show "push_bit 12 (drop_bit 12 (word_of_nat t OR f)) = word_of_nat t"
  proof (rule bit_word_eqI)
    fix n :: nat assume "n < LENGTH(32)"
    then show "bit (push_bit 12 (drop_bit 12 (word_of_nat t OR f))) n = bit (word_of_nat t :: u32) n"
      using b [of n] g [of n] by (cases "n < 12") (auto simp: bit_push_bit_iff bit_drop_bit_eq bit_or_iff)
  qed
  show "(word_of_nat t OR f) AND mask 12 = f"
  proof (rule bit_word_eqI)
    fix n :: nat assume "n < LENGTH(32)"
    then show "bit ((word_of_nat t OR f) AND mask 12) n = bit f n"
      using b [of n] g [of n] by (cases "n < 12") (auto simp: bit_and_iff bit_or_iff bit_mask_iff)
  qed
qed

lemma page_number_words:
  assumes "p < 2 ^ 20"
  shows "drop_bit 22 (word_of_nat (4096 * p) :: u32) = word_of_nat (p div 1024)"
    and "drop_bit 12 (word_of_nat (4096 * p) :: u32) AND 0x3ff = word_of_nat (p mod 1024)"
proof -
  have u: "unat (word_of_nat (4096 * p) :: u32) = 4096 * p" using assms by (intro unat_of_nat32) simp
  have "unat (drop_bit 22 (word_of_nat (4096 * p) :: u32)) = p div 1024"
    unfolding unat_drop_bit u using div_mult_mult1 [of 4096 p 1024] by simp
  then show "drop_bit 22 (word_of_nat (4096 * p) :: u32) = word_of_nat (p div 1024)"
    by (rule unat_eq_word)
  have "unat (drop_bit 12 (word_of_nat (4096 * p) :: u32)) = p"
    unfolding unat_drop_bit u by simp
  then have "unat (drop_bit 12 (word_of_nat (4096 * p) :: u32) AND 0x3ff) = p mod 1024"
    unfolding mask_fff unat_and_mask by simp
  then show "drop_bit 12 (word_of_nat (4096 * p) :: u32) AND 0x3ff = word_of_nat (p mod 1024)"
    by (rule unat_eq_word)
qed

section \<open>Memory while the map is built\<close>

lemma iwr_simps [simp]:
  "phys (iwr a v s) = (phys s)(a := v)" "init_page_next_pma (iwr a v s) = init_page_next_pma s"
  "init_page_next_vma (iwr a v s) = init_page_next_vma s" "init_vga_buffer_vma (iwr a v s) = init_vga_buffer_vma s"
  "page_table_vma_offset (iwr a v s) = page_table_vma_offset s"
  by (simp_all add: iwr_def)

lemma init_page_clear_fields [simp]:
  "init_page_next_pma (init_page_clear t s) = init_page_next_pma s"
  "init_page_next_vma (init_page_clear t s) = init_page_next_vma s"
  "init_vga_buffer_vma (init_page_clear t s) = init_vga_buffer_vma s"
  "page_table_vma_offset (init_page_clear t s) = page_table_vma_offset s"
proof -
  have "init_page_next_pma (fold (\<lambda>i s. iwr (f i) 0 (iwr (g i) 0 s)) xs s) = init_page_next_pma s \<and>
    init_page_next_vma (fold (\<lambda>i s. iwr (f i) 0 (iwr (g i) 0 s)) xs s) = init_page_next_vma s \<and>
    init_vga_buffer_vma (fold (\<lambda>i s. iwr (f i) 0 (iwr (g i) 0 s)) xs s) = init_vga_buffer_vma s \<and>
    page_table_vma_offset (fold (\<lambda>i s. iwr (f i) 0 (iwr (g i) 0 s)) xs s) = page_table_vma_offset s" for f g and xs :: "nat list"
    by (induction xs arbitrary: s) simp_all
  then show "init_page_next_pma (init_page_clear t s) = init_page_next_pma s"
    "init_page_next_vma (init_page_clear t s) = init_page_next_vma s"
    "init_vga_buffer_vma (init_page_clear t s) = init_vga_buffer_vma s"
    "page_table_vma_offset (init_page_clear t s) = page_table_vma_offset s"
    unfolding init_page_clear_def by simp_all
qed

lemma init_page_clear_cells:
  assumes "t + 4096 \<le> 2 ^ 32" and "a < 2 ^ 32"
  shows "cell (phys (init_page_clear (word_of_nat t) s)) a =
    (if \<exists>i<1024. a = t + 4 * i then 0 else cell (phys s) a)"
proof -
  let ?w = "\<lambda>i s. iwr (word_of_nat t + word_of_nat (8 * i) + 4) 0 (iwr (word_of_nat t + word_of_nat (8 * i)) 0 s)"
  have "n \<le> 512 \<Longrightarrow> cell (phys (fold ?w [0..<n] s)) a = (if \<exists>i<2 * n. a = t + 4 * i then 0 else cell (phys s) a)" for n
  proof (induction n)
    case 0
    then show ?case by simp
  next
    case (Suc n)
    have w: "word_of_nat t + word_of_nat (8 * n) = (word_of_nat (t + 8 * n) :: u32)"
      "word_of_nat (t + 8 * n) + 4 = (word_of_nat (t + 8 * n + 4) :: u32)" by simp_all
    have "(\<exists>i<2 * Suc n. a = t + 4 * i) \<longleftrightarrow> (\<exists>i<2 * n. a = t + 4 * i) \<or> a = t + 8 * n \<or> a = t + 8 * n + 4"
    proof
      assume "\<exists>i<2 * Suc n. a = t + 4 * i"
      then obtain i where i: "i < 2 * Suc n" "a = t + 4 * i" by blast
      then have "i < 2 * n \<or> i = 2 * n \<or> i = 2 * n + 1" by presburger
      then show "(\<exists>i<2 * n. a = t + 4 * i) \<or> a = t + 8 * n \<or> a = t + 8 * n + 4" using i(2) by auto
    next
      assume "(\<exists>i<2 * n. a = t + 4 * i) \<or> a = t + 8 * n \<or> a = t + 8 * n + 4"
      then show "\<exists>i<2 * Suc n. a = t + 4 * i"
        by (elim disjE) (auto intro: exI [of _ "2 * n"] exI [of _ "2 * n + 1"])
    qed
    moreover have "phys (fold ?w [0..<Suc n] s) =
        (phys (fold ?w [0..<n] s))(word_of_nat (t + 8 * n) := 0, word_of_nat (t + 8 * n + 4) := 0)"
      unfolding upt_Suc_append [OF le0] fold_append w(2) [symmetric] w(1) [symmetric] by simp
    moreover have "t + 8 * n + 4 < 2 ^ 32" "t + 8 * n < 2 ^ 32" using Suc.prems assms(1) by simp_all
    ultimately show ?case using Suc assms(2) by (simp only: cell_upd) auto
  qed
  from this [of 512] show ?thesis unfolding init_page_clear_def by simp
qed

text \<open>
  \<open>P\<close> is the address of \<open>init_page_struct\<close>, \<open>B\<close> that of the first table, \<open>ts\<close> the directory indices with
  a table in the order of the tables, and \<open>T\<close> the entries by page number.
\<close>

definition boot_map :: "nat \<Rightarrow> nat \<Rightarrow> nat list \<Rightarrow> (nat \<Rightarrow> u32) \<Rightarrow> init_state \<Rightarrow> bool" where
  "boot_map P B ts T s \<longleftrightarrow>
     distinct ts \<and> set ts \<subseteq> {..<1024} \<and>
     (\<forall>k<length ts. cell (phys s) (P + 4 * ts ! k) = word_of_nat (B + 4096 * k) OR 7 \<and>
        cell (phys s) (P + 4096 + 4 * ts ! k) = word_of_nat (4096 * Suc k)) \<and>
     (\<forall>i<1024. i \<notin> set ts \<longrightarrow> cell (phys s) (P + 4 * i) = 0 \<and> cell (phys s) (P + 4096 + 4 * i) = 0) \<and>
     (\<forall>k<length ts. \<forall>j<1024. cell (phys s) (B + 4096 * k + 4 * j) = T (ts ! k * 1024 + j)) \<and>
     (\<forall>p. p div 1024 \<notin> set ts \<longrightarrow> T p = 0) \<and>
     init_page_next_pma s = word_of_nat (B + 4096 * length ts) \<and>
     page_table_vma_offset s = word_of_nat (4096 * Suc (length ts))"

definition add_dir :: "nat \<Rightarrow> nat list \<Rightarrow> nat list" where
  "add_dir i ts = (if i \<in> set ts then ts else ts @ [i])"

lemma boot_mapD:
  assumes "boot_map P B ts T s"
  shows "distinct ts" "set ts \<subseteq> {..<1024}"
    "k < length ts \<Longrightarrow> cell (phys s) (P + 4 * ts ! k) = word_of_nat (B + 4096 * k) OR 7"
    "k < length ts \<Longrightarrow> cell (phys s) (P + 4096 + 4 * ts ! k) = word_of_nat (4096 * Suc k)"
    "i < 1024 \<Longrightarrow> i \<notin> set ts \<Longrightarrow> cell (phys s) (P + 4 * i) = 0"
    "i < 1024 \<Longrightarrow> i \<notin> set ts \<Longrightarrow> cell (phys s) (P + 4096 + 4 * i) = 0"
    "k < length ts \<Longrightarrow> j < 1024 \<Longrightarrow> cell (phys s) (B + 4096 * k + 4 * j) = T (ts ! k * 1024 + j)"
    "p div 1024 \<notin> set ts \<Longrightarrow> T p = 0"
    "init_page_next_pma s = word_of_nat (B + 4096 * length ts)"
    "page_table_vma_offset s = word_of_nat (4096 * Suc (length ts))"
    "k < length ts \<Longrightarrow> ts ! k < 1024" "length ts \<le> 1024"
proof -
  show sub: "set ts \<subseteq> {..<1024}" and d: "distinct ts" using assms by (simp_all add: boot_map_def)
  show "k < length ts \<Longrightarrow> ts ! k < 1024" using subsetD [OF sub nth_mem [of k ts]] by simp
  have "card (set ts) \<le> card {..<1024 :: nat}" by (rule card_mono) (use sub in auto)
  then show "length ts \<le> 1024" using distinct_card [OF d] by simp
qed (use assms in \<open>simp_all add: boot_map_def\<close>)

lemma table_slot_eq:
  assumes "(j :: nat) < 1024" and "j' < 1024"
  shows "B + 4096 * k + 4 * j = B + 4096 * k' + 4 * j' \<longleftrightarrow> k = k' \<and> j = j'"
proof
  assume a: "B + 4096 * k + 4 * j = B + 4096 * k' + 4 * j'"
  then have e: "k * 1024 + j = k' * 1024 + j'" by simp
  have "k = (k * 1024 + j) div 1024" "k' = (k' * 1024 + j') div 1024" using assms by simp_all
  then show "k = k' \<and> j = j'" using e by simp
qed simp

lemma page_slot_eq:
  assumes "(j :: nat) < 1024" and "j' < 1024"
  shows "k * 1024 + j = k' * 1024 + j' \<longleftrightarrow> k = k' \<and> j = j'"
proof
  assume e: "k * 1024 + j = k' * 1024 + j'"
  have "k = (k * 1024 + j) div 1024" "k' = (k' * 1024 + j') div 1024" using assms by simp_all
  then show "k = k' \<and> j = j'" using e by simp
qed simp

text \<open>Storing an entry in a table.\<close>

lemma boot_map_store:
  assumes bm: "boot_map P B ts T s" and k: "k < length ts" and j: "j < 1024"
    and lim: "P + 8192 \<le> B" "B + 4096 * length ts \<le> 2 ^ 32"
    and s': "phys s' = (phys s)(word_of_nat (B + 4096 * k + 4 * j) := x)"
      "init_page_next_pma s' = init_page_next_pma s" "page_table_vma_offset s' = page_table_vma_offset s"
  shows "boot_map P B ts (T(ts ! k * 1024 + j := x)) s'"
proof -
  note d = boot_mapD [OF bm]
  let ?a = "B + 4096 * k + 4 * j"
  have a: "?a < 2 ^ 32" using k j lim(2) by simp
  have low: "cell (phys s') c = cell (phys s) c" if "c < P + 8192" for c
    unfolding s'(1) using that lim a by (intro cell_upd_other) simp_all
  have tab: "cell (phys s') (B + 4096 * k' + 4 * j') =
      (if k' = k \<and> j' = j then x else cell (phys s) (B + 4096 * k' + 4 * j'))" if "k' < length ts" "j' < 1024" for k' j'
  proof -
    have "B + 4096 * k' + 4 * j' < 2 ^ 32" using that lim(2) by simp
    then show ?thesis unfolding s'(1) using table_slot_eq [OF j that(2), of B k k'] a by (auto simp: cell_upd simp del: of_nat_add)
  qed
  have idx: "ts ! k' * 1024 + j' = ts ! k * 1024 + j \<longleftrightarrow> k' = k \<and> j' = j" if "k' < length ts" "j' < 1024" for k' j'
    using page_slot_eq [OF that(2) j] nth_eq_iff_index_eq [OF d(1) that(1) k] by blast
  have inT: "(ts ! k * 1024 + j) div 1024 \<in> set ts" using j k by simp
  show ?thesis
    unfolding boot_map_def s'(2,3)
  proof (intro conjI allI impI)
    fix q assume "q < length ts"
    then show "cell (phys s') (P + 4 * ts ! q) = word_of_nat (B + 4096 * q) OR 7"
      "cell (phys s') (P + 4096 + 4 * ts ! q) = word_of_nat (4096 * Suc q)"
      using d(3,4,11) [of q] low [of "P + 4 * ts ! q"] low [of "P + 4096 + 4 * ts ! q"] by simp_all
  next
    fix i assume "i < 1024" "i \<notin> set ts"
    then show "cell (phys s') (P + 4 * i) = 0" "cell (phys s') (P + 4096 + 4 * i) = 0"
      using d(5,6) [of i] low [of "P + 4 * i"] low [of "P + 4096 + 4 * i"] by simp_all
  next
    fix q i assume "q < length ts" "i < (1024 :: nat)"
    then show "cell (phys s') (B + 4096 * q + 4 * i) = (T(ts ! k * 1024 + j := x)) (ts ! q * 1024 + i)"
      using tab [of q i] idx [of q i] d(7) [of q i] by simp
  next
    fix p assume "p div 1024 \<notin> set ts"
    then show "(T(ts ! k * 1024 + j := x)) p = 0" using inT d(8) [of p] by auto
  qed (use d(1,2,9,10) in simp_all)
qed

text \<open>Taking a table for a directory entry.\<close>

lemma boot_map_new:
  assumes bm: "boot_map P B ts T s" and i: "i < 1024" "i \<notin> set ts" and l: "init_page_struct_addr l = word_of_nat P"
    and vma: "drop_bit 22 vma = word_of_nat i" and dvd: "4096 dvd B"
    and lim: "P + 8192 \<le> B" "B + 4096 * (length ts + 2) \<le> 2 ^ 32"
    and new: "init_page_table_new l vma s = (t, s1)"
  shows "t = word_of_nat (B + 4096 * length ts)"
    and "boot_map P B (ts @ [i]) T (iwr (dir_at l (word_of_nat i)) (t OR 7) s1)"
    and "init_page_next_vma s1 = init_page_next_vma s" "init_vga_buffer_vma s1 = init_vga_buffer_vma s"
proof -
  note d = boot_mapD [OF bm]
  let ?t = "B + 4096 * length ts"
  have "align (word_of_nat ?t) 4096 = word_of_nat ((?t + 4095) div 4096 * 4096)"
    by (rule align_word4096) (use lim in simp)
  moreover have "(?t + 4095) div 4096 * 4096 = ?t"
  proof -
    have "4096 dvd ?t" using dvd by simp
    then obtain q where "?t = q * 4096" by (metis dvd_def mult.commute)
    then show ?thesis using div_block [of 4095 4096 q] by simp
  qed
  ultimately have al: "align (init_page_next_pma s) PAGE_SIZE = word_of_nat ?t"
    unfolding d(9) PAGE_SIZE_def by simp
  from new show t: "t = word_of_nat ?t"
    unfolding init_page_table_new_def Let_def al by simp
  have at: "lookup_at l (word_of_nat i) = word_of_nat (P + 4096 + 4 * i)" "dir_at l (word_of_nat i) = word_of_nat (P + 4 * i)"
    by (simp_all add: lookup_at_def dir_at_def l PAGE_SIZE_def)
  have s1: "phys s1 = (phys (init_page_clear (word_of_nat ?t) s))(word_of_nat (P + 4096 + 4 * i) := word_of_nat (4096 * Suc (length ts)))"
    "init_page_next_pma s1 = word_of_nat (B + 4096 * Suc (length ts))"
    "page_table_vma_offset s1 = word_of_nat (4096 * Suc (Suc (length ts)))"
    "init_page_next_vma s1 = init_page_next_vma s" "init_vga_buffer_vma s1 = init_vga_buffer_vma s"
    using new unfolding init_page_table_new_def Let_def al vma at d(10)
    by (auto simp: d(10) PAGE_SIZE_def algebra_simps)
  then show "init_page_next_vma s1 = init_page_next_vma s" "init_vga_buffer_vma s1 = init_vga_buffer_vma s" by simp_all
  let ?s = "iwr (dir_at l (word_of_nat i)) (t OR 7) s1"
  have c: "cell (phys ?s) a = (if a = P + 4 * i then word_of_nat ?t OR 7
      else if a = P + 4096 + 4 * i then word_of_nat (4096 * Suc (length ts))
      else if \<exists>j<1024. a = ?t + 4 * j then 0 else cell (phys s) a)" if "a < 2 ^ 32" for a
  proof -
    have "P + 4 * i < 2 ^ 32" "P + 4096 + 4 * i < 2 ^ 32" "?t + 4096 \<le> 2 ^ 32" using i lim by simp_all
    then show ?thesis
      unfolding iwr_simps(1) at(2) s1(1) t using that
      by (simp only: cell_upd init_page_clear_cells) auto
  qed
  have low: "\<not> (\<exists>j<1024. a = ?t + 4 * j)" if "a < P + 8192" for a using that lim by auto
  have lt: "P + 4 * q < P + 8192" "P + 4096 + 4 * q < P + 8192" "P + 4 * q < 2 ^ 32" "P + 4096 + 4 * q < 2 ^ 32"
    "P + 4 * q \<noteq> P + 4096 + 4 * i" "P + 4096 + 4 * q \<noteq> P + 4 * i" if "q < 1024" for q
    using that i lim by simp_all
  have dir: "cell (phys ?s) (P + 4 * q) = (if q = i then word_of_nat ?t OR 7 else cell (phys s) (P + 4 * q))"
    "cell (phys ?s) (P + 4096 + 4 * q) = (if q = i then word_of_nat (4096 * Suc (length ts)) else cell (phys s) (P + 4096 + 4 * q))"
    if "q < 1024" for q
    using c [of "P + 4 * q"] c [of "P + 4096 + 4 * q"] low [of "P + 4 * q"] low [of "P + 4096 + 4 * q"] lt [OF that] by auto
  have tab: "cell (phys ?s) (B + 4096 * k + 4 * j) = (if k = length ts then 0 else cell (phys s) (B + 4096 * k + 4 * j))"
    if "k \<le> length ts" "j < 1024" for k j
  proof -
    have "B + 4096 * k + 4 * j < 2 ^ 32" "P + 4 * i \<noteq> B + 4096 * k + 4 * j" "P + 4096 + 4 * i \<noteq> B + 4096 * k + 4 * j"
      using that lim i by simp_all
    moreover have "(\<exists>j'<1024. B + 4096 * k + 4 * j = ?t + 4 * j') \<longleftrightarrow> k = length ts"
      using table_slot_eq [OF that(2), of _ B k "length ts"] that(2) by blast
    ultimately show ?thesis using c [of "B + 4096 * k + 4 * j"] by simp
  qed
  have old: "ts ! k \<noteq> i" if "k < length ts" for k using i(2) that nth_mem by blast
  have Ti: "T (i * 1024 + j) = 0" if "j < 1024" for j using d(8) [of "i * 1024 + j"] that i(2) by simp
  show "boot_map P B (ts @ [i]) T ?s"
    unfolding boot_map_def
  proof (intro conjI allI impI)
    show "distinct (ts @ [i])" "set (ts @ [i]) \<subseteq> {..<1024}" using d(1,2) i by auto
  next
    fix k assume "k < length (ts @ [i])"
    then consider "k < length ts" | "k = length ts" by fastforce
    then show "cell (phys ?s) (P + 4 * (ts @ [i]) ! k) = word_of_nat (B + 4096 * k) OR 7"
      "cell (phys ?s) (P + 4096 + 4 * (ts @ [i]) ! k) = word_of_nat (4096 * Suc k)"
      using dir d(3,4,11) old i(1) by (cases; simp add: nth_append)+
  next
    fix q assume "q < 1024" "q \<notin> set (ts @ [i])"
    then show "cell (phys ?s) (P + 4 * q) = 0" "cell (phys ?s) (P + 4096 + 4 * q) = 0"
      using dir [of q] d(5,6) by auto
  next
    fix k j assume "k < length (ts @ [i])" "j < (1024 :: nat)"
    then show "cell (phys ?s) (B + 4096 * k + 4 * j) = T ((ts @ [i]) ! k * 1024 + j)"
      using tab [of k j] d(7) Ti by (auto simp: nth_append)
  next
    fix p assume "p div 1024 \<notin> set (ts @ [i])"
    then show "T p = 0" using d(8) by simp
  next
    show "init_page_next_pma ?s = word_of_nat (B + 4096 * length (ts @ [i]))"
      "page_table_vma_offset ?s = word_of_nat (4096 * Suc (length (ts @ [i])))"
      using s1(2,3) by simp_all
  qed
qed

text \<open>Mapping a page.\<close>

lemma boot_map_page:
  fixes pma flags :: u32
  assumes bm: "boot_map P B ts T s" and l: "init_page_struct_addr l = word_of_nat P" and p: "p < 2 ^ 20"
    and dvd: "4096 dvd B" and lim: "P + 8192 \<le> B" "B + 4096 * (length ts + 2) \<le> 2 ^ 32"
  defines "s' \<equiv> init_page_map l (word_of_nat (4096 * p)) pma flags s"
  shows "boot_map P B (add_dir (p div 1024) ts) (T(p := ((T p AND 0xfff) OR pma) OR flags)) s'"
    and "init_page_next_vma s' = init_page_next_vma s" "init_vga_buffer_vma s' = init_vga_buffer_vma s"
proof -
  note d = boot_mapD [OF bm]
  let ?i = "p div 1024" and ?j = "p mod 1024"
  have i: "?i < 1024" and j: "?j < 1024" and pij: "?i * 1024 + ?j = p" using p by (simp_all add: less_mult_imp_div_less)
  note w = page_number_words [OF p]
  have at: "dir_at l (word_of_nat ?i) = word_of_nat (P + 4 * ?i)" by (simp add: dir_at_def l)
  have "boot_map P B (add_dir ?i ts) (T(p := ((T p AND 0xfff) OR pma) OR flags)) s' \<and>
    init_page_next_vma s' = init_page_next_vma s \<and> init_vga_buffer_vma s' = init_vga_buffer_vma s"
  proof (cases "?i \<in> set ts")
    case True
    then obtain k where k: "k < length ts" "ts ! k = ?i" by (auto simp: in_set_conv_nth)
    let ?t = "B + 4096 * k" and ?a = "B + 4096 * k + 4 * ?j"
    have pde: "phys s (dir_at l (word_of_nat ?i)) = word_of_nat ?t OR 7"
      using d(3) [OF k(1)] k(2) unfolding at cell_def by simp
    have "7 AND NOT (mask 12) = (0 :: u32)" by (simp add: mask_eq_exp_minus_1)
    moreover have "?t < 2 ^ 32" "4096 dvd ?t" using k(1) lim(2) dvd by simp_all
    ultimately have tab: "push_bit 12 (drop_bit 12 (word_of_nat ?t OR 7)) = (word_of_nat ?t :: u32)"
      by (intro page_split(1))
    have on: "(word_of_nat ?t OR 7) AND PAGE_PRESENT \<noteq> 0"
    proof -
      have "bit ((word_of_nat ?t OR 7) AND PAGE_PRESENT) 0" by (simp add: PAGE_PRESENT_def bit_simps)
      then show ?thesis by auto
    qed
    have a: "word_of_nat ?t + 4 * word_of_nat ?j = (word_of_nat ?a :: u32)" by simp
    have ta: "phys s (word_of_nat ?a) = T p" using d(7) [OF k(1) j] k(2) pij unfolding cell_def by simp
    have s': "s' = iwr (word_of_nat ?a) (((T p AND 0xfff) OR pma) OR flags) (iwr (word_of_nat ?a) ((T p AND 0xfff) OR pma) s)"
      unfolding s'_def init_page_map_def Let_def w pde tab a ta using on by (simp add: a ta)
    have "boot_map P B ts (T(ts ! k * 1024 + ?j := ((T p AND 0xfff) OR pma) OR flags)) s'"
      by (rule boot_map_store [OF bm k(1) j lim(1)]) (use lim(2) in \<open>simp_all add: s'\<close>)
    then show ?thesis using True k(2) pij by (simp add: add_dir_def s')
  next
    case False
    obtain t s1 where new: "init_page_table_new l (word_of_nat (4096 * p)) s = (t, s1)" by fastforce
    note n = boot_map_new [OF bm i False l w(1) dvd lim new]
    let ?a = "B + 4096 * length ts + 4 * ?j" and ?s = "iwr (dir_at l (word_of_nat ?i)) (t OR 7) s1"
    have pde: "phys s (dir_at l (word_of_nat ?i)) = 0"
      using d(5) [OF i False] unfolding at cell_def by simp
    have T0: "T p = 0" using d(8) False by simp
    have a: "t + 4 * word_of_nat ?j = word_of_nat ?a" unfolding n(1) by simp
    have f: "t OR PAGE_PUBLIC OR PAGE_WRITE OR PAGE_PRESENT = t OR 7"
    proof -
      have "PAGE_PUBLIC OR PAGE_WRITE OR PAGE_PRESENT = 7"
        by (simp add: PAGE_PUBLIC_def PAGE_WRITE_def PAGE_PRESENT_def)
      then show ?thesis by simp
    qed
    have s': "s' = iwr (word_of_nat ?a) (pma OR flags) (iwr (word_of_nat ?a) pma ?s)"
      unfolding s'_def init_page_map_def Let_def w pde new by (simp add: f a)
    have "boot_map P B (ts @ [?i]) (T((ts @ [?i]) ! length ts * 1024 + ?j := pma OR flags)) s'"
      by (rule boot_map_store [OF n(2) _ j lim(1)]) (use lim(2) in \<open>simp_all add: s'\<close>)
    then show ?thesis using False pij T0 n(3,4) by (simp add: add_dir_def s')
  qed
  then show "boot_map P B (add_dir ?i ts) (T(p := ((T p AND 0xfff) OR pma) OR flags)) s'"
    "init_page_next_vma s' = init_page_next_vma s" "init_vga_buffer_vma s' = init_vga_buffer_vma s" by simp_all
qed

section \<open>Ranges of pages\<close>

lemma page_range_fold:
  assumes "\<And>j. j < n \<Longrightarrow> lo + 4096 * j < lim" and "lim \<le> lo + 4096 * n" and "lo + 4096 * n < 2 ^ 32"
  shows "page_range f (word_of_nat lo) (word_of_nat lim) s =
    Inr (word_of_nat (lo + 4096 * n), fold (\<lambda>k. f (word_of_nat (lo + 4096 * k))) [0..<n] s)"
proof -
  let ?body = "\<lambda>i (_ :: u32, s). Inr (i + PAGE_SIZE, f i s) :: kerror + (u32 \<times> init_state)"
  let ?I = "\<lambda>j r. r = (word_of_nat (lo + 4096 * j) :: u32, fold (\<lambda>k. f (word_of_nat (lo + 4096 * k))) [0..<j] s)"
  have at: "word_of_nat lo + word_of_nat j * PAGE_SIZE = word_of_nat (lo + 4096 * j)" for j
    by (simp add: PAGE_SIZE_def)
  have "\<exists>r. for_loop PAGE_SIZE ?body (word_of_nat lo) (word_of_nat lim) (word_of_nat lo, s) = Some (Inr r) \<and> ?I n r"
  proof (rule for_loop_rule [where I = ?I])
    show "?I 0 (word_of_nat lo, s)" by simp
  next
    fix j and r :: "u32 \<times> init_state" assume "j < n" "?I j r"
    then show "\<exists>r'. ?body (word_of_nat lo + word_of_nat j * PAGE_SIZE) r = Inr r' \<and> ?I (Suc j) r'"
      unfolding at by (simp add: PAGE_SIZE_def algebra_simps)
  next
    fix j assume "j < n"
    then show "word_of_nat lo + word_of_nat j * PAGE_SIZE < (word_of_nat lim :: u32)"
      unfolding at using assms by (subst word_of_nat_less_iff32) simp_all
  next
    show "\<not> word_of_nat lo + word_of_nat n * PAGE_SIZE < (word_of_nat lim :: u32)"
      unfolding at using assms by (subst word_of_nat_less_iff32) simp_all
  qed
  then show ?thesis unfolding page_range_def by auto
qed

lemma add_dir_simps [simp]: "add_dir i (add_dir i ts) = add_dir i ts" "length (add_dir i ts) \<le> Suc (length ts)"
  by (simp_all add: add_dir_def)

definition put_pages :: "nat \<Rightarrow> nat \<Rightarrow> (nat \<Rightarrow> u32) \<Rightarrow> (nat \<Rightarrow> u32) \<Rightarrow> nat \<Rightarrow> u32" where
  "put_pages p0 n e T p = (if p0 \<le> p \<and> p < p0 + n then e (p - p0) else T p)"

text \<open>Consecutive pages of one directory entry that have no entry yet.\<close>

lemma boot_map_range:
  fixes flags :: u32
  assumes bm: "boot_map P B ts T s" and l: "init_page_struct_addr l = word_of_nat P"
    and dvd: "4096 dvd B" and lim: "P + 8192 \<le> B" "B + 4096 * (length ts + 3) \<le> 2 ^ 32"
    and dir: "\<And>k. k < n \<Longrightarrow> (p0 + k) div 1024 = i" and hi: "p0 + n \<le> 2 ^ 20"
    and fresh: "\<And>k. k < n \<Longrightarrow> T (p0 + k) = 0"
    and f: "\<And>k s'. k < n \<Longrightarrow> init_page_next_vma s' = init_page_next_vma s \<Longrightarrow>
       f k s' = init_page_map l (word_of_nat (4096 * (p0 + k))) (pma k) flags s'"
  defines "s' \<equiv> fold f [0..<n] s"
  shows "boot_map P B (if n = 0 then ts else add_dir i ts) (put_pages p0 n (\<lambda>k. pma k OR flags) T) s'"
    and "init_page_next_vma s' = init_page_next_vma s" "init_vga_buffer_vma s' = init_vga_buffer_vma s"
proof -
  have "m \<le> n \<Longrightarrow> boot_map P B (if m = 0 then ts else add_dir i ts) (put_pages p0 m (\<lambda>k. pma k OR flags) T) (fold f [0..<m] s) \<and>
    init_page_next_vma (fold f [0..<m] s) = init_page_next_vma s \<and> init_vga_buffer_vma (fold f [0..<m] s) = init_vga_buffer_vma s" for m
  proof (induction m)
    case 0
    have "put_pages p0 0 (\<lambda>k. pma k OR flags) T = T" by (rule ext) (auto simp: put_pages_def)
    then show ?case using bm by simp
  next
    case (Suc m)
    let ?s = "fold f [0..<m] s" and ?T = "put_pages p0 m (\<lambda>k. pma k OR flags) T" and ?ts = "if m = 0 then ts else add_dir i ts"
    have ih: "boot_map P B ?ts ?T ?s" "init_page_next_vma ?s = init_page_next_vma s" "init_vga_buffer_vma ?s = init_vga_buffer_vma s"
      using Suc by simp_all
    have "length ?ts \<le> Suc (length ts)" by simp
    then have lim': "B + 4096 * (length ?ts + 2) \<le> 2 ^ 32" using lim(2) by simp
    have p: "p0 + m < 2 ^ 20" using hi Suc.prems by simp
    note bp = boot_map_page [OF ih(1) l p dvd lim(1) lim', of "pma m" flags]
    have fm: "fold f [0..<Suc m] s = init_page_map l (word_of_nat (4096 * (p0 + m))) (pma m) flags ?s"
      using f [of m ?s] ih(2) Suc.prems by simp
    have "?T (p0 + m) = 0" using fresh [of m] Suc.prems by (simp add: put_pages_def)
    then have "?T(p0 + m := ((?T (p0 + m) AND 0xfff) OR pma m) OR flags) = put_pages p0 (Suc m) (\<lambda>k. pma k OR flags) T"
      by (intro ext) (auto simp: put_pages_def)
    moreover have "add_dir ((p0 + m) div 1024) ?ts = (if Suc m = 0 then ts else add_dir i ts)"
      using dir [of m] Suc.prems by simp
    ultimately show ?case using bp ih(2,3) unfolding fm by simp
  qed
  from this [of n] show "boot_map P B (if n = 0 then ts else add_dir i ts) (put_pages p0 n (\<lambda>k. pma k OR flags) T) s'"
    "init_page_next_vma s' = init_page_next_vma s" "init_vga_buffer_vma s' = init_vga_buffer_vma s"
    unfolding s'_def by simp_all
qed

lemma boot_map_env:
  assumes "boot_map P B ts T s" and "phys s' = phys s" and "init_page_next_pma s' = init_page_next_pma s"
    and "page_table_vma_offset s' = page_table_vma_offset s"
  shows "boot_map P B ts T s'"
  using assms unfolding boot_map_def by simp

section \<open>The walk through the tables\<close>

lemma walk_entry_boot:
  assumes bm: "boot_map P B ts T s" and dvd: "4096 dvd B" and lim: "B + 4096 * length ts \<le> 2 ^ 32"
    and m: "\<And>a. a < P + 4096 \<and> P \<le> a \<or> B \<le> a \<and> a < 2 ^ 32 \<Longrightarrow> cell m a = cell (phys s) a"
  shows "walk_entry m (word_of_nat P) vma = T (unat vma div 4096)"
proof -
  note d = boot_mapD [OF bm]
  let ?p = "unat vma div 4096"
  let ?i = "?p div 1024" and ?j = "?p mod 1024"
  have p: "?p < 2 ^ 20" using unat_less_32 [of vma] by (intro less_mult_imp_div_less) simp
  then have i: "?i < 1024" by (intro less_mult_imp_div_less) simp
  have j: "?j < 1024" and pij: "?i * 1024 + ?j = ?p" by simp_all
  have "unat (drop_bit 22 vma) = ?i" unfolding unat_drop_bit by (simp add: div_mult2_eq [symmetric])
  then have wi: "drop_bit 22 vma = word_of_nat ?i" by (rule unat_eq_word)
  have "unat (drop_bit 12 vma AND 0x3ff) = ?j" unfolding mask_fff unat_and_mask unat_drop_bit by simp
  then have wj: "drop_bit 12 vma AND 0x3ff = word_of_nat ?j" by (rule unat_eq_word)
  have pde: "m (word_of_nat P + 4 * word_of_nat ?i) = cell (phys s) (P + 4 * ?i)"
    using m [of "P + 4 * ?i"] i unfolding cell_def by simp
  show ?thesis
  proof (cases "?i \<in> set ts")
    case True
    then obtain k where k: "k < length ts" "ts ! k = ?i" by (auto simp: in_set_conv_nth)
    let ?t = "B + 4096 * k"
    have c: "cell (phys s) (P + 4 * ?i) = word_of_nat ?t OR 7" using d(3) [OF k(1)] k(2) by simp
    have "7 AND NOT (mask 12) = (0 :: u32)" by (simp add: mask_eq_exp_minus_1)
    moreover have t32: "?t < 2 ^ 32" "4096 dvd ?t" using k(1) lim dvd by simp_all
    ultimately have tab: "push_bit 12 (drop_bit 12 (word_of_nat ?t OR 7)) = (word_of_nat ?t :: u32)"
      by (intro page_split(1))
    have on: "(word_of_nat ?t OR 7) AND PAGE_PRESENT \<noteq> 0"
    proof -
      have "bit ((word_of_nat ?t OR 7) AND PAGE_PRESENT) 0" by (simp add: PAGE_PRESENT_def bit_simps)
      then show ?thesis by auto
    qed
    have "m (word_of_nat ?t + 4 * word_of_nat ?j) = cell m (?t + 4 * ?j)" unfolding cell_def by simp
    also have "?t + 4 * ?j < 2 ^ 32" using k(1) lim j by linarith
    then have "cell m (?t + 4 * ?j) = cell (phys s) (?t + 4 * ?j)" by (intro m) simp
    also have "\<dots> = T ?p" using d(7) [OF k(1) j] k(2) pij by simp
    finally show ?thesis unfolding walk_entry_def Let_def wi wj pde c tab using on by simp
  next
    case False
    then show ?thesis using d(5) [OF i False] d(8) [of ?p] unfolding walk_entry_def Let_def wi pde by simp
  qed
qed

section \<open>The lookup table\<close>

lemma fix_lookup_cells:
  fixes V :: u32
  assumes l: "init_page_struct_addr l = word_of_nat P" and lim: "P + 8192 \<le> 2 ^ 32" and V: "init_page_next_vma s = V"
  shows "a < 2 ^ 32 \<Longrightarrow> cell (phys (fix_lookup l s)) a =
      (if \<exists>i<1024. a = P + 4096 + 4 * i then (if cell (phys s) a = 0 then 0 else cell (phys s) a + (V - 4096))
       else cell (phys s) a)"
    and "init_page_next_vma (fix_lookup l s) = V" "init_page_next_pma (fix_lookup l s) = init_page_next_pma s"
    "init_vga_buffer_vma (fix_lookup l s) = init_vga_buffer_vma s"
proof -
  let ?f = "fix_entry l"
  have at: "lookup_at l (word_of_nat i) = word_of_nat (P + 4096 + 4 * i)" for i
    by (simp add: lookup_at_def l PAGE_SIZE_def)
  have "n \<le> 1024 \<Longrightarrow> (\<forall>a<2 ^ 32. cell (phys (fold ?f [0..<n] s)) a =
      (if \<exists>i<n. a = P + 4096 + 4 * i then (if cell (phys s) a = 0 then 0 else cell (phys s) a + (V - 4096))
       else cell (phys s) a)) \<and>
     init_page_next_vma (fold ?f [0..<n] s) = V \<and> init_page_next_pma (fold ?f [0..<n] s) = init_page_next_pma s \<and>
     init_vga_buffer_vma (fold ?f [0..<n] s) = init_vga_buffer_vma s" for n
  proof (induction n)
    case 0
    then show ?case using V by simp
  next
    case (Suc n)
    let ?s = "fold ?f [0..<n] s" and ?a = "P + 4096 + 4 * n"
    have ih: "\<And>a. a < 2 ^ 32 \<Longrightarrow> cell (phys ?s) a =
      (if \<exists>i<n. a = P + 4096 + 4 * i then (if cell (phys s) a = 0 then 0 else cell (phys s) a + (V - 4096))
       else cell (phys s) a)" "init_page_next_vma ?s = V" "init_page_next_pma ?s = init_page_next_pma s"
      "init_vga_buffer_vma ?s = init_vga_buffer_vma s"
      using Suc by simp_all
    have a: "?a < 2 ^ 32" using Suc.prems lim by simp
    have ca: "phys ?s (word_of_nat ?a) = cell (phys s) ?a"
      using ih(1) [OF a] unfolding cell_def by auto
    have eq: "fold ?f [0..<Suc n] s =
        (if cell (phys s) ?a \<noteq> 0 then iwr (word_of_nat ?a) (cell (phys s) ?a + (V - 4096)) ?s else ?s)"
      unfolding upt_Suc_append [OF le0] fold_append
      by (simp add: fix_entry_def at Let_def ca ih(2) PAGE_SIZE_def del: of_nat_add of_nat_mult)
    have ex: "(\<exists>i<Suc n. b = P + 4096 + 4 * i) \<longleftrightarrow> (\<exists>i<n. b = P + 4096 + 4 * i) \<or> b = ?a" for b
      by (auto simp: less_Suc_eq)
    have "cell (phys (fold ?f [0..<Suc n] s)) b =
      (if \<exists>i<Suc n. b = P + 4096 + 4 * i then (if cell (phys s) b = 0 then 0 else cell (phys s) b + (V - 4096))
       else cell (phys s) b)" if "b < 2 ^ 32" for b
      unfolding eq ex using ih(1) [OF that] a that
      by (auto simp: cell_upd simp del: of_nat_add of_nat_mult)
    then show ?case unfolding eq using ih(2-4) by simp
  qed
  from this [of 1024]
  show "a < 2 ^ 32 \<Longrightarrow> cell (phys (fix_lookup l s)) a =
      (if \<exists>i<1024. a = P + 4096 + 4 * i then (if cell (phys s) a = 0 then 0 else cell (phys s) a + (V - 4096))
       else cell (phys s) a)"
    "init_page_next_vma (fix_lookup l s) = V" "init_page_next_pma (fix_lookup l s) = init_page_next_pma s"
    "init_vga_buffer_vma (fix_lookup l s) = init_vga_buffer_vma s"
    unfolding fix_lookup_def by simp_all
qed

section \<open>The image and its map\<close>

text \<open>Page numbers: the pages of the text and of the whole image, and the first table's frame.\<close>

definition text_pages :: "linker \<Rightarrow> nat" where
  "text_pages l = (unat (RODATA_END_VMA l) - 0xE0000000) div 4096"

definition image_pages :: "linker \<Rightarrow> nat" where
  "image_pages l = (unat (BSS_END_VMA l) - 0xE0000000) div 4096"

definition first_table :: "linker \<Rightarrow> nat" where
  "first_table l = unat (INIT_BSS_END l) + 4096 * image_pages l"

text \<open>The entry of every page of the finished map.\<close>

definition boot_entry :: "linker \<Rightarrow> nat \<Rightarrow> u32" where
  "boot_entry l p =
     (let k = p - 0xE0000; n = image_pages l in
      if unat (INIT_START l) div 4096 \<le> p \<and> p < unat (INIT_BSS_END l) div 4096
      then word_of_nat (4096 * p) OR (PAGE_WRITE OR PAGE_PRESENT)
      else if p < 0xE0000 then 0
      else if k < text_pages l then word_of_nat (unat (INIT_BSS_END l) + 4096 * k) OR (PAGE_PUBLIC OR PAGE_PRESENT)
      else if k < n then word_of_nat (unat (INIT_BSS_END l) + 4096 * k) OR (PAGE_PUBLIC OR PAGE_WRITE OR PAGE_PRESENT)
      else if k = n then init_page_struct_addr l OR (PAGE_WRITE OR PAGE_PRESENT)
      else if k = n + 1 then (init_page_struct_addr l + PAGE_SIZE) OR (PAGE_WRITE OR PAGE_PRESENT)
      else if k = n + 2 then VGA_PADDR_BUFFER OR (PAGE_PUBLIC OR PAGE_WRITE OR PAGE_PRESENT)
      else if k < n + 6 then word_of_nat (first_table l + 4096 * (k - (n + 3))) OR (PAGE_WRITE OR PAGE_PRESENT)
      else if p = 0xFFFFF then (init_page_struct_addr l + 2 * PAGE_SIZE) OR (PAGE_WRITE OR PAGE_PRESENT)
      else 0)"

lemma image_okE:
  assumes "image_ok l"
  obtains i e q r n where "unat (INIT_START l) = 4096 * i" "unat (INIT_BSS_END l) = 4096 * e"
    "unat (init_page_struct_addr l) = 4096 * q" "unat (RODATA_END_VMA l) = 0xE0000000 + 4096 * r"
    "unat (BSS_END_VMA l) = 0xE0000000 + 4096 * n" "i \<le> q" "q + 3 \<le> e" "0 < r" "r \<le> n" "e + n + 3 < 1024"
    "text_pages l = r" "image_pages l = n" "first_table l = 4096 * (e + n)"
proof -
  note a = assms [unfolded image_ok_def]
  obtain i e q where u: "unat (INIT_START l) = 4096 * i" "unat (INIT_BSS_END l) = 4096 * e"
      "unat (init_page_struct_addr l) = 4096 * q"
    using a by (auto elim!: dvdE)
  have ro: "0xE0000000 < unat (RODATA_END_VMA l)" "unat (RODATA_END_VMA l) \<le> unat (BSS_END_VMA l)"
    using a by (simp_all add: word_less_nat_alt word_le_nat_alt)
  have d: "4096 dvd unat (RODATA_END_VMA l) - 0xE0000000" "4096 dvd unat (BSS_END_VMA l) - 0xE0000000"
    using a by (auto intro!: dvd_diff_nat)
  define r n where "r = (unat (RODATA_END_VMA l) - 0xE0000000) div 4096" and "n = (unat (BSS_END_VMA l) - 0xE0000000) div 4096"
  have rn: "unat (RODATA_END_VMA l) = 0xE0000000 + 4096 * r" "unat (BSS_END_VMA l) = 0xE0000000 + 4096 * n"
    using dvd_mult_div_cancel [OF d(1)] dvd_mult_div_cancel [OF d(2)] ro unfolding r_def n_def by linarith+
  show thesis
  proof
    show "i \<le> q" using a u by (simp add: word_le_nat_alt)
    show "q + 3 \<le> e" "e + n + 3 < 1024" using a u rn by simp_all
    show "0 < r" "r \<le> n" using ro rn by simp_all
    show "text_pages l = r" "image_pages l = n" by (simp_all add: text_pages_def image_pages_def r_def n_def)
    then show "first_table l = 4096 * (e + n)" by (simp add: first_table_def u)
  qed (use u rn in simp_all)
qed

lemma word_from_unat: "unat (w :: u32) = n \<Longrightarrow> w = word_of_nat n"
  by (rule unat_eq_word)

lemma new_tables_none:
  assumes "0 < b" and "b + k < 4194304"
  shows "new_tables (word_of_nat (b + k)) (word_of_nat b) = 0"
proof -
  have u: "unat (word_of_nat b :: u32) = b" "unat (word_of_nat (b + k) :: u32) = b + k"
    by (rule unat_of_nat32; use assms in simp)+
  have "unat (align (word_of_nat b) (2 ^ 22)) = (b + 2 ^ 22 - 1) div 2 ^ 22 * 2 ^ 22"
    using unat_align [of 22 "word_of_nat b"] assms u by simp
  moreover have "(b + 2 ^ 22 - 1) div 2 ^ 22 = 1"
  proof -
    have "b + 2 ^ 22 - 1 = 1 * 2 ^ 22 + (b - 1)" using assms by simp
    then show ?thesis using div_block [of "b - 1" "2 ^ 22" 1] assms by simp
  qed
  moreover have "PAGE_ENTRIES * PAGE_SIZE = 2 ^ 22" by (simp add: PAGE_ENTRIES_def PAGE_SIZE_def)
  ultimately have "word_of_nat (b + k) < align (word_of_nat b) (PAGE_ENTRIES * PAGE_SIZE)"
    using assms u by (simp only: word_less_nat_alt) simp
  then show ?thesis unfolding new_tables_def Let_def by simp
qed

section \<open>The map is built\<close>

text \<open>The entries after each of the steps that add pages to the map.\<close>

definition image_steps :: "nat \<Rightarrow> nat \<Rightarrow> nat \<Rightarrow> nat \<Rightarrow> nat \<Rightarrow> u32" where
  "image_steps i e r n =
     put_pages (0xE0000 + r) (n - r) (\<lambda>k. word_of_nat (4096 * (e + (r + k))) OR (PAGE_PUBLIC OR PAGE_WRITE OR PAGE_PRESENT))
       (put_pages 0xE0000 r (\<lambda>k. word_of_nat (4096 * (e + k)) OR (PAGE_PUBLIC OR PAGE_PRESENT))
          (put_pages i (e - i) (\<lambda>k. word_of_nat (4096 * (i + k)) OR (PAGE_WRITE OR PAGE_PRESENT)) (\<lambda>_. 0)))"

definition own_steps :: "nat \<Rightarrow> nat \<Rightarrow> (nat \<Rightarrow> u32) \<Rightarrow> nat \<Rightarrow> u32" where
  "own_steps q n T =
     (let rw = PAGE_WRITE OR PAGE_PRESENT
      in T(0xE0000 + n := word_of_nat (4096 * q) OR rw, 0xE0000 + n + 1 := word_of_nat (4096 * (q + 1)) OR rw,
           0xFFFFF := word_of_nat (4096 * (q + 2)) OR rw))"

definition screen_steps :: "nat \<Rightarrow> (nat \<Rightarrow> u32) \<Rightarrow> nat \<Rightarrow> u32" where
  "screen_steps n T = put_pages (0xE0000 + n + 2) 1
     (\<lambda>k. (VGA_PADDR_BUFFER + word_of_nat (4096 * k)) OR (PAGE_PUBLIC OR PAGE_WRITE OR PAGE_PRESENT)) T"

definition boot_steps :: "nat \<Rightarrow> nat \<Rightarrow> nat \<Rightarrow> nat \<Rightarrow> nat \<Rightarrow> nat \<Rightarrow> u32" where
  "boot_steps i e q r n =
     put_pages (0xE0000 + n + 3) 3 (\<lambda>k. word_of_nat (4096 * (e + n + k)) OR (PAGE_WRITE OR PAGE_PRESENT))
       (screen_steps n (own_steps q n (image_steps i e r n)))"

lemmas step_defs = image_steps_def own_steps_def screen_steps_def boot_steps_def put_pages_def

lemma boot_steps_entry:
  assumes "unat (INIT_START l) = 4096 * i" "unat (INIT_BSS_END l) = 4096 * e"
    "unat (init_page_struct_addr l) = 4096 * q" "r \<le> n" "e + n + 3 < 1024" "i \<le> e"
    "text_pages l = r" "image_pages l = n" "first_table l = 4096 * (e + n)"
  shows "boot_steps i e q r n = boot_entry l"
proof (rule ext)
  fix p
  have P: "init_page_struct_addr l = word_of_nat (4096 * q)" by (rule unat_eq_word) (rule assms(3))
  have w: "word_of_nat (4096 * q) + PAGE_SIZE = (word_of_nat (4096 * (q + 1)) :: u32)"
    "word_of_nat (4096 * q) + 2 * PAGE_SIZE = (word_of_nat (4096 * (q + 2)) :: u32)"
    by (simp_all add: PAGE_SIZE_def)
  have small: "e < 917504" "n + 6 < 131071" "i + (e - i) = e" using assms(5,6) by simp_all
  consider "p < i" | "i \<le> p" "p < e" | "e \<le> p" "i \<le> p" "p < 917504" | "917504 \<le> p" by linarith
  then show "boot_steps i e q r n p = boot_entry l p"
  proof cases
    case 4
    define k where "k = p - 917504"
    have p: "p = 917504 + k" using 4 by (simp add: k_def)
    consider "k < r" | "r \<le> k" "k < n" | "k = n" | "k = n + 1" | "k = n + 2" | "n + 3 \<le> k" "k < n + 6"
      | "n + 6 \<le> k" by linarith
    then show ?thesis
      unfolding step_defs boot_entry_def Let_def p assms P w
      by cases (use small assms(4) in \<open>simp_all add: algebra_simps\<close>)
  qed (unfold step_defs boot_entry_def Let_def assms P w, use small in \<open>simp_all add: algebra_simps\<close>)
qed

lemma boot_range:
  fixes flags :: u32
  assumes bm: "boot_map P B ts T s" and l: "init_page_struct_addr l = word_of_nat P"
    and dvd: "4096 dvd B" and lim: "P + 8192 \<le> B" "B + 4096 * (length ts + 3) \<le> 2 ^ 32"
    and lo: "x = word_of_nat (4096 * a)" and hi: "y = word_of_nat c" "c \<le> 4096 * (a + n)" "4096 * (a + n) < 4096 + c" "a + n < 2 ^ 20"
    and dir: "1024 * i \<le> p0" "p0 + n \<le> 1024 * (i + 1)" and ends: "p0 + n \<le> 2 ^ 20"
    and fresh: "\<And>k. k < n \<Longrightarrow> T (p0 + k) = 0"
    and f: "\<And>k s'. init_page_next_vma s' = init_page_next_vma s \<Longrightarrow>
       f (word_of_nat (4096 * (a + k))) s' = init_page_map l (word_of_nat (4096 * (p0 + k))) (pma k) flags s'"
  shows "\<exists>s'. page_range f x y s = Inr (word_of_nat (4096 * (a + n)), s') \<and>
    boot_map P B (if n = 0 then ts else add_dir i ts) (put_pages p0 n (\<lambda>k. pma k OR flags) T) s' \<and>
    init_page_next_vma s' = init_page_next_vma s \<and> init_vga_buffer_vma s' = init_vga_buffer_vma s"
proof -
  let ?f = "\<lambda>k. f (word_of_nat (4096 * a + 4096 * k))"
  have "page_range f (word_of_nat (4096 * a)) (word_of_nat c) s = Inr (word_of_nat (4096 * a + 4096 * n), fold ?f [0..<n] s)"
    by (rule page_range_fold) (use hi in simp_all)
  moreover have "(p0 + k) div 1024 = i" if "k < n" for k
    by (rule div_nat_eqI) (use dir that in simp_all)
  then have "boot_map P B (if n = 0 then ts else add_dir i ts) (put_pages p0 n (\<lambda>k. pma k OR flags) T) (fold ?f [0..<n] s) \<and>
    init_page_next_vma (fold ?f [0..<n] s) = init_page_next_vma s \<and> init_vga_buffer_vma (fold ?f [0..<n] s) = init_vga_buffer_vma s"
    using boot_map_range [OF bm l dvd lim, of n p0 i ?f pma flags] ends fresh f by (simp add: distrib_left)
  ultimately show ?thesis unfolding lo hi(1) by (simp add: distrib_left)
qed

lemma boot_one:
  fixes pma flags :: u32
  assumes bm: "boot_map P B ts T s" and l: "init_page_struct_addr l = word_of_nat P"
    and dvd: "4096 dvd B" and lim: "P + 8192 \<le> B" "B + 4096 * (length ts + 2) \<le> 2 ^ 32"
    and p: "vma = word_of_nat (4096 * p)" "p < 2 ^ 20" and fresh: "T p = 0"
  shows "boot_map P B (add_dir (p div 1024) ts) (T(p := pma OR flags)) (init_page_map l vma pma flags s)"
    and "init_page_next_vma (init_page_map l vma pma flags s) = init_page_next_vma s"
    and "init_vga_buffer_vma (init_page_map l vma pma flags s) = init_vga_buffer_vma s"
  using boot_map_page [OF bm l p(2) dvd lim, of pma flags] fresh unfolding p(1) by simp_all

text \<open>
  The places of the image, in pages: the init section from \<open>i\<close> to \<open>e\<close> with \<open>init_page_struct\<close> at \<open>q\<close>, and a
  kernel of \<open>n\<close> pages of which \<open>r\<close> are read only.
\<close>

definition laid_out :: "linker \<Rightarrow> nat \<Rightarrow> nat \<Rightarrow> nat \<Rightarrow> nat \<Rightarrow> nat \<Rightarrow> bool" where
  "laid_out l i e q r n \<longleftrightarrow> i \<le> q \<and> q + 3 \<le> e \<and> 0 < r \<and> r \<le> n \<and> e + n + 3 < 1024 \<and>
     INIT_START l = word_of_nat (4096 * i) \<and> INIT_BSS_END l = word_of_nat (4096 * e) \<and>
     init_page_struct_addr l = word_of_nat (4096 * q) \<and> TEXT_START_VMA l = word_of_nat (4096 * 0xE0000) \<and>
     RODATA_END_VMA l - TEXT_START_VMA l = word_of_nat (4096 * r) \<and>
     BSS_END_VMA l - TEXT_START_VMA l = word_of_nat (4096 * n) \<and> BSS_END_VMA l = word_of_nat (4096 * (0xE0000 + n)) \<and>
     KERNEL_END_VMA l - KERNEL_START_VMA l = word_of_nat (4096 * n)"

lemma laid_outD:
  assumes "laid_out l i e q r n"
  shows "i \<le> q" "q + 3 \<le> e" "0 < r" "r \<le> n" "e + n + 3 < 1024"
    and "INIT_START l = word_of_nat (4096 * i)" "INIT_BSS_END l = word_of_nat (4096 * e)"
    "init_page_struct_addr l = word_of_nat (4096 * q)" "TEXT_START_VMA l = word_of_nat (4096 * 0xE0000)"
    "RODATA_END_VMA l - TEXT_START_VMA l = word_of_nat (4096 * r)" "BSS_END_VMA l - TEXT_START_VMA l = word_of_nat (4096 * n)"
    "BSS_END_VMA l = word_of_nat (4096 * (0xE0000 + n))" "KERNEL_END_VMA l - KERNEL_START_VMA l = word_of_nat (4096 * n)"
  using assms unfolding laid_out_def by blast+

lemma laid_outE:
  assumes ok: "image_ok l"
  obtains i e q r n where "laid_out l i e q r n" "unat (INIT_START l) = 4096 * i" "unat (INIT_BSS_END l) = 4096 * e"
    "unat (init_page_struct_addr l) = 4096 * q" "text_pages l = r" "image_pages l = n" "first_table l = 4096 * (e + n)"
proof -
  from ok obtain i e q r n where u: "unat (INIT_START l) = 4096 * i" "unat (INIT_BSS_END l) = 4096 * e"
    "unat (init_page_struct_addr l) = 4096 * q" "unat (RODATA_END_VMA l) = 0xE0000000 + 4096 * r"
    "unat (BSS_END_VMA l) = 0xE0000000 + 4096 * n" and le: "i \<le> q" "q + 3 \<le> e" "0 < r" "r \<le> n" "e + n + 3 < 1024"
    and t: "text_pages l = r" "image_pages l = n" "first_table l = 4096 * (e + n)"
    by (rule image_okE)
  have w: "INIT_START l = word_of_nat (4096 * i)" "INIT_BSS_END l = word_of_nat (4096 * e)"
    "init_page_struct_addr l = word_of_nat (4096 * q)"
    by (rule unat_eq_word, rule u)+
  have b: "BSS_END_VMA l = word_of_nat (0xE0000000 + 4096 * n)" "RODATA_END_VMA l = word_of_nat (0xE0000000 + 4096 * r)"
    by (rule unat_eq_word, rule u)+
  have "laid_out l i e q r n"
    using ok le w b by (simp add: laid_out_def image_ok_def)
  then show ?thesis using that u(1-3) t by blast
qed

text \<open>The three loops over the image.\<close>

lemma image_mapped:
  assumes lo: "laid_out l i e q r n" and b0: "boot_map (4096 * q) (4096 * (e + n)) [] (\<lambda>_. 0) s1"
  shows "\<exists>s2 s3 s4.
    page_range (\<lambda>i. init_page_map l i i (PAGE_WRITE OR PAGE_PRESENT)) (INIT_START l) (INIT_BSS_END l) s1 =
      Inr (word_of_nat (4096 * e), s2) \<and>
    page_range (\<lambda>i. init_page_map l (TEXT_START_VMA l + i) (INIT_BSS_END l + i) (PAGE_PUBLIC OR PAGE_PRESENT))
      0 (RODATA_END_VMA l - TEXT_START_VMA l) s2 = Inr (word_of_nat (4096 * r), s3) \<and>
    page_range (\<lambda>i. init_page_map l (TEXT_START_VMA l + i) (INIT_BSS_END l + i) (PAGE_PUBLIC OR PAGE_WRITE OR PAGE_PRESENT))
      (word_of_nat (4096 * r)) (BSS_END_VMA l - TEXT_START_VMA l) s3 = Inr (word_of_nat (4096 * n), s4) \<and>
    boot_map (4096 * q) (4096 * (e + n)) [0, 896] (image_steps i e r n) s4"
proof -
  note le = laid_outD(1-5) [OF lo] and w = laid_outD(6-) [OF lo]
  let ?P = "4096 * q" and ?B = "4096 * (e + n)" and ?rw = "PAGE_WRITE OR PAGE_PRESENT"
  have dvd: "4096 dvd ?B" and lim: "?P + 8192 \<le> ?B" using le by simp_all
  have room: "?B + 4096 * (k + 3) \<le> 2 ^ 32" if "k \<le> 3" for k using le that by simp
  define T1 where "T1 = put_pages i (e - i) (\<lambda>k. word_of_nat (4096 * (i + k)) OR ?rw) (\<lambda>_. 0)"
  have ie: "e - i \<noteq> 0" "i + (e - i) = e" using le by simp_all
  obtain s2 where r2: "page_range (\<lambda>i. init_page_map l i i ?rw) (INIT_START l) (INIT_BSS_END l) s1 = Inr (word_of_nat (4096 * e), s2)"
    and b2: "boot_map ?P ?B [0] T1 s2"
    using boot_range [OF b0 w(3) dvd lim room w(1,2), where n = "e - i" and ?p0.0 = i and i = 0 and
        f = "\<lambda>i. init_page_map l i i ?rw" and pma = "\<lambda>k. word_of_nat (4096 * (i + k))" and flags = ?rw] le ie
    by (auto simp: T1_def add_dir_def)
  define T2 where "T2 = put_pages 0xE0000 r (\<lambda>k. word_of_nat (4096 * (e + k)) OR (PAGE_PUBLIC OR PAGE_PRESENT)) T1"
  obtain s3 where r3: "page_range (\<lambda>i. init_page_map l (TEXT_START_VMA l + i) (INIT_BSS_END l + i) (PAGE_PUBLIC OR PAGE_PRESENT))
      0 (RODATA_END_VMA l - TEXT_START_VMA l) s2 = Inr (word_of_nat (4096 * r), s3)"
    and b3: "boot_map ?P ?B [0, 896] T2 s3"
    using boot_range [OF b2 w(3) dvd lim room _ w(5), where x = 0 and a = 0 and n = r and ?p0.0 = "0xE0000" and i = 896 and
        f = "\<lambda>i. init_page_map l (TEXT_START_VMA l + i) (INIT_BSS_END l + i) (PAGE_PUBLIC OR PAGE_PRESENT)" and
        pma = "\<lambda>k. word_of_nat (4096 * (e + k))" and flags = "PAGE_PUBLIC OR PAGE_PRESENT"] le ie
    by (auto simp: T1_def T2_def put_pages_def add_dir_def w(2,4) algebra_simps)
  have T3: "image_steps i e r n = put_pages (0xE0000 + r) (n - r) (\<lambda>k. word_of_nat (4096 * (e + (r + k))) OR (PAGE_PUBLIC OR ?rw)) T2"
    unfolding image_steps_def T2_def T1_def ..
  obtain s4 where r4: "page_range (\<lambda>i. init_page_map l (TEXT_START_VMA l + i) (INIT_BSS_END l + i) (PAGE_PUBLIC OR ?rw))
      (word_of_nat (4096 * r)) (BSS_END_VMA l - TEXT_START_VMA l) s3 = Inr (word_of_nat (4096 * n), s4)"
    and b4: "boot_map ?P ?B [0, 896] (image_steps i e r n) s4"
    using boot_range [OF b3 w(3) dvd lim room refl w(6), where n = "n - r" and ?p0.0 = "0xE0000 + r" and i = 896 and
        f = "\<lambda>i. init_page_map l (TEXT_START_VMA l + i) (INIT_BSS_END l + i) (PAGE_PUBLIC OR ?rw)" and
        pma = "\<lambda>k. word_of_nat (4096 * (e + (r + k)))" and flags = "PAGE_PUBLIC OR ?rw" and a = r] le ie
    by (auto simp: T3 T1_def T2_def put_pages_def add_dir_def w(2,4) algebra_simps split: if_splits)
  show ?thesis using r2 r3 r4 b4 by blast
qed

text \<open>The page directory, the lookup table and the stack.\<close>

definition map_own :: "linker \<Rightarrow> init_state \<Rightarrow> init_state" where
  "map_own l s4 =
     (let s5 = s4\<lparr>init_page_next_vma := BSS_END_VMA l\<rparr>;
          s6 = init_page_map l (init_page_next_vma s5) (init_page_struct_addr l) (PAGE_WRITE OR PAGE_PRESENT) s5;
          s7 = s6\<lparr>init_page_next_vma := init_page_next_vma s6 + PAGE_SIZE\<rparr>;
          s8 = init_page_map l (init_page_next_vma s7) (init_page_struct_addr l + PAGE_SIZE) (PAGE_WRITE OR PAGE_PRESENT) s7;
          s9 = s8\<lparr>init_page_next_vma := init_page_next_vma s8 + PAGE_SIZE\<rparr>;
          s10 = init_page_map l (0 - PAGE_SIZE) (init_page_struct_addr l + 2 * PAGE_SIZE) (PAGE_WRITE OR PAGE_PRESENT) s9
      in s10\<lparr>init_vga_buffer_vma := init_page_next_vma s10\<rparr>)"

lemma own_mapped:
  assumes lo: "laid_out l i e q r n" and b4: "boot_map (4096 * q) (4096 * (e + n)) [0, 896] (image_steps i e r n) s4"
  shows "boot_map (4096 * q) (4096 * (e + n)) [0, 896, 1023] (own_steps q n (image_steps i e r n)) (map_own l s4)"
    and "init_page_next_vma (map_own l s4) = word_of_nat (4096 * (0xE0000 + n + 2))"
    and "init_vga_buffer_vma (map_own l s4) = word_of_nat (4096 * (0xE0000 + n + 2))"
proof -
  note le = laid_outD(1-5) [OF lo] and w = laid_outD(6-) [OF lo]
  let ?P = "4096 * q" and ?B = "4096 * (e + n)" and ?rw = "PAGE_WRITE OR PAGE_PRESENT" and ?K = "0xE0000 :: nat"
  let ?T3 = "image_steps i e r n"
  have dvd: "4096 dvd ?B" and lim: "?P + 8192 \<le> ?B" and room: "?B + 4096 * (2 + 2) \<le> 2 ^ 32" using le by simp_all
  have pq: "init_page_struct_addr l + PAGE_SIZE = word_of_nat (4096 * (q + 1))"
    "init_page_struct_addr l + 2 * PAGE_SIZE = word_of_nat (4096 * (q + 2))" by (simp_all add: w(3) PAGE_SIZE_def)
  define s5 where "s5 = s4\<lparr>init_page_next_vma := BSS_END_VMA l\<rparr>"
  define s6 where "s6 = init_page_map l (init_page_next_vma s5) (init_page_struct_addr l) ?rw s5"
  define s7 where "s7 = s6\<lparr>init_page_next_vma := init_page_next_vma s6 + PAGE_SIZE\<rparr>"
  define s8 where "s8 = init_page_map l (init_page_next_vma s7) (init_page_struct_addr l + PAGE_SIZE) ?rw s7"
  define s9 where "s9 = s8\<lparr>init_page_next_vma := init_page_next_vma s8 + PAGE_SIZE\<rparr>"
  define s10 where "s10 = init_page_map l (0 - PAGE_SIZE) (init_page_struct_addr l + 2 * PAGE_SIZE) ?rw s9"
  have eq: "map_own l s4 = s10\<lparr>init_vga_buffer_vma := init_page_next_vma s10\<rparr>"
    unfolding map_own_def Let_def s10_def s9_def s8_def s7_def s6_def s5_def ..
  have v5: "init_page_next_vma s5 = word_of_nat (4096 * (?K + n))" by (simp add: s5_def w(7))
  define T4 where "T4 = ?T3(?K + n := word_of_nat (4096 * q) OR ?rw)"
  have b5: "boot_map ?P ?B [0, 896] ?T3 s5" by (rule boot_map_env [OF b4]) (simp_all add: s5_def)
  have b6: "boot_map ?P ?B [0, 896] T4 s6" and v6: "init_page_next_vma s6 = word_of_nat (4096 * (?K + n))"
    using boot_one [OF b5 w(3) dvd lim _ v5, of "word_of_nat (4096 * q)" ?rw] le room v5
    by (simp_all add: s6_def T4_def w(3) add_dir_def step_defs div_nat_eqI)
  define T5 where "T5 = T4(?K + n + 1 := word_of_nat (4096 * (q + 1)) OR ?rw)"
  have v7: "init_page_next_vma s7 = word_of_nat (4096 * (?K + n + 1))" by (simp add: s7_def v6 PAGE_SIZE_def)
  have b7: "boot_map ?P ?B [0, 896] T4 s7" by (rule boot_map_env [OF b6]) (simp_all add: s7_def)
  have b8: "boot_map ?P ?B [0, 896] T5 s8" and v8: "init_page_next_vma s8 = word_of_nat (4096 * (?K + n + 1))"
    using boot_one [OF b7 w(3) dvd lim _ v7, of "word_of_nat (4096 * (q + 1))" ?rw] le room v7
    unfolding s8_def T5_def pq(1) by (simp_all add: T4_def add_dir_def step_defs div_nat_eqI)
  have T6: "own_steps q n ?T3 = T5(0xFFFFF := word_of_nat (4096 * (q + 2)) OR ?rw)"
    unfolding own_steps_def T5_def T4_def Let_def ..
  have v9: "init_page_next_vma s9 = word_of_nat (4096 * (?K + n + 2))" by (simp add: s9_def v8 PAGE_SIZE_def)
  have b9: "boot_map ?P ?B [0, 896] T5 s9" by (rule boot_map_env [OF b8]) (simp_all add: s9_def)
  have top: "0 - PAGE_SIZE = word_of_nat (4096 * 0xFFFFF)" by (simp add: PAGE_SIZE_def)
  have b10: "boot_map ?P ?B [0, 896, 1023] (own_steps q n ?T3) s10" and v10: "init_page_next_vma s10 = word_of_nat (4096 * (?K + n + 2))"
    using boot_one [OF b9 w(3) dvd lim _ top, of "word_of_nat (4096 * (q + 2))" ?rw] le room v9
    unfolding s10_def T6 pq(2) by (simp_all add: T5_def T4_def add_dir_def step_defs)
  show "boot_map ?P ?B [0, 896, 1023] (own_steps q n ?T3) (map_own l s4)"
    unfolding eq by (rule boot_map_env [OF b10]) simp_all
  show "init_page_next_vma (map_own l s4) = word_of_nat (4096 * (?K + n + 2))"
    "init_vga_buffer_vma (map_own l s4) = word_of_nat (4096 * (?K + n + 2))" unfolding eq by (simp_all add: v10)
qed

text \<open>The screen, and then the tables themselves.\<close>

lemma screen_mapped:
  assumes lo: "laid_out l i e q r n" and v: "init_page_next_vma s = word_of_nat (4096 * (0xE0000 + n + 2))"
    and b: "boot_map (4096 * q) (4096 * (e + n)) [0, 896, 1023] (own_steps q n (image_steps i e r n)) s"
  shows "\<exists>s'. page_range (\<lambda>i s. init_page_map l (init_page_next_vma s + i) (VGA_PADDR_BUFFER + i) (PAGE_PUBLIC OR PAGE_WRITE OR PAGE_PRESENT) s)
      0 (VGA_WIDTH * VGA_HEIGHT * 2) s = Inr (word_of_nat 4096, s') \<and>
    boot_map (4096 * q) (4096 * (e + n)) [0, 896, 1023] (screen_steps n (own_steps q n (image_steps i e r n))) s' \<and>
    init_page_next_vma s' = init_page_next_vma s \<and> init_vga_buffer_vma s' = init_vga_buffer_vma s"
proof -
  note le = laid_outD(1-5) [OF lo] and w = laid_outD(6-) [OF lo]
  have vsize: "VGA_WIDTH * VGA_HEIGHT * 2 = word_of_nat 4000" by (simp add: VGA_WIDTH_def VGA_HEIGHT_def)
  have dvd: "4096 dvd 4096 * (e + n)" and lim: "4096 * q + 8192 \<le> 4096 * (e + n)" using le by simp_all
  show ?thesis
    using boot_range [OF b w(3) dvd lim _ _ vsize, where x = 0 and a = 0 and n = 1 and ?p0.0 = "0xE0000 + n + 2" and i = 896 and
        f = "\<lambda>i s. init_page_map l (init_page_next_vma s + i) (VGA_PADDR_BUFFER + i) (PAGE_PUBLIC OR PAGE_WRITE OR PAGE_PRESENT) s" and
        pma = "\<lambda>k. VGA_PADDR_BUFFER + word_of_nat (4096 * k)" and flags = "PAGE_PUBLIC OR PAGE_WRITE OR PAGE_PRESENT"] le v
    by (auto simp: step_defs add_dir_def Let_def algebra_simps)
qed

lemma tables_mapped:
  assumes lo: "laid_out l i e q r n" and v: "init_page_next_vma s = word_of_nat (4096 * (0xE0000 + n + 3))"
    and b: "boot_map (4096 * q) (4096 * (e + n)) [0, 896, 1023] (screen_steps n (own_steps q n (image_steps i e r n))) s"
    and ke: "ke = word_of_nat (4096 * (e + n))"
  shows "init_page_next_pma s - ke + new_tables (init_page_next_pma s) ke * PAGE_SIZE = word_of_nat 12288"
    and "\<exists>s'. page_range (\<lambda>i s. init_page_map l (init_page_next_vma s + i) (ke + i) (PAGE_WRITE OR PAGE_PRESENT) s)
        0 (word_of_nat 12288) s = Inr (word_of_nat 12288, s') \<and>
      boot_map (4096 * q) (4096 * (e + n)) [0, 896, 1023] (boot_steps i e q r n) s' \<and>
      init_page_next_vma s' = init_page_next_vma s \<and> init_vga_buffer_vma s' = init_vga_buffer_vma s"
proof -
  note le = laid_outD(1-5) [OF lo] and w = laid_outD(6-) [OF lo]
  have np: "init_page_next_pma s = word_of_nat (4096 * (e + n) + 12288)" using boot_mapD(9) [OF b] by simp
  show "init_page_next_pma s - ke + new_tables (init_page_next_pma s) ke * PAGE_SIZE = word_of_nat 12288"
    unfolding np ke by (subst new_tables_none) (use le in simp_all)
  have dvd: "4096 dvd 4096 * (e + n)" and lim: "4096 * q + 8192 \<le> 4096 * (e + n)" using le by simp_all
  show "\<exists>s'. page_range (\<lambda>i s. init_page_map l (init_page_next_vma s + i) (ke + i) (PAGE_WRITE OR PAGE_PRESENT) s)
        0 (word_of_nat 12288) s = Inr (word_of_nat 12288, s') \<and>
      boot_map (4096 * q) (4096 * (e + n)) [0, 896, 1023] (boot_steps i e q r n) s' \<and>
      init_page_next_vma s' = init_page_next_vma s \<and> init_vga_buffer_vma s' = init_vga_buffer_vma s"
    using boot_range [OF b w(3) dvd lim _ _ refl, where x = 0 and a = 0 and n = 3 and ?p0.0 = "0xE0000 + n + 3" and i = 896 and c = 12288 and
        f = "\<lambda>i s. init_page_map l (init_page_next_vma s + i) (ke + i) (PAGE_WRITE OR PAGE_PRESENT) s" and
        pma = "\<lambda>k. word_of_nat (4096 * (e + n + k))" and flags = "PAGE_WRITE OR PAGE_PRESENT"] le v
    by (auto simp: step_defs add_dir_def Let_def ke algebra_simps)
qed

text \<open>
  The tables taken are those of directory entries 0 (the init section), 896 (the kernel) and 1023 (the
  stack), in this order.
\<close>

lemma init_map_kernel_ok:
  assumes ok: "image_ok l" and zero: "\<And>i. i < 2048 \<Longrightarrow> cell m (unat (init_page_struct_addr l) + 4 * i) = 0"
  shows "\<exists>s0 s. init_map_kernel l (init_start m) = Inr s \<and>
    boot_map (unat (init_page_struct_addr l)) (first_table l) [0, 896, 1023] (boot_entry l) s0 \<and>
    phys s = phys (fix_lookup l s0) \<and> init_page_next_vma s0 = BSS_END_VMA l + 0x3000 \<and>
    init_page_next_vma s = BSS_END_VMA l + 0x6000 \<and> init_page_next_pma s = word_of_nat (first_table l + 0x3000) \<and>
    init_vga_buffer_vma s = BSS_END_VMA l + 0x2000"
proof -
  from ok obtain i e q r n where lo: "laid_out l i e q r n" and u: "unat (INIT_START l) = 4096 * i" "unat (INIT_BSS_END l) = 4096 * e"
    "unat (init_page_struct_addr l) = 4096 * q" and t: "text_pages l = r" "image_pages l = n" "first_table l = 4096 * (e + n)"
    by (rule laid_outE)
  note le = laid_outD(1-5) [OF lo] and w = laid_outD(6-) [OF lo]
  define ke where "ke = KERNEL_END_VMA l - KERNEL_START_VMA l + INIT_BSS_END l"
  have ke: "ke = word_of_nat (4096 * (e + n))" by (simp add: ke_def w(2,8) algebra_simps)
  define s1 where "s1 = (init_start m)\<lparr>init_page_next_pma := ke\<rparr>"
  have "cell m (4096 * q + 4096 + 4 * j) = 0" if "j < 1024" for j
    using zero [of "1024 + j"] that unfolding u(3) by (simp add: algebra_simps)
  then have "boot_map (4096 * q) (4096 * (e + n)) [] (\<lambda>_. 0) s1"
    using zero unfolding u(3) boot_map_def by (simp add: s1_def init_start_def ke PAGE_SIZE_def algebra_simps)
  then obtain s2 s3 s4 where r: "page_range (\<lambda>i. init_page_map l i i (PAGE_WRITE OR PAGE_PRESENT)) (INIT_START l) (INIT_BSS_END l) s1 =
        Inr (word_of_nat (4096 * e), s2)"
      "page_range (\<lambda>i. init_page_map l (TEXT_START_VMA l + i) (INIT_BSS_END l + i) (PAGE_PUBLIC OR PAGE_PRESENT))
        0 (RODATA_END_VMA l - TEXT_START_VMA l) s2 = Inr (word_of_nat (4096 * r), s3)"
      "page_range (\<lambda>i. init_page_map l (TEXT_START_VMA l + i) (INIT_BSS_END l + i) (PAGE_PUBLIC OR PAGE_WRITE OR PAGE_PRESENT))
        (word_of_nat (4096 * r)) (BSS_END_VMA l - TEXT_START_VMA l) s3 = Inr (word_of_nat (4096 * n), s4)"
      "boot_map (4096 * q) (4096 * (e + n)) [0, 896] (image_steps i e r n) s4"
    using image_mapped [OF lo] by blast
  note o = own_mapped [OF lo r(4)]
  obtain s12 where s12: "page_range (\<lambda>i s. init_page_map l (init_page_next_vma s + i) (VGA_PADDR_BUFFER + i)
        (PAGE_PUBLIC OR PAGE_WRITE OR PAGE_PRESENT) s) 0 (VGA_WIDTH * VGA_HEIGHT * 2) (map_own l s4) = Inr (word_of_nat 4096, s12)"
      "boot_map (4096 * q) (4096 * (e + n)) [0, 896, 1023] (screen_steps n (own_steps q n (image_steps i e r n))) s12"
      "init_page_next_vma s12 = word_of_nat (4096 * (0xE0000 + n + 2))" "init_vga_buffer_vma s12 = word_of_nat (4096 * (0xE0000 + n + 2))"
    using screen_mapped [OF lo o(2,1)] o(2,3) by auto
  define s13 where "s13 = s12\<lparr>init_page_next_vma := init_page_next_vma s12 + word_of_nat 4096\<rparr>"
  have v13: "init_page_next_vma s13 = word_of_nat (4096 * (0xE0000 + n + 3))" by (simp add: s13_def s12(3))
  have b13: "boot_map (4096 * q) (4096 * (e + n)) [0, 896, 1023] (screen_steps n (own_steps q n (image_steps i e r n))) s13"
    by (rule boot_map_env [OF s12(2)]) (simp_all add: s13_def)
  note tm = tables_mapped [OF lo v13 b13 ke]
  obtain s14 where s14: "page_range (\<lambda>i s. init_page_map l (init_page_next_vma s + i) (ke + i) (PAGE_WRITE OR PAGE_PRESENT) s)
        0 (word_of_nat 12288) s13 = Inr (word_of_nat 12288, s14)"
      "boot_map (4096 * q) (4096 * (e + n)) [0, 896, 1023] (boot_steps i e q r n) s14"
      "init_page_next_vma s14 = word_of_nat (4096 * (0xE0000 + n + 3))" "init_vga_buffer_vma s14 = word_of_nat (4096 * (0xE0000 + n + 2))"
    using tm(2) v13 s12(4) by (auto simp: s13_def)
  define s15 where "s15 = fix_lookup l s14"
  have v15: "init_page_next_vma s15 = init_page_next_vma s14" "init_vga_buffer_vma s15 = init_vga_buffer_vma s14"
    "init_page_next_pma s15 = init_page_next_pma s14"
    using fix_lookup_cells(2-4) [OF w(3), of s14] le unfolding s15_def by simp_all
  let ?s = "s15\<lparr>init_page_next_vma := init_page_next_vma s15 + word_of_nat 12288\<rparr>"
  have "init_map_kernel l (init_start m) = Inr ?s"
    unfolding init_map_kernel_def ke_def [symmetric] s1_def [symmetric] Let_def
    by (simp only: r(1-3) s12(1) [unfolded map_own_def Let_def] s13_def [symmetric] tm(1) s14(1) s15_def [symmetric]
        rbind_simps prod.case)
  moreover have "boot_steps i e q r n = boot_entry l"
    by (rule boot_steps_entry [OF u le(4,5) _ t]) (use le in simp)
  ultimately show ?thesis
    using s14 v15 boot_mapD(9) [OF s14(2)] unfolding u(3) t(3) s15_def
    by (intro exI [of _ s14] exI [of _ ?s]) (simp add: w(7) s15_def)
qed

section \<open>What the processor and the pager find\<close>

lemma low_flags:
  "(PAGE_WRITE OR PAGE_PRESENT) AND NOT (mask 12) = (0 :: u32)"
  "(PAGE_PUBLIC OR PAGE_WRITE OR PAGE_PRESENT) AND NOT (mask 12) = (0 :: u32)"
  "(PAGE_PUBLIC OR PAGE_PRESENT) AND NOT (mask 12) = (0 :: u32)"
  by (simp_all add: PAGE_WRITE_def PAGE_PRESENT_def PAGE_PUBLIC_def mask_eq_exp_minus_1)

lemma walk_eq:
  assumes "walk_entry m dir vma = word_of_nat t OR f" and "f AND NOT (mask 12) = 0" and "4096 dvd t" and "t + 4096 \<le> 2 ^ 32"
  shows "walk m dir vma = word_of_nat (t + unat vma mod 4096)"
proof -
  have t: "t < 2 ^ 32" using assms(4) by simp
  have frame: "push_bit 12 (drop_bit 12 (word_of_nat t OR f)) = word_of_nat t"
    by (rule page_split(1) [OF t assms(3,2)])
  have off: "unat (vma AND 0xfff) = unat vma mod 4096" unfolding mask_fff unat_and_mask by simp
  then have w: "vma AND 0xfff = word_of_nat (unat vma mod 4096)" by (rule unat_eq_word)
  have z: "(0 :: u32) AND NOT (mask 12) = 0" by simp
  have "word_of_nat t AND (vma AND 0xfff) = (0 :: u32)"
  proof -
    have "word_of_nat t AND mask 12 = (0 :: u32)" using page_split(2) [OF t assms(3) z] by simp
    moreover have "word_of_nat t AND (vma AND mask 12) = vma AND (word_of_nat t AND mask 12)"
      by (simp only: and.assoc and.commute and.left_commute)
    ultimately show ?thesis unfolding mask_fff by simp
  qed
  then have "word_of_nat t OR (vma AND 0xfff) = word_of_nat t + (vma AND 0xfff)"
    by (rule disjunctive_add_eq_or [symmetric])
  then show ?thesis unfolding walk_def assms(1) frame by (simp add: w)
qed

lemma boot_map_walk:
  assumes ok: "image_ok l" and zero: "\<And>i. i < 2048 \<Longrightarrow> cell m (unat (init_page_struct_addr l) + 4 * i) = 0"
  shows "\<exists>s. init_map_kernel l (init_start m) = Inr s \<and>
    (\<forall>vma. walk_entry (phys s) (init_page_struct_addr l) vma = boot_entry l (unat vma div 4096)) \<and>
    (\<forall>i<1024. cell (phys s) (unat (init_page_struct_addr l) + 4096 + 4 * i) =
       (if i = 0 then BSS_END_VMA l + 0x3000 else if i = 896 then BSS_END_VMA l + 0x4000
        else if i = 1023 then BSS_END_VMA l + 0x5000 else 0)) \<and>
    (\<forall>i<1024. cell (phys s) (unat (init_page_struct_addr l) + 4 * i) =
       (if i = 0 then word_of_nat (first_table l) OR 7 else if i = 896 then word_of_nat (first_table l + 0x1000) OR 7
        else if i = 1023 then word_of_nat (first_table l + 0x2000) OR 7 else 0)) \<and>
    (\<forall>k<3. \<forall>j<1024. cell (phys s) (first_table l + 4096 * k + 4 * j) = boot_entry l ([0, 896, 1023] ! k * 1024 + j)) \<and>
    init_page_next_vma s = BSS_END_VMA l + 0x6000 \<and> init_page_next_pma s = word_of_nat (first_table l + 0x3000) \<and>
    init_vga_buffer_vma s = BSS_END_VMA l + 0x2000"
proof -
  let ?P = "unat (init_page_struct_addr l)" and ?B = "first_table l"
  from ok obtain i e q r n where u: "?P = 4096 * q" and le: "q + 3 \<le> e" "e + n + 3 < 1024" and B: "?B = 4096 * (e + n)"
    by (rule image_okE)
  obtain s0 s where s: "init_map_kernel l (init_start m) = Inr s" "boot_map ?P ?B [0, 896, 1023] (boot_entry l) s0"
    "phys s = phys (fix_lookup l s0)" "init_page_next_vma s0 = BSS_END_VMA l + 0x3000"
    "init_page_next_vma s = BSS_END_VMA l + 0x6000" "init_page_next_pma s = word_of_nat (?B + 0x3000)"
    "init_vga_buffer_vma s = BSS_END_VMA l + 0x2000"
    using init_map_kernel_ok [OF ok zero] by blast
  note d = boot_mapD [OF s(2)]
  have P: "init_page_struct_addr l = word_of_nat ?P" by simp
  have P32: "?P + 8192 \<le> 2 ^ 32" using u le by simp
  note fix1 = fix_lookup_cells(1) [OF P P32 s(4)]
  have same: "cell (phys s) a = cell (phys s0) a" if "a < ?P + 4096 \<and> ?P \<le> a \<or> ?B \<le> a \<and> a < 2 ^ 32" for a
  proof -
    have a: "a < 2 ^ 32" "\<not> (\<exists>i<1024. a = ?P + 4096 + 4 * i)" using that u le B by auto
    show ?thesis unfolding s(3) fix1 [OF a(1)] using a(2) by (simp only: if_False)
  qed
  have walk: "walk_entry (phys s) (init_page_struct_addr l) vma = boot_entry l (unat vma div 4096)" for vma
    using walk_entry_boot [OF s(2) _ _ same, of vma] B le by simp
  have tab: "cell (phys s) (?B + 4096 * k + 4 * j) = boot_entry l ([0, 896, 1023] ! k * 1024 + j)" if "k < 3" "j < 1024" for k j
    using same [of "?B + 4096 * k + 4 * j"] d(7) [of k j] that B le by simp
  have look: "cell (phys s) (?P + 4096 + 4 * i) = (if i = 0 then BSS_END_VMA l + 0x3000 else if i = 896 then BSS_END_VMA l + 0x4000
        else if i = 1023 then BSS_END_VMA l + 0x5000 else 0)" if "i < 1024" for i
  proof -
    have a: "?P + 4096 + 4 * i < 2 ^ 32" using that P32 by simp
    have "cell (phys s) (?P + 4096 + 4 * i) = (if cell (phys s0) (?P + 4096 + 4 * i) = 0 then 0
        else cell (phys s0) (?P + 4096 + 4 * i) + (BSS_END_VMA l + 0x3000 - 4096))"
      unfolding s(3) using fix1 [OF a] that by auto
    moreover have "cell (phys s0) (?P + 4096 + 4 * i) =
        (if i = 0 then 4096 else if i = 896 then 8192 else if i = 1023 then 12288 else 0)"
      using d(4) [of 0] d(4) [of 1] d(4) [of 2] d(6) [OF that] by simp
    moreover have "(4096 :: u32) \<noteq> 0" "(8192 :: u32) \<noteq> 0" "(12288 :: u32) \<noteq> 0" by simp_all
    ultimately show ?thesis by (cases "i = 0"; cases "i = 896"; cases "i = 1023") (simp_all only: if_True if_False, simp_all)
  qed
  have dir: "cell (phys s) (?P + 4 * i) = (if i = 0 then word_of_nat ?B OR 7 else if i = 896 then word_of_nat (?B + 0x1000) OR 7
      else if i = 1023 then word_of_nat (?B + 0x2000) OR 7 else 0)" if "i < 1024" for i
    using same [of "?P + 4 * i"] d(3) [of 0] d(3) [of 1] d(3) [of 2] d(5) [OF that] that
    by (cases "i = 0"; cases "i = 896"; cases "i = 1023") (simp_all del: of_nat_add)
  show ?thesis using s(1,5-7) walk tab look dir by (intro exI [of _ s]) simp
qed

end
