(* ===== verification/Boot_View.thy ===== *)
theory Boot_View
  imports Init_Map_Correct
begin

text \<open>
  The finished map as the kernel uses it: the lookup table and the page tables are read through the map
  itself, at the addresses \<open>init\<close> hands over, and the pager finds there the entries the processor uses.
\<close>

section \<open>Addresses in the kernel's image\<close>

lemma unat_div_page: "a = 4096 * p + o' \<Longrightarrow> o' < 4096 \<Longrightarrow> a div 4096 = p \<and> a mod 4096 = (o' :: nat)"
  by simp

definition booted :: "linker \<Rightarrow> init_state \<Rightarrow> bool" where
  "booted l s \<longleftrightarrow> image_ok l \<and>
     (\<forall>vma. walk_entry (phys s) (init_page_struct_addr l) vma = boot_entry l (unat vma div 4096)) \<and>
     (\<forall>i<1024. cell (phys s) (unat (init_page_struct_addr l) + 4096 + 4 * i) =
        (if i = 0 then BSS_END_VMA l + 0x3000 else if i = 896 then BSS_END_VMA l + 0x4000
         else if i = 1023 then BSS_END_VMA l + 0x5000 else 0)) \<and>
     (\<forall>i<1024. cell (phys s) (unat (init_page_struct_addr l) + 4 * i) =
        (if i = 0 then word_of_nat (first_table l) OR 7 else if i = 896 then word_of_nat (first_table l + 0x1000) OR 7
         else if i = 1023 then word_of_nat (first_table l + 0x2000) OR 7 else 0)) \<and>
     (\<forall>k<3. \<forall>j<1024. cell (phys s) (first_table l + 4096 * k + 4 * j) = boot_entry l ([0, 896, 1023] ! k * 1024 + j)) \<and>
     init_page_next_vma s = BSS_END_VMA l + 0x6000 \<and> init_page_next_pma s = word_of_nat (first_table l + 0x3000) \<and>
     init_vga_buffer_vma s = BSS_END_VMA l + 0x2000"

lemma init_map_kernel_booted:
  assumes "image_ok l" and "\<And>i. i < 2048 \<Longrightarrow> cell m (unat (init_page_struct_addr l) + 4 * i) = 0"
  shows "\<exists>s. init_map_kernel l (init_start m) = Inr s \<and> booted l s"
  using boot_map_walk [OF assms] assms(1) unfolding booted_def by blast

lemma bootedD:
  assumes "booted l s"
  shows "image_ok l"
    and "walk_entry (phys s) (init_page_struct_addr l) vma = boot_entry l (unat vma div 4096)"
    and "i < 1024 \<Longrightarrow> cell (phys s) (unat (init_page_struct_addr l) + 4096 + 4 * i) =
       (if i = 0 then BSS_END_VMA l + 0x3000 else if i = 896 then BSS_END_VMA l + 0x4000
        else if i = 1023 then BSS_END_VMA l + 0x5000 else 0)"
    and "k < 3 \<Longrightarrow> j < 1024 \<Longrightarrow>
       cell (phys s) (first_table l + 4096 * k + 4 * j) = boot_entry l ([0, 896, 1023] ! k * 1024 + j)"
    and "i < 1024 \<Longrightarrow> cell (phys s) (unat (init_page_struct_addr l) + 4 * i) =
       (if i = 0 then word_of_nat (first_table l) OR 7 else if i = 896 then word_of_nat (first_table l + 0x1000) OR 7
        else if i = 1023 then word_of_nat (first_table l + 0x2000) OR 7 else 0)"
    and "init_page_next_vma s = BSS_END_VMA l + 0x6000"
      "init_page_next_pma s = word_of_nat (first_table l + 0x3000)" "init_vga_buffer_vma s = BSS_END_VMA l + 0x2000"
  using assms unfolding booted_def by auto

text \<open>The cell that the kernel reads at an offset of a page after the image.\<close>

lemma view_cell:
  assumes bt: "booted l s" and "boot_entry l (0xE0000 + image_pages l + k) = word_of_nat t OR f" and "f AND NOT (mask 12) = 0"
    and "4096 dvd t" and "t + 4096 \<le> 2 ^ 32" and "k < 6" and "x < 4096"
  shows "phys s (walk (phys s) (init_page_struct_addr l) (BSS_END_VMA l + word_of_nat (4096 * k + x))) = cell (phys s) (t + x)"
proof -
  from bootedD(1) [OF bt] obtain e n where n: "unat (BSS_END_VMA l) = 0xE0000000 + 4096 * n" "e + n + 3 < 1024" "image_pages l = n"
    by (rule image_okE)
  let ?a = "0xE0000000 + 4096 * n + (4096 * k + x)"
  have b: "BSS_END_VMA l = word_of_nat (0xE0000000 + 4096 * n)" using n(1) by (rule unat_eq_word)
  have w: "BSS_END_VMA l + word_of_nat (4096 * k + x) = word_of_nat ?a" unfolding b by (simp only: of_nat_add)
  have u: "unat (word_of_nat ?a :: u32) = ?a" using n assms(6,7) by (intro unat_of_nat32) simp
  have pg: "?a div 4096 = 0xE0000 + n + k" "?a mod 4096 = x"
    using unat_div_page [of ?a "0xE0000 + n + k" x] assms(7) by simp_all
  have "walk_entry (phys s) (init_page_struct_addr l) (word_of_nat ?a) = word_of_nat t OR f"
    unfolding bootedD(2) [OF bt] u pg using assms(2) n(3) by simp
  then have "walk (phys s) (init_page_struct_addr l) (word_of_nat ?a) = word_of_nat (t + x)"
    using walk_eq [OF _ assms(3,4,5)] u pg(2) by metis
  then show ?thesis unfolding w cell_def by simp
qed

text \<open>The cells of the page directory and the lookup table, the first two pages after the image.\<close>

lemma view_struct:
  assumes bt: "booted l s" and "j < 2" and "i < 1024"
  shows "phys s (walk (phys s) (init_page_struct_addr l) (BSS_END_VMA l + word_of_nat (4096 * j + 4 * i))) =
    cell (phys s) (unat (init_page_struct_addr l) + 4096 * j + 4 * i)"
proof -
  from bootedD(1) [OF bt] obtain e q r n where n: "unat (init_page_struct_addr l) = 4096 * q" "q + 3 \<le> e" "r \<le> n" "e + n + 3 < 1024"
      "text_pages l = r" "image_pages l = n" "unat (INIT_BSS_END l) = 4096 * e"
    by (rule image_okE)
  have j: "j = 0 \<or> j = 1" using assms(2) by linarith
  have "init_page_struct_addr l + word_of_nat j * PAGE_SIZE = word_of_nat (4096 * q + 4096 * j)"
    using unat_eq_word [OF n(1)] by (simp add: PAGE_SIZE_def)
  moreover have "\<not> 0xE0000 + n + j < e" using n by simp
  ultimately have be: "boot_entry l (0xE0000 + image_pages l + j) = word_of_nat (4096 * q + 4096 * j) OR (PAGE_WRITE OR PAGE_PRESENT)"
    using j unfolding boot_entry_def Let_def n by (auto simp del: of_nat_add of_nat_mult) (use n in simp_all)
  have "4096 dvd 4096 * q + 4096 * j" "4096 * q + 4096 * j + 4096 \<le> 2 ^ 32" "j < 6" "4 * i < 4096" using n assms j by auto
  from view_cell [OF bt be low_flags(1) this] show ?thesis unfolding n(1) .
qed

lemma view_lookup:
  assumes bt: "booted l s" and "i < 1024"
  shows "page_table_lookup (kernel_view l s) (word_of_nat i) =
    (if i = 0 then BSS_END_VMA l + 0x3000 else if i = 896 then BSS_END_VMA l + 0x4000
     else if i = 1023 then BSS_END_VMA l + 0x5000 else 0)"
proof -
  have "BSS_END_VMA l + PAGE_SIZE + 4 * word_of_nat i = BSS_END_VMA l + word_of_nat (4096 * 1 + 4 * i)"
    by (simp add: PAGE_SIZE_def)
  then have "page_table_lookup (kernel_view l s) (word_of_nat i) =
      phys s (walk (phys s) (init_page_struct_addr l) (BSS_END_VMA l + word_of_nat (4096 * 1 + 4 * i)))"
    by (simp only: kernel_view_def kstate.simps)
  then show ?thesis using view_struct [OF bt, of 1 i] bootedD(3) [OF assms] assms(2) by simp
qed

lemma view_dir:
  assumes bt: "booted l s" and "i < 1024"
  shows "page_dir (kernel_view l s) (word_of_nat i) =
    (if i = 0 then word_of_nat (first_table l) OR 7 else if i = 896 then word_of_nat (first_table l + 0x1000) OR 7
     else if i = 1023 then word_of_nat (first_table l + 0x2000) OR 7 else 0)"
proof -
  have "BSS_END_VMA l + 4 * word_of_nat i = BSS_END_VMA l + word_of_nat (4096 * 0 + 4 * i)" by simp
  then have "page_dir (kernel_view l s) (word_of_nat i) =
      phys s (walk (phys s) (init_page_struct_addr l) (BSS_END_VMA l + word_of_nat (4096 * 0 + 4 * i)))"
    by (simp only: kernel_view_def kstate.simps)
  then show ?thesis using view_struct [OF bt, of 0 i] bootedD(5) [OF assms] assms(2) by simp
qed

text \<open>The pager reads the tables at the addresses in the lookup table.\<close>

lemma view_entry:
  assumes bt: "booted l s" and "unat vma div 4194304 \<in> {0, 896, 1023}"
  shows "page_get_entry (kernel_view l s) vma = boot_entry l (unat vma div 4096)"
proof -
  from bootedD(1) [OF bt] obtain e q r n where n: "unat (init_page_struct_addr l) = 4096 * q" "q + 3 \<le> e" "r \<le> n" "e + n + 3 < 1024"
      "text_pages l = r" "image_pages l = n" "unat (INIT_BSS_END l) = 4096 * e" "first_table l = 4096 * (e + n)"
    by (rule image_okE)
  let ?p = "unat vma div 4096" let ?i = "unat vma div 4194304" and ?j = "?p mod 1024"
  have pij: "?i * 1024 + ?j = ?p" by (simp add: div_mult2_eq [of _ 4096 1024, simplified])
  obtain k where k: "k < 3" "[0, 896, 1023] ! k = ?i"
  proof -
    have "([0, 896, 1023] :: nat list) ! 0 = 0" "([0, 896, 1023] :: nat list) ! 1 = 896" "([0, 896, 1023] :: nat list) ! 2 = 1023"
      by simp_all
    moreover have "0 < (3::nat)" "1 < (3::nat)" "2 < (3::nat)" by simp_all
    ultimately show thesis using that assms(2) by (metis insertE singletonD)
  qed
  have i: "?i < 1024" using assms(2) by auto
  have "unat (page_get_dir_idx vma) = ?i" by (simp add: page_get_dir_idx_def unat_drop_bit)
  then have wi: "page_get_dir_idx vma = word_of_nat ?i" by (rule unat_eq_word)
  have "unat (page_get_table_idx vma) = ?j"
    unfolding page_get_table_idx_def mask_fff unat_and_mask unat_drop_bit by simp
  then have wj: "page_get_table_idx vma = word_of_nat ?j" by (rule unat_eq_word)
  have "k = 0 \<or> k = 1 \<or> k = 2" using k(1) by linarith
  then have tab: "page_get_table (kernel_view l s) vma = BSS_END_VMA l + word_of_nat (4096 * (3 + k))"
    unfolding page_get_table_def Let_def wi view_lookup [OF bt i] using k(2) by auto
  have "\<not> 0xE0000 + n + (3 + k) < e" using n by simp
  moreover have "n + (3 + k) < n + 6" "n + (3 + k) - (n + 3) = k" using k(1) by simp_all
  ultimately have be: "boot_entry l (0xE0000 + image_pages l + (3 + k)) = word_of_nat (first_table l + 4096 * k) OR (PAGE_WRITE OR PAGE_PRESENT)"
    unfolding boot_entry_def Let_def n by (simp del: of_nat_add of_nat_mult) (use n in simp)
  have side: "4096 dvd first_table l + 4096 * k" "first_table l + 4096 * k + 4096 \<le> 2 ^ 32" "3 + k < 6" "4 * ?j < 4096"
    using n k(1) by simp_all
  from view_cell [OF bt be low_flags(1) side]
  have "mem (kernel_view l s) (BSS_END_VMA l + word_of_nat (4096 * (3 + k) + 4 * ?j)) = boot_entry l ?p"
    unfolding kernel_view_def using bootedD(4) [OF bt k(1), of ?j] k(2) pij by simp
  moreover have "entry_addr (kernel_view l s) vma = BSS_END_VMA l + word_of_nat (4096 * (3 + k) + 4 * ?j)"
    unfolding entry_addr_def tab wj by (simp add: add.assoc del: unsigned_of_nat)
  ultimately show ?thesis unfolding page_get_entry_def by simp
qed

end
