(* ===== verification/Boot_Properties.thy ===== *)
theory Boot_Properties
  imports Boot_View Messages Interrupts Vga_Correct
begin

text \<open>
  What is shown of the way from the boot loader to \<open>kernel_main\<close>: the first page map, the hand over, the
  console of the init section, and what the interrupt handlers print.
\<close>

section \<open>The first page map\<close>

text \<open>
  An image of ten pages for the init section at 1 MiB and of ten pages for the kernel, seven of them
  read-only.
\<close>

definition demo_contents :: contents where
  "demo_contents = \<lparr>init_bytes = 0x1a80, init_bss_bytes = 0x7014, stack_top_offset = 0x4000, page_struct_offset = 0x4000,
     text_bytes = 0x5c20, rodata_bytes = 0x960, data_bytes = 0x100, bss_bytes = 0x1800\<rparr>"

definition demo_image :: linker where
  "demo_image = link demo_contents"

lemma demo_image_ok: "image_ok demo_image"
  unfolding demo_image_def by (rule link_image_ok) (simp add: contents_ok_def demo_contents_def)

text \<open>C8. The first page map: from zeroed tables, \<open>init\<close> returns with paging on, and the entry the processor
  finds for every one of the 2^20 pages is the one the layout asks for: the init section at its own
  address, the text read-only, data writable, then the page directory, the lookup table, the screen and
  the page tables, the stack at the top, and nothing else.  The kernel is handed the first free frame and
  the first free page.\<close>

theorem boot_map_correct:
  assumes "image_ok l" and "\<And>i. i < 2048 \<Longrightarrow> cell m (unat (init_page_struct_addr l) + 4 * i) = 0"
  shows "\<exists>s h. init_map_kernel l (init_start m) = Inr s \<and> init l iv v c (init_start m) = Inr h \<and>
    (\<forall>vma. walk_entry (phys s) (cr3 (ho_cpu h)) vma = boot_entry l (unat vma div 4096)) \<and>
    bit (cr0 (ho_cpu h)) 31 \<and> bit (cr0 (ho_cpu h)) 0 \<and> ho_kern h = kernel_view l s \<and>
    kernel_heap_end_vma (ho_kern h) = BSS_END_VMA l + 0x6000 \<and>
    kernel_heap_end_pma (ho_kern h) = word_of_nat (first_table l + 0x3000)"
proof -
  obtain s where s: "init_map_kernel l (init_start m) = Inr s" "booted l s"
    using init_map_kernel_booted [OF assms] by blast
  note b = bootedD [OF s(2)]
  have "cr3 (set_sp (- 8) (page_enable (page_load_dir (init_page_struct_addr l) c))) = init_page_struct_addr l"
    "cr0 (set_sp (- 8) (page_enable (page_load_dir (init_page_struct_addr l) c))) = cr0 c OR 0x80000001"
    by (simp_all add: set_sp_def page_enable_def page_load_dir_def set_cr3_def)
  moreover have "bit (0x80000001 :: u32) 31" "bit (0x80000001 :: u32) 0" by code_simp+
  ultimately show ?thesis
    unfolding init_def s(1) rbind_simps Let_def using s(1) b(2,6,7)
    by (simp add: bit_or_iff kernel_view_def del: of_nat_add)
qed

theorem boot_map_correct_witness:
  "\<exists>s h. init_map_kernel demo_image (init_start (\<lambda>_. 0)) = Inr s \<and>
    init demo_image (init_vga_start []) (vga_start []) cpu_reset (init_start (\<lambda>_. 0)) = Inr h \<and>
    (\<forall>vma. walk_entry (phys s) (cr3 (ho_cpu h)) vma = boot_entry demo_image (unat vma div 4096)) \<and>
    bit (cr0 (ho_cpu h)) 31 \<and> bit (cr0 (ho_cpu h)) 0 \<and> ho_kern h = kernel_view demo_image s \<and>
    kernel_heap_end_vma (ho_kern h) = BSS_END_VMA demo_image + 0x6000 \<and>
    kernel_heap_end_pma (ho_kern h) = word_of_nat (first_table demo_image + 0x3000)"
  by (rule boot_map_correct [OF demo_image_ok]) (simp add: cell_def)

text \<open>C9. The pager works on the processor's tables: read through the new map at the addresses handed over,
  every page of the three tables has the entry that the processor finds.\<close>

theorem pager_sees_boot_map:
  assumes "image_ok l" and "\<And>i. i < 2048 \<Longrightarrow> cell m (unat (init_page_struct_addr l) + 4 * i) = 0"
    and "init_map_kernel l (init_start m) = Inr s" and "unat vma div 4194304 \<in> {0, 896, 1023}"
  shows "page_get_entry (kernel_view l s) vma = walk_entry (phys s) (init_page_struct_addr l) vma"
proof -
  have "booted l s" using init_map_kernel_booted [OF assms(1,2)] assms(3) by auto
  then show ?thesis using view_entry [OF _ assms(4)] bootedD(2) by simp
qed

theorem pager_sees_boot_map_witness:
  "\<exists>s. init_map_kernel demo_image (init_start (\<lambda>_. 0)) = Inr s \<and>
     page_get_entry (kernel_view demo_image s) 0xE0001234 =
       walk_entry (phys s) (init_page_struct_addr demo_image) 0xE0001234"
proof -
  have z: "cell (\<lambda>_. 0) (unat (init_page_struct_addr demo_image) + 4 * i) = 0" for i by (simp add: cell_def)
  obtain s where s: "init_map_kernel demo_image (init_start (\<lambda>_. 0)) = Inr s"
    using init_map_kernel_booted [OF demo_image_ok z] by blast
  have "page_get_entry (kernel_view demo_image s) 0xE0001234 =
      walk_entry (phys s) (init_page_struct_addr demo_image) 0xE0001234"
    by (rule pager_sees_boot_map [OF demo_image_ok z s]) simp
  then show ?thesis using s by blast
qed

section \<open>Messages on both consoles\<close>

text \<open>C13. \<open>init_printk\<close> on the console of the init section: a format with a meaning is printed in full, with
  every store inside the text buffer and the cursor back on the screen.\<close>

theorem init_printk_safe:
  assumes "iv_ok v" and "plain_text ps" and "denote m ps args = Some out"
  shows "\<exists>v'. printk_with init_vga_putc m (render ps) args v = Inr (int (length out) + overcount ps, v') \<and>
    init_vga_write out v = Some v' \<and> iv_ok v'"
proof -
  have "print_fmt m (render ps) args = Inr (int (length out) + overcount ps, out)"
    unfolding print_fmt_def using assms(2,3) by (intro print_loop_denote) simp_all
  from init_console.printk_safe [OF assms(1) this] show ?thesis unfolding init_vga_write_puts .
qed

theorem init_printk_safe_witness:
  "\<exists>v'. printk_with init_vga_putc (\<lambda>_. NUL) (render [Text (CHR ''x''), Percent]) [] (init_vga_start (replicate 2000 0)) =
      Inr (int (length ''x%'') + overcount [Text (CHR ''x''), Percent], v') \<and>
    init_vga_write ''x%'' (init_vga_start (replicate 2000 0)) = Some v' \<and> iv_ok v'"
  by (rule init_printk_safe) (simp_all add: iv_ok_def init_vga_start_def plain_text_def NUL_def)

text \<open>C14. Interrupt reports: the message of every handler has as many arguments as its format asks for, so
  it is printed in full on the screen, whatever the processor pushed.\<close>

lemma handler_agrees: "handler_message h f fp e a sp = Some msg \<Longrightarrow> agrees msg"
  by (cases h) (auto simp: agrees_def slots_def NUL_def split: if_splits)

theorem interrupt_reports_shown:
  assumes "vga_inv v" and "handler_message h f fp e a sp = Some msg"
  shows "\<exists>str n v'. message_text m msg = Some str \<and> printk_with vga_putc m (fst msg) (snd msg) v = Inr (n, v') \<and>
    vga_write str v = Some v' \<and> vga_inv v'"
proof -
  obtain str where s: "message_text m msg = Some str" using agrees_text [OF handler_agrees [OF assms(2)]] by blast
  from vga_console.message_shown [OF assms(1) s] show ?thesis using s unfolding vga_write_puts by blast
qed

theorem interrupt_reports_shown_witness:
  "\<exists>str n v'. message_text (\<lambda>_. NUL) (''UNKNOWN INTERRUPT! %p'', [0xE0003000]) = Some str \<and>
    printk_with vga_putc (\<lambda>_. NUL) (fst (''UNKNOWN INTERRUPT! %p'', [0xE0003000 :: u32])) (snd (''UNKNOWN INTERRUPT! %p'', [0xE0003000]))
      (vga_start (replicate 2000 0)) = Inr (n, v') \<and>
    vga_write str (vga_start (replicate 2000 0)) = Some v' \<and> vga_inv v'"
  by (rule interrupt_reports_shown [where h = int_handle_unknown and f = "\<lparr>f_ip = 0, f_cs = 0, f_flags = 0\<rparr>"
        and fp = "0xE0003000" and e = 0 and a = 0 and sp = 0])
    (simp_all add: vga_start_inv)

end
