(* ===== verification/Kernel_Memory.thy ===== *)
theory Kernel_Memory
  imports Heap_Aligned
begin

text \<open>
  The kernel's memory as a whole: the heap, the free page list and the page tables.  A page table is
  outside the heap, or it is a block that the heap handed out for it; so growing the heap, which writes
  page table entries, leaves every other block alone.
\<close>

section \<open>Where page tables may be\<close>

definition table_blocks :: "nat set \<Rightarrow> (nat \<times> nat) set" where
  "table_blocks tb = (\<lambda>t. (t, 4096)) ` tb"

text \<open>\<open>L\<close> bounds the addresses the heap may come to use, from \<open>d\<close> up.\<close>

definition tables_in :: "kstate \<Rightarrow> nat \<Rightarrow> nat \<Rightarrow> nat set \<Rightarrow> bool" where
  "tables_in s d L tb \<longleftrightarrow>
     (\<forall>v. entry_cell s v + 4 \<le> d \<or> L \<le> entry_cell s v \<or>
        (\<exists>t\<in>tb. t \<le> entry_cell s v \<and> entry_cell s v + 4 \<le> t + 4096))"

definition mem_ok :: "kstate \<Rightarrow> nat \<Rightarrow> nat \<Rightarrow> nat set \<Rightarrow> chunk list \<Rightarrow> nat list \<Rightarrow> bool" where
  "mem_ok s d L tb cs ps \<longleftrightarrow> (\<exists>ns. heap_ok s d cs ns) \<and> pool_ok s d cs ps \<and> tables_in s d L tb \<and>
     table_blocks tb \<subseteq> clients d cs ps \<and> L + 4096 \<le> 2 ^ 32"

lemma mem_okD:
  assumes "mem_ok s d L tb cs ps"
  shows "\<exists>ns. heap_ok s d cs ns" "pool_ok s d cs ps" "tables_in s d L tb" "table_blocks tb \<subseteq> clients d cs ps" "L + 4096 \<le> 2 ^ 32"
  using assms by (simp_all add: mem_ok_def)

lemma tables_in_cong: "page_table_lookup t = page_table_lookup s \<Longrightarrow> tables_in t d L tb = tables_in s d L tb"
  unfolding tables_in_def entry_cell_cong [of t s] by (rule refl)

lemma entry_cases:
  assumes "tables_in s d L tb" and "table_blocks tb \<subseteq> clients d cs ps"
  obtains "entry_cell s v + 4 \<le> d" | "L \<le> entry_cell s v"
  | t where "t \<in> tb" "(t, 4096) \<in> clients d cs ps" "t \<le> entry_cell s v" "entry_cell s v + 4 \<le> t + 4096"
  using assms unfolding tables_in_def table_blocks_def by blast

text \<open>No entry lies in the heap's structure or in the free page list, nor in a block that is not a table.\<close>

lemma entry_apart:
  assumes "seg m d cs" and "pool_ok s0 d cs ps" and "tables_in s d L tb" and "table_blocks tb \<subseteq> clients d cs ps"
    and "d + total cs + 8 \<le> L"
  shows "entry_cell s v \<notin> struct_cells d cs \<union> pool_cells ps" and "entry_cell s v + 4 \<le> d + total cs \<or> L \<le> entry_cell s v"
    and "(n, sz) \<in> clients d cs ps - table_blocks tb \<Longrightarrow> n \<le> entry_cell s v \<Longrightarrow> entry_cell s v + 4 \<le> n + sz \<Longrightarrow> False"
proof -
  let ?c = "entry_cell s v"
  have area: "struct_cells d cs \<union> pool_cells ps \<subseteq> {d..<d + total cs + 8}"
    using struct_area [OF assms(1)] pool_area [OF assms(2)] by (simp add: heap_area_def)
  have client: "d + 8 \<le> k \<and> k + c \<le> d + total cs" if "(k, c) \<in> clients d cs ps" for k c
    using that blocks_range [of k c d cs] by (simp add: clients_def)
  show "?c \<notin> struct_cells d cs \<union> pool_cells ps"
  proof (rule entry_cases [OF assms(3,4), of v])
    fix t assume t: "(t, 4096) \<in> clients d cs ps" "t \<le> ?c" "?c + 4 \<le> t + 4096"
    have "(t, 4096) \<in> set (blocks d cs)" using t(1) by (simp add: clients_def)
    then have "?c \<notin> struct_cells d cs" by (rule block_not_struct [OF assms(1) _ t(2,3)])
    then show ?thesis using client_not_pool [OF assms(2) t] by simp
  qed (use area assms(5) in fastforce)+
  show "?c + 4 \<le> d + total cs \<or> L \<le> ?c"
    by (rule entry_cases [OF assms(3,4), of v]) (use client in fastforce)+
  show False if b: "(n, sz) \<in> clients d cs ps - table_blocks tb" "n \<le> ?c" "?c + 4 \<le> n + sz"
  proof (rule entry_cases [OF assms(3,4), of v])
    fix t assume t: "t \<in> tb" "(t, 4096) \<in> clients d cs ps" "t \<le> ?c" "?c + 4 \<le> t + 4096"
    have "(t, 4096) \<noteq> (n, sz)" using b(1) t(1) by (auto simp: table_blocks_def)
    then show False using blocks_disjoint [of t 4096 d cs n sz] b t(2-4) by (simp add: clients_def)
  qed (use client [of n sz] b assms(5) in auto)
qed

lemma tables_apartI:
  assumes "seg m d cs" and "pool_ok s0 d cs ps" and "tables_in s d L tb" and "table_blocks tb \<subseteq> clients d cs ps"
    and "d + total cs + 16 + b \<le> L"
  shows "tables_apart s d cs ps b"
proof -
  have "d + total cs + 8 \<le> L" using assms(5) by simp
  note e = entry_apart [OF assms(1-4) this]
  have "entry_cell s v \<notin> {d + total cs + 8 + b, d + total cs + 12 + b}" for v using e(2) [of v] assms(5) by auto
  then show ?thesis using e(1) unfolding tables_apart_def by blast
qed

text \<open>Writing table cells only keeps the blocks that are not tables.\<close>

lemma quiet_blocks:
  assumes "mem_ok s d L tb cs ps" and "d + total cs + 8 \<le> L" and "T \<subseteq> range (entry_cell s)"
    and "keeps T (clients d cs ps) (mem s) (mem s')"
  shows "keeps {} (clients d cs ps - table_blocks tb) (mem s) (mem s')"
proof (rule keepsI)
  note m = mem_okD [OF assms(1)]
  from m(1) obtain ns where "heap_ok s d cs ns" by blast
  then have seg: "seg (mem s) d cs" by (rule heap_atD(4) [OF heap_okD(1)])
  fix n sz a assume a: "(n, sz) \<in> clients d cs ps - table_blocks tb" "n \<le> a" "a + 4 \<le> n + sz"
  then have "a \<notin> T" using entry_apart(3) [OF seg m(2-4) assms(2) a(1)] assms(3) by blast
  then show "cell (mem s') a = cell (mem s) a" using keepsD [OF assms(4), of n sz a] a by simp
qed

text \<open>The page table entries outside \<open>T\<close> are kept.\<close>

definition entries_but :: "nat set \<Rightarrow> kstate \<Rightarrow> kstate \<Rightarrow> bool" where
  "entries_but T s s' \<longleftrightarrow> (\<forall>v. entry_cell s v \<notin> T \<longrightarrow> cell (mem s') (entry_cell s v) = cell (mem s) (entry_cell s v))"

lemma entries_butD: "entries_but T s s' \<Longrightarrow> entry_cell s v \<notin> T \<Longrightarrow> cell (mem s') (entry_cell s v) = cell (mem s) (entry_cell s v)"
  by (simp add: entries_but_def)

lemma quiet_entries:
  assumes "mem_ok s d L tb cs ps" and "alloc_frame T d s cs s' cs'" and "clients d cs ps \<subseteq> set (blocks d cs')"
    and "d + total cs' + 8 \<le> L"
  shows "entries_but T s s'"
  unfolding entries_but_def
proof (intro allI impI)
  fix v assume T: "entry_cell s v \<notin> T"
  note m = mem_okD [OF assms(1)] and fr = alloc_frameD [OF assms(2)]
  show "cell (mem s') (entry_cell s v) = cell (mem s) (entry_cell s v)"
  proof (rule entry_cases [OF m(3,4), of v])
    fix t assume t: "(t, 4096) \<in> clients d cs ps" "t \<le> entry_cell s v" "entry_cell s v + 4 \<le> t + 4096"
    have "(t, 4096) \<in> set (blocks d cs) \<inter> set (blocks d cs')" using t(1) assms(3) by (auto simp: clients_def)
    then show ?thesis by (rule keepsD [OF fr(3) _ t(2,3) T])
  qed (rule changesD [OF fr(2)], simp, use T assms(4) in \<open>auto simp: heap_area_def\<close>)+
qed

section \<open>A block is granted\<close>

text \<open>What a caller gets with a new block: it is apart from the live ones, which keep their contents.\<close>

definition mem_grant ::
  "kstate \<Rightarrow> nat \<Rightarrow> nat set \<Rightarrow> chunk list \<Rightarrow> nat list \<Rightarrow> nat \<Rightarrow> nat \<Rightarrow> kstate \<Rightarrow> chunk list \<Rightarrow> nat list \<Rightarrow> bool"
where
  "mem_grant s d tb cs ps n b s' cs' ps' \<longleftrightarrow> clients d cs' ps' = insert (n, b) (clients d cs ps) \<and>
     (\<forall>(k, c)\<in>clients d cs ps. n + b + 8 \<le> k \<or> k + c + 8 \<le> n) \<and> d + 8 \<le> n \<and> n + b \<le> d + total cs' \<and> 8 dvd n \<and>
     keeps {} (clients d cs ps - table_blocks tb) (mem s) (mem s') \<and> page_env s s' \<and>
     total cs \<le> total cs' \<and> set ps' \<subseteq> set ps"

lemma mem_grantD:
  assumes "mem_grant s d tb cs ps n b s' cs' ps'"
  shows "clients d cs' ps' = insert (n, b) (clients d cs ps)"
    "(k, c) \<in> clients d cs ps \<Longrightarrow> n + b + 8 \<le> k \<or> k + c + 8 \<le> n"
    "d + 8 \<le> n" "n + b \<le> d + total cs'" "8 dvd n"
    "keeps {} (clients d cs ps - table_blocks tb) (mem s) (mem s')" "page_env s s'" "total cs \<le> total cs'" "set ps' \<subseteq> set ps"
  using assms by (auto simp: mem_grant_def)

lemma table_cells_entries: "table_cells s d cs b \<subseteq> range (entry_cell s)"
  by (auto simp: table_cells_def)

lemma mem_okI:
  assumes "mem_ok s d L tb cs ps" and "heap_ok s' d cs' ns'" and "pool_ok s' d cs' ps'" and "page_env s s'"
    and "clients d cs ps \<subseteq> clients d cs' ps'"
  shows "mem_ok s' d L tb cs' ps'"
  using assms mem_okD [OF assms(1)] tables_in_cong [OF page_env_lookup [OF assms(4)]] unfolding mem_ok_def by blast

lemma kmalloc_mem:
  assumes mem: "mem_ok s d L tb cs ps" and req: "unat bytes + 8 \<le> 2 ^ 32"
    and lim: "d + total cs + rounded (unat bytes) + 16 \<le> L"
  shows "\<exists>n s' cs' ps'. kmalloc (Suc depth) bytes s = Inr (word_of_nat n, s') \<and> mem_ok s' d L tb cs' ps' \<and>
    mem_grant s d tb cs ps n (rounded (unat bytes)) s' cs' ps' \<and>
    grants d cs ps (rounded (unat bytes)) n cs' ps' \<and> total cs' \<le> total cs + 8 + rounded (unat bytes) \<and>
    entries_but (table_cells s d cs (rounded (unat bytes))) s s' \<and>
    (if n = d + total cs + 8 then gets_pages [] s ps [] s' ps' n (rounded (unat bytes)) else takes 0 [] s ps [] s' ps')"
proof -
  let ?b = "rounded (unat bytes)"
  note m = mem_okD [OF mem]
  from m(1) obtain ns where k: "heap_ok s d cs ns" by blast
  note seg = heap_atD(4) [OF heap_okD(1) [OF k]]
  have "tables_apart s d cs ps ?b" by (rule tables_apartI [OF seg m(2-4)]) (use lim in simp)
  then have room: "room s d cs ps bytes" using req lim m(5) by (simp add: room_def)
  obtain n s' cs' ns' ps' where g: "kmalloc (Suc depth) bytes s = Inr (word_of_nat n, s')" "grants d cs ps ?b n cs' ps'"
      "heap_ok s' d cs' ns'" "pool_ok s' d cs' ps'" "alloc_frame (table_cells s d cs ?b) d s cs s' cs'"
      "if n = d + total cs + 8 then gets_pages [] s ps [] s' ps' n ?b else takes 0 [] s ps [] s' ps'"
    using kmalloc_grants [OF k m(2) room] by blast
  have pb: "pool_blocks (set ps) \<subseteq> set (blocks d cs)" using m(2) by (simp add: pool_ok_def)
  have kp: "keeps (table_cells s d cs ?b) (clients d cs ps) (mem s) (mem s')"
    by (rule keeps_mono [OF alloc_frameD(3) [OF g(5)] subset_refl clients_stay [OF g(2) pb]])
  have "keeps {} (clients d cs ps - table_blocks tb) (mem s) (mem s')"
    by (rule quiet_blocks [OF mem _ table_cells_entries kp]) (use lim in simp)
  moreover have "(n, ?b) \<in> set (blocks d cs')" using grants_blocks(1) [OF g(2)] by simp
  then have "d + 8 \<le> n \<and> n + ?b \<le> d + total cs'" by (rule blocks_range)
  moreover have "\<forall>(k, c)\<in>clients d cs ps. n + ?b + 8 \<le> k \<or> k + c + 8 \<le> n"
    using grants_new_block [OF g(2)] clients_stay [OF g(2) pb] by blast
  ultimately have "mem_grant s d tb cs ps n ?b s' cs' ps'"
    using grants_clients [OF g(2) pb] grants_dvd [OF g(2) heap_okD(1) [OF k]] grants_total [OF g(2)]
      grants_blocks(3) [OF g(2)] alloc_frameD(1) [OF g(5)] by (simp add: mem_grant_def)
  moreover have "mem_ok s' d L tb cs' ps'"
    by (rule mem_okI [OF mem g(3,4) alloc_frameD(1) [OF g(5)]]) (use grants_clients [OF g(2) pb] in auto)
  moreover have "entries_but (table_cells s d cs ?b) s s'"
  proof (rule quiet_entries [OF mem g(5)])
    show "clients d cs ps \<subseteq> set (blocks d cs')" using clients_stay [OF g(2) pb] by blast
    show "d + total cs' + 8 \<le> L" using grants_total [OF g(2)] lim by simp
  qed
  ultimately show ?thesis using g(1,2,6) grants_total [OF g(2)] by blast
qed

section \<open>Writing\<close>

lemma mem_apart_write:
  assumes mem: "mem_ok s d L tb cs ps" and "a < 2 ^ 32" and "a \<notin> struct_cells d cs \<union> pool_cells ps"
  shows "mem_ok (wr (word_of_nat a) x s) d L tb cs ps"
    and "c \<in> pool_cells ps \<Longrightarrow> cell (mem (wr (word_of_nat a) x s)) c = cell (mem s) c"
proof -
  note m = mem_okD [OF mem]
  from m(1) obtain ns where k: "heap_ok s d cs ns" by blast
  have a: "a \<notin> struct_cells d cs" "a \<notin> pool_cells ps" using assms(3) by simp_all
  note w = apart_write_pool [OF k m(2) assms(2) a(2)]
  show "mem_ok (wr (word_of_nat a) x s) d L tb cs ps"
    by (rule mem_okI [OF mem apart_write_ok [OF k assms(2) a(1)] w(1)]) (simp_all add: page_env_def)
  show "c \<in> pool_cells ps \<Longrightarrow> cell (mem (wr (word_of_nat a) x s)) c = cell (mem s) c" by (rule w(2))
qed

lemma mem_seg:
  assumes "mem_ok s d L tb cs ps"
  shows "seg (mem s) d cs" and "d + total cs + 8 \<le> 2 ^ 32"
proof -
  from mem_okD(1) [OF assms] obtain ns where k: "heap_ok s d cs ns" by blast
  show "seg (mem s) d cs" "d + total cs + 8 \<le> 2 ^ 32" using heap_atD(3,4) [OF heap_okD(1) [OF k]] by simp_all
qed

lemma mem_client_write:
  assumes mem: "mem_ok s d L tb cs ps" and b: "(n, sz) \<in> clients d cs ps" "n \<le> a" "a + 4 \<le> n + sz"
  shows "mem_ok (wr (word_of_nat a) x s) d L tb cs ps" and "a < 2 ^ 32"
    and "c \<in> pool_cells ps \<Longrightarrow> cell (mem (wr (word_of_nat a) x s)) c = cell (mem s) c"
proof -
  have bl: "(n, sz) \<in> set (blocks d cs)" using b(1) by (simp add: clients_def)
  show a: "a < 2 ^ 32" using blocks_range [OF bl] b(3) mem_seg(2) [OF mem] by simp
  have "a \<notin> struct_cells d cs \<union> pool_cells ps"
    using block_not_struct [OF mem_seg(1) [OF mem] bl b(2,3)] client_not_pool [OF mem_okD(2) [OF mem] b] by simp
  note w = mem_apart_write [OF mem a this]
  show "mem_ok (wr (word_of_nat a) x s) d L tb cs ps" by (rule w(1))
  show "c \<in> pool_cells ps \<Longrightarrow> cell (mem (wr (word_of_nat a) x s)) c = cell (mem s) c" by (rule w(2))
qed

lemma mem_entry_write:
  assumes mem: "mem_ok s d L tb cs ps" and lim: "d + total cs + 8 \<le> L"
  shows "mem_ok (wr (word_of_nat (entry_cell s v)) x s) d L tb cs ps"
    and "c \<in> pool_cells ps \<Longrightarrow> cell (mem (wr (word_of_nat (entry_cell s v)) x s)) c = cell (mem s) c"
proof -
  note m = mem_okD [OF mem]
  note w = mem_apart_write [OF mem entry_cell_less(1) entry_apart(1) [OF mem_seg(1) [OF mem] m(2-4) lim]]
  show "mem_ok (wr (word_of_nat (entry_cell s v)) x s) d L tb cs ps" by (rule w(1))
  show "c \<in> pool_cells ps \<Longrightarrow> cell (mem (wr (word_of_nat (entry_cell s v)) x s)) c = cell (mem s) c" by (rule w(2))
qed

lemma entry_word: "word_of_nat (entry_cell s v) = entry_addr s (word_of_nat v)"
  by (simp add: entry_cell_def)


text \<open>Clearing a page below the heap.\<close>

definition kept_but :: "nat set \<Rightarrow> kstate \<Rightarrow> kstate \<Rightarrow> bool" where
  "kept_but X s s' \<longleftrightarrow> (\<forall>a<2 ^ 32. a \<notin> X \<longrightarrow> cell (mem s') a = cell (mem s) a)"

lemma kept_butD: "kept_but X s s' \<Longrightarrow> a < 2 ^ 32 \<Longrightarrow> a \<notin> X \<Longrightarrow> cell (mem s') a = cell (mem s) a"
  by (simp add: kept_but_def)

lemma mem_low_write:
  assumes mem: "mem_ok s d L tb cs ps" and a: "a < d" "a \<in> X"
  shows "mem_ok (wr (word_of_nat a) x s) d L tb cs ps" and "kept_but X s (wr (word_of_nat a) x s)"
    and "takes 0 [] s ps [] (wr (word_of_nat a) x s) ps"
proof -
  note m = mem_okD [OF mem]
  have a32: "a < 2 ^ 32" using a(1) mem_seg(2) [OF mem] by simp
  have "a \<notin> struct_cells d cs \<union> pool_cells ps"
    using struct_area [OF mem_seg(1) [OF mem]] pool_area [OF m(2)] a(1) by (auto simp: heap_area_def)
  note w = mem_apart_write [OF mem a32 this, where x = x]
  show "mem_ok (wr (word_of_nat a) x s) d L tb cs ps" by (rule w(1))
  show "kept_but X s (wr (word_of_nat a) x s)"
    unfolding kept_but_def wr_fields using a(2) by (auto intro: cell_upd_other [OF a32])
  show "takes 0 [] s ps [] (wr (word_of_nat a) x s) ps"
    by (rule takes_0) (use w(2) in \<open>auto simp: pool_cells_def\<close>)
qed

lemma page_clear_mem:
  assumes mem: "mem_ok s d L tb cs ps" and v: "v + 4096 \<le> d"
  shows "mem_ok (page_clear (word_of_nat v) s) d L tb cs ps \<and> kept_but {v..<v + 4096} s (page_clear (word_of_nat v) s) \<and>
    takes 0 [] s ps [] (page_clear (word_of_nat v) s) ps \<and> page_env s (page_clear (word_of_nat v) s) \<and>
    page_dir (page_clear (word_of_nat v) s) = page_dir s"
proof -
  let ?f = "\<lambda>i s. wr (word_of_nat v + word_of_nat (8 * i) + 4) 0 (wr (word_of_nat v + word_of_nat (8 * i)) 0 s)"
  let ?X = "{v..<v + 4096}"
  let ?Q = "\<lambda>t. mem_ok t d L tb cs ps \<and> kept_but ?X s t \<and> takes 0 [] s ps [] t ps \<and> page_env s t \<and> page_dir t = page_dir s"
  have step: "?Q (wr (word_of_nat a) 0 t)" if t: "?Q t" and a: "a < d" "a \<in> ?X" for a t
  proof -
    note w = mem_low_write [OF _ a, of t L tb cs ps 0]
    have tk: "takes 0 [] t ps [] (wr (word_of_nat a) 0 t) ps" using w(3) t by blast
    have "takes 0 [] s ps [] (wr (word_of_nat a) 0 t) ps" using takes_trans [OF _ tk, of 0 "[]" s ps] t by simp
    moreover have "kept_but ?X s (wr (word_of_nat a) 0 t)"
      using t w(2) unfolding kept_but_def by metis
    ultimately show ?thesis using t w(1) by (simp add: page_env_def)
  qed
  have "?Q (fold ?f xs t)" if "?Q t" "set xs \<subseteq> {..<512}" for xs t
    using that
  proof (induction xs arbitrary: t)
    case (Cons i xs)
    have i: "i < 512" using Cons.prems(2) by simp
    have "?Q (wr (word_of_nat (v + 8 * i)) 0 t)" by (rule step [OF Cons.prems(1)]) (use i v in auto)
    then have "?Q (wr (word_of_nat (v + 8 * i + 4)) 0 (wr (word_of_nat (v + 8 * i)) 0 t))" by (rule step) (use i v in auto)
    then have "?Q (?f i t)" by simp
    then show ?case using Cons.IH [of "?f i t"] Cons.prems(2) by simp
  qed simp
  from this [of s "[0..<512]"] show ?thesis
    unfolding page_clear_def using mem takes_0 [of s s ps] by (simp add: kept_but_def atLeast0LessThan)
qed

text \<open>A block that becomes a page table.\<close>

lemma mem_new_table:
  assumes mem: "mem_ok s d L tb cs ps" and t: "(t, 4096) \<in> clients d cs ps" "4096 dvd t"
    and s': "page_table_lookup s' = (page_table_lookup s)(i := word_of_nat t)" "mem s' = mem s" "kernel_ctxt s' = kernel_ctxt s"
      "page_free_list s' = page_free_list s"
  shows "mem_ok s' d L (insert t tb) cs ps"
proof -
  note m = mem_okD [OF mem]
  have t32: "t + 4096 \<le> 2 ^ 32" using t(1) mem_seg(2) [OF mem] blocks_range [of t 4096 d cs] by (simp add: clients_def)
  have "entry_cell s' v = t + 4 * unat (page_get_table_idx (word_of_nat v))" if "page_get_dir_idx (word_of_nat v) = i" for v
  proof -
    have "entry_addr s' (word_of_nat v) = word_of_nat (t + 4 * unat (page_get_table_idx (word_of_nat v)))"
      unfolding entry_addr_def page_get_table_def Let_def s'(1) that by simp
    then show ?thesis using t32 table_idx_less [of "word_of_nat v"] unfolding entry_cell_def by (simp only: unat_of_nat32)
  qed
  then have new: "t \<le> entry_cell s' v \<and> entry_cell s' v + 4 \<le> t + 4096" if "page_get_dir_idx (word_of_nat v) = i" for v
    using that table_idx_less [of "word_of_nat v"] by simp
  have old: "entry_cell s' v = entry_cell s v" if "page_get_dir_idx (word_of_nat v) \<noteq> i" for v
    using that by (simp add: entry_cell_def entry_addr_def page_get_table_def Let_def s'(1))
  have "tables_in s' d L (insert t tb)"
    unfolding tables_in_def
  proof
    fix v
    show "entry_cell s' v + 4 \<le> d \<or> L \<le> entry_cell s' v \<or>
        (\<exists>t'\<in>insert t tb. t' \<le> entry_cell s' v \<and> entry_cell s' v + 4 \<le> t' + 4096)"
      using new [of v] old [of v] m(3) by (cases "page_get_dir_idx (word_of_nat v) = i") (auto simp: tables_in_def)
  qed
  moreover have "heap_ok s' d cs ns = heap_ok s d cs ns" for ns
    unfolding heap_ok_def heap_at_def s' ..
  moreover have "pool_ok s' d cs ps" using m(2) unfolding pool_ok_def s' .
  moreover have "table_blocks (insert t tb) \<subseteq> clients d cs ps" using m(4) t(1) by (simp add: table_blocks_def)
  ultimately show ?thesis using m(1,5) unfolding mem_ok_def by metis
qed

section \<open>Giving a page back\<close>

lemma rounded_8: "rounded (unat (8 :: u32)) = 8"
  by (simp add: rounded_def)

text \<open>The new node, a block of 8 bytes, takes the page's frame and goes to the front of the list.\<close>

definition push_page :: "nat \<Rightarrow> nat \<Rightarrow> kstate \<Rightarrow> kstate" where
  "push_page n c s =
     (wr (word_of_nat c) (cell (mem s) c AND NOT PAGE_PRESENT)
       (wr (word_of_nat (n + 4)) (page_free_list s) (wr (word_of_nat n) (cell (mem s) c AND NOT 0xfff) s)))
     \<lparr>page_free_list := word_of_nat n\<rparr>"

lemma push_page_mem:
  assumes mem: "mem_ok s d L tb cs ps" and n: "(n, 8) \<in> clients d cs ps" and lim: "d + total cs + 8 \<le> L"
  shows "mem_ok (push_page n (entry_cell s v) s) d L tb cs (n # ps)"
    and "entry_cell s v \<noteq> n" "entry_cell s v \<noteq> n + 4"
    and "a < 2 ^ 32 \<Longrightarrow> a \<noteq> n \<Longrightarrow> a \<noteq> n + 4 \<Longrightarrow> a \<noteq> entry_cell s v \<Longrightarrow>
      cell (mem (push_page n (entry_cell s v) s)) a = cell (mem s) a"
    and "frame_of [] (push_page n (entry_cell s v) s) (n # ps) 0 = cell (mem s) (entry_cell s v) AND NOT 0xfff"
    and "frame_of [] (push_page n (entry_cell s v) s) (n # ps) (Suc i) = frame_of [] s ps i"
    and "cell (mem (push_page n (entry_cell s v) s)) (entry_cell s v) = cell (mem s) (entry_cell s v) AND NOT PAGE_PRESENT"
proof -
  let ?c = "entry_cell s v" and ?s' = "push_page n (entry_cell s v) s"
  let ?s1 = "wr (word_of_nat n) (cell (mem s) ?c AND NOT 0xfff) s"
  let ?s2 = "wr (word_of_nat (n + 4)) (page_free_list s) ?s1"
  let ?s3 = "wr (word_of_nat ?c) (cell (mem s) ?c AND NOT PAGE_PRESENT) ?s2"
  note m = mem_okD [OF mem]
  have nt: "(n, 8) \<in> clients d cs ps - table_blocks tb" using n by (auto simp: table_blocks_def)
  note apart = entry_apart [OF mem_seg(1) [OF mem] m(2-4) lim]
  show cn: "?c \<noteq> n" "?c \<noteq> n + 4" using apart(3) [OF nt, of v] by auto
  have n32: "n < 2 ^ 32" "n + 4 < 2 ^ 32"
    using mem_client_write(2) [OF mem n, of n] mem_client_write(2) [OF mem n, of "n + 4"] by simp_all
  have in_n: "n \<le> n" "n + 4 \<le> n + 8" "n \<le> n + 4" "n + 4 + 4 \<le> n + 8" by simp_all
  note w1 = mem_client_write(1,3) [OF mem n in_n(1,2), where x = "cell (mem s) ?c AND NOT 0xfff"]
  note w2 = mem_client_write(1,3) [OF w1(1) n in_n(3,4), where x = "page_free_list s"]
  have ec: "entry_cell ?s2 v = ?c" by (rule entry_cell_cong) simp
  note w3 = mem_entry_write [OF w2(1) lim, where v = v and x = "cell (mem s) ?c AND NOT PAGE_PRESENT", unfolded ec]
  have pools: "cell (mem ?s3) c = cell (mem s) c" if "c \<in> pool_cells ps" for c
    using w1(2) w2(2) w3(2) that by simp
  have m3: "mem_ok ?s3 d L tb cs ps" using w3(1) by simp
  have fields: "mem ?s' = mem ?s3" "page_free_list ?s' = word_of_nat n" "page_table_lookup ?s' = page_table_lookup ?s3"
    "kernel_ctxt ?s' = kernel_ctxt ?s3" "kernel_heap_end_pma ?s' = kernel_heap_end_pma s"
    by (simp_all add: push_page_def)
  show keep: "cell (mem ?s') a = cell (mem s) a" if "a < 2 ^ 32" "a \<noteq> n" "a \<noteq> n + 4" "a \<noteq> ?c" for a
    unfolding fields using that n32 by (simp add: cell_upd del: of_nat_add)
  have c4: "cell (mem ?s') (n + 4) = page_free_list s" "cell (mem ?s') n = cell (mem s) ?c AND NOT 0xfff"
    unfolding fields using cn n32 by (simp_all add: cell_upd del: of_nat_add)
  show "cell (mem ?s') ?c = cell (mem s) ?c AND NOT PAGE_PRESENT" unfolding fields by (simp add: cell_upd del: of_nat_add)
  have "page_list (mem ?s3) (page_free_list s) ps" using pool_okD(1) [OF mem_okD(2) [OF m3]] by simp
  moreover have fresh: "n \<notin> set ps" using n by (auto simp: clients_def pool_blocks_iff)
  ultimately have "pool_ok ?s' d cs (n # ps)"
    using c4 m(2) n unfolding pool_ok_def by (auto simp: fields clients_def)
  moreover have "heap_ok ?s' d cs ns = heap_ok ?s3 d cs ns" for ns
    unfolding heap_ok_def heap_at_def fields by (rule refl)
  moreover have "clients d cs (n # ps) = clients d cs ps - {(n, 8)}" by (auto simp: clients_def)
  ultimately show "mem_ok ?s' d L tb cs (n # ps)"
    using mem_okD [OF m3] nt tables_in_cong [OF fields(3)] unfolding mem_ok_def by auto
  show "frame_of [] ?s' (n # ps) 0 = cell (mem s) ?c AND NOT 0xfff" by (simp add: frame_of_def c4)
  have "map (cell (mem ?s')) ps = map (cell (mem s)) ps"
    using pools unfolding fields by (simp add: pool_cells_def)
  then show "frame_of [] ?s' (n # ps) (Suc i) = frame_of [] s ps i"
    unfolding frame_of_def fields(5) by (simp add: Let_def nth_append)
qed

lemma page_free_push:
  assumes "kmalloc depth 8 s = Inr (word_of_nat n, s1)" and "page_table_lookup s1 = page_table_lookup s"
    and "entry_cell s v \<noteq> n" and "entry_cell s v \<noteq> n + 4" and "n + 8 \<le> 2 ^ 32"
  shows "page_free depth (word_of_nat v) s = Inr (push_page n (entry_cell s v) s1)"
proof -
  let ?c = "entry_cell s v"
  have ea: "entry_addr t (word_of_nat v) = word_of_nat ?c" if "page_table_lookup t = page_table_lookup s" for t
    using that by (simp add: entry_cell_def entry_addr_def page_get_table_def Let_def)
  have cm: "mem t (word_of_nat c) = cell (mem t) c" for t :: kstate and c by (simp only: cell_def)
  have n4: "word_of_nat n + (4 :: u32) = word_of_nat (n + 4)" by simp
  let ?s2 = "wr (word_of_nat (n + 4)) (page_free_list s1) (wr (word_of_nat n) (cell (mem s1) ?c AND NOT 0xfff) s1)"
  have n32: "n < 2 ^ 32" "n + 4 < 2 ^ 32" using assms(5) by simp_all
  have "cell (mem ?s2) ?c = cell (mem s1) ?c"
    unfolding wr_fields cell_upd_other [OF n32(2) entry_cell_less(1) assms(4) [symmetric]]
    by (rule cell_upd_other [OF n32(1) entry_cell_less(1) assms(3) [symmetric]])
  moreover have "page_table_lookup ?s2 = page_table_lookup s" using assms(2) by simp
  ultimately have "page_unmap (word_of_nat v) ?s2 = wr (word_of_nat ?c) (cell (mem s1) ?c AND NOT PAGE_PRESENT) ?s2"
    unfolding page_unmap_def Let_def by (simp only: ea cm)
  moreover have "page_get_pma s1 (word_of_nat v) = cell (mem s1) ?c AND NOT 0xfff"
    unfolding page_get_pma_def ea [OF assms(2)] cm ..
  ultimately show ?thesis
    unfolding page_free_def page_free_with_def assms(1) rbind_simps prod.case Let_def n4 push_page_def by simp
qed

lemma page_free_mem:
  assumes mem: "mem_ok s d L tb cs ps" and lim: "d + total cs + 24 \<le> L"
    and own: "entry_cell s v \<notin> table_cells s d cs 8"
  shows "\<exists>n s' cs' ps' m. page_free (Suc depth) (word_of_nat v) s = Inr s' \<and> mem_ok s' d L tb cs' (n # ps') \<and>
    clients d cs' (n # ps') = clients d cs ps \<and> keeps {} (clients d cs ps - table_blocks tb) (mem s) (mem s') \<and>
    page_env s s' \<and> get_page_first_run s' = get_page_first_run s \<and> total cs \<le> total cs' \<and> total cs' \<le> total cs + 16 \<and>
    cell (mem s') (entry_cell s v) = cell (mem s) (entry_cell s v) AND NOT PAGE_PRESENT \<and>
    entries_but (insert (entry_cell s v) (table_cells s d cs 8)) s s' \<and>
    frame_of [] s' (n # ps') 0 = cell (mem s) (entry_cell s v) AND NOT 0xfff \<and>
    (\<forall>i. frame_of [] s' (n # ps') (Suc i) = frame_of [] s ps (m + i)) \<and> length ps' = length ps - m \<and>
    m \<le> pages_needed (d + total cs + 8) 8"
proof -
  let ?c = "entry_cell s v"
  obtain n s1 cs' ps' where g: "kmalloc (Suc depth) 8 s = Inr (word_of_nat n, s1)" "mem_ok s1 d L tb cs' ps'"
      "mem_grant s d tb cs ps n 8 s1 cs' ps'" "total cs' \<le> total cs + 16" "entries_but (table_cells s d cs 8) s s1"
      "if n = d + total cs + 8 then gets_pages [] s ps [] s1 ps' n 8 else takes 0 [] s ps [] s1 ps'"
    using kmalloc_mem [OF mem, of 8 depth] lim unfolding rounded_8 by auto
  note mg = mem_grantD [OF g(3)]
  define m where "m = (if n = d + total cs + 8 then pages_needed n 8 else 0)"
  have tk: "takes m [] s ps [] s1 ps'" and m: "m \<le> pages_needed (d + total cs + 8) 8"
    using g(6) by (auto simp: m_def gets_pages_def split: if_splits)
  have lk: "page_table_lookup s1 = page_table_lookup s" by (rule page_env_lookup [OF mg(7)])
  have ec: "entry_cell s1 w = entry_cell s w" for w by (rule entry_cell_cong [OF lk])
  have nc: "(n, 8) \<in> clients d cs' ps'" using mg(1) by simp
  have lim': "d + total cs' + 8 \<le> L" using g(4) lim by simp
  note p = push_page_mem [OF g(2) nc lim', where v = v, unfolded ec] and pn = push_page_mem(2,3) [OF g(2) nc lim', unfolded ec]
  let ?s' = "push_page n ?c s1"
  have c0: "cell (mem s1) ?c = cell (mem s) ?c" by (rule entries_butD [OF g(5) own])
  have new: "(n, 8) \<notin> clients d cs ps" using mg(2) [of n 8] by auto
  have n32: "n + 8 \<le> 2 ^ 32" using mg(4) mem_seg(2) [OF g(2)] by simp
  have run: "page_free (Suc depth) (word_of_nat v) s = Inr ?s'"
    by (rule page_free_push [OF g(1) lk p(2,3) n32])
  have cl: "clients d cs' (n # ps') = clients d cs ps"
  proof -
    have "clients d cs' (n # ps') = clients d cs' ps' - {(n, 8)}" by (auto simp: clients_def)
    then show ?thesis using mg(1) new by simp
  qed
  have kp: "keeps {} (clients d cs ps - table_blocks tb) (mem s) (mem ?s')"
  proof (rule keepsI)
    fix k sz a assume a: "(k, sz) \<in> clients d cs ps - table_blocks tb" "k \<le> a" "a + 4 \<le> k + sz"
    then have k: "(k, sz) \<in> clients d cs' ps' - table_blocks tb" "(k, sz) \<in> clients d cs ps" using mg(1) by auto
    note ms1 = mem_okD [OF g(2)]
    have "?c \<noteq> a" using entry_apart(3) [OF mem_seg(1) [OF g(2)] ms1(2-4) lim' k(1), of v, unfolded ec] a by auto
    moreover have "a < 2 ^ 32" using mem_client_write(2) [OF g(2)] k(1) a by blast
    moreover have "a \<noteq> n" "a \<noteq> n + 4" using mg(2) [OF k(2)] a by auto
    ultimately have "cell (mem ?s') a = cell (mem s1) a" by (intro p(4)) auto
    then show "cell (mem ?s') a = cell (mem s) a" using keepsD [OF mg(6) a(1)] a(2,3) by simp
  qed
  have en: "entries_but (insert ?c (table_cells s d cs 8)) s ?s'"
    unfolding entries_but_def
  proof (intro allI impI)
    fix w assume w: "entry_cell s w \<notin> insert ?c (table_cells s d cs 8)"
    then have "cell (mem ?s') (entry_cell s w) = cell (mem s1) (entry_cell s w)"
      using pn [of w] by (intro p(4)) auto
    then show "cell (mem ?s') (entry_cell s w) = cell (mem s) (entry_cell s w)" using entries_butD [OF g(5)] w by simp
  qed
  have env: "page_env s ?s'" "get_page_first_run ?s' = get_page_first_run s"
    using mg(7) takesD(3) [OF tk] by (simp_all add: page_env_def push_page_def)
  have "frame_of [] ?s' (n # ps') (Suc i) = frame_of [] s ps (m + i)" for i
    using p(6) takesD(1) [OF tk] by simp
  moreover have "length ps' = length ps - m" using takesD(2) [OF tk] by simp
  ultimately show ?thesis
    using run p(1) cl kp en env mg(8) g(4) p(5,7) c0 m
    by (intro exI [of _ n] exI [of _ ?s'] exI [of _ cs'] exI [of _ ps'] exI [of _ m]) simp
qed

lemma aligned_end_page: "4096 dvd D \<Longrightarrow> 0 < x \<Longrightarrow> x \<le> 4096 \<Longrightarrow> aligned_end 12 (D + x) = D + 4096"
proof -
  assume D: "4096 dvd D" and x: "0 < x" "x \<le> 4096"
  obtain q where q: "D = 4096 * q" using D by blast
  define y where "y = x + 4095"
  have "y div 4096 = 1" unfolding y_def using x by (intro div_nat_eqI) simp_all
  then have "(4096 * q + y) div 4096 = q + 1" by (subst div_mult_self4) simp_all
  moreover have "4096 * q + x + 2 ^ 12 - 1 = 4096 * q + y" by (simp add: y_def)
  then have "aligned_end 12 (D + x) = (4096 * q + y) div 2 ^ 12 * 2 ^ 12" unfolding aligned_end_def q by (rule arg_cong)
  ultimately show ?thesis by (simp add: q)
qed

section \<open>A page is granted\<close>

lemma pages_of_page:
  assumes "4096 dvd n"
  shows "page_at n i = n + i * 4096" and "pages_needed n 4096 = 2"
proof -
  from assms obtain q where "n = 4096 * q" by blast
  then show "page_at n i = n + i * 4096" by (simp add: page_at_def)
  then have "page_at n 0 = n" by (simp add: page_at_def \<open>n = 4096 * q\<close>)
  then show "pages_needed n 4096 = 2" by (simp add: pages_needed_def)
qed

text \<open>Its two pages, each mapped to its own frame.\<close>

lemma mapped_pair:
  assumes A: "4096 dvd A" and ne: "entry_cell t A \<noteq> entry_cell t (A + 4096)" and g: "pages_mapped f t A (pages_needed A 4096)"
  shows "cell (mem t) (entry_cell t A) = f 0 OR PAGE_WRITE OR PAGE_PRESENT"
    and "cell (mem t) (entry_cell t (A + 4096)) = f 1 OR PAGE_WRITE OR PAGE_PRESENT"
proof -
  have at: "page_at A 0 = A" "page_at A 1 = A + 4096" "pages_needed A 4096 = 2"
    using pages_of_page [OF A] by simp_all
  have ex: "\<exists>k<2. entry_cell t (page_at A k) = entry_cell t (page_at A i) \<and>
      cell (mem t) (entry_cell t (page_at A i)) = f k OR PAGE_WRITE OR PAGE_PRESENT" if "i < 2" for i
    using g that unfolding pages_mapped_def at(3) by blast
  obtain j where j: "j < 2" "entry_cell t (page_at A j) = entry_cell t A"
      "cell (mem t) (entry_cell t A) = f j OR PAGE_WRITE OR PAGE_PRESENT"
    using ex [of 0] unfolding at(1) by auto
  obtain k where k: "k < 2" "entry_cell t (page_at A k) = entry_cell t (A + 4096)"
      "cell (mem t) (entry_cell t (A + 4096)) = f k OR PAGE_WRITE OR PAGE_PRESENT"
    using ex [of 1] unfolding at(2) by auto
  have "j = 0"
  proof (rule ccontr)
    assume "j \<noteq> 0"
    then have "j = 1" using j(1) by simp
    then show False using j(2) [unfolded \<open>j = 1\<close> at(2)] ne by argo
  qed
  moreover have "k = 1"
  proof (rule ccontr)
    assume "k \<noteq> 1"
    then have "k = 0" using k(1) by simp
    then show False using k(2) [unfolded \<open>k = 0\<close> at(1)] ne by argo
  qed
  ultimately show "cell (mem t) (entry_cell t A) = f 0 OR PAGE_WRITE OR PAGE_PRESENT"
    "cell (mem t) (entry_cell t (A + 4096)) = f 1 OR PAGE_WRITE OR PAGE_PRESENT"
    using j(3) k(3) by simp_all
qed

context page_source begin

lemma page_mem:
  assumes mem: "mem_ok s d L tb cs ps" and gap: "gap_of 12 (d + total cs + 8) \<noteq> 8"
    and lim: "d + total cs + 8224 \<le> L"
  shows "\<exists>s' cs' ps'. alloc get_page PAGE_SIZE PAGE_SIZE s = Inr (word_of_nat (aligned_end 12 (d + total cs + 8)), s') \<and>
    mem_ok s' d L tb cs' ps' \<and> mem_grant s d tb cs ps (aligned_end 12 (d + total cs + 8)) 4096 s' cs' ps' \<and>
    d + total cs' = aligned_end 12 (d + total cs + 8) + 4096 \<and>
    entries_but {entry_cell s (aligned_end 12 (d + total cs + 8)), entry_cell s (aligned_end 12 (d + total cs + 8) + 4096)} s s' \<and>
    gets_pages (own s) s ps (own s') s' ps' (aligned_end 12 (d + total cs + 8)) 4096"
proof -
  let ?A = "aligned_end 12 (d + total cs + 8)" and ?cs = "gap_chunks 12 d cs"
  note m = mem_okD [OF mem]
  from m(1) obtain ns where k: "heap_ok s d cs ns" by blast
  have lim1: "d + total cs + 8 + 2 ^ 12 + 16 \<le> 2 ^ 32" "d + total cs + 8 + 2 ^ 12 + rounded 4096 + 16 + 4096 \<le> 2 ^ 32"
    using lim m(5) by (simp_all add: rounded_def)
  have up: "?A \<le> d + total cs + 8 + 4095" by (simp add: aligned_end_def)
  obtain s1 where s1: "heap_at s1 d ?cs (gap_nodes 12 d cs ns)" "d + total ?cs + 8 = ?A" "pool_ok s1 d ?cs ps"
    using align_end_cases [OF k m(2) _ _ lim1(1)] gap by auto
  have cl: "clients d ?cs ps = clients d cs ps" by (simp add: clients_def)
  have "tables_apart s d ?cs ps (rounded 4096)"
    by (rule tables_apartI [OF heap_atD(4) [OF s1(1)] s1(3) m(3)]) (use m(4) cl s1(2) up lim in \<open>simp_all add: rounded_def\<close>)
  moreover have u: "unat PAGE_SIZE = 4096" "(PAGE_SIZE :: u32) = 2 ^ 12" by (simp_all add: PAGE_SIZE_def)
  moreover have r: "rounded 4096 = 4096" by (simp add: rounded_def)
  ultimately obtain s' cs1 ns' ps' where g: "alloc get_page PAGE_SIZE PAGE_SIZE s = Inr (word_of_nat ?A, s')"
      "heap_ok s' d (cs1 @ [(4096, False)]) ns'" "pool_ok s' d (cs1 @ [(4096, False)]) ps'"
      "shed d ?cs ps cs1 ps'" "gets_pages (own s) s ps (own s') s' ps' ?A 4096"
      "alloc_frame (table_cells s d ?cs 4096) d s cs s' (cs1 @ [(4096, False)])"
    using alloc_aligned_ok [OF k m(2), of 12 PAGE_SIZE] lim1(2) gap by auto
  let ?cs' = "cs1 @ [(4096, False)]"
  have tot: "total cs1 = total ?cs" using g(4) by (simp add: shed_def)
  have cl': "clients d ?cs' ps' = insert (?A, 4096) (clients d cs ps)"
    using aligned_clients [OF g(4) m(2)] s1(2) by simp
  have "clients d cs ps \<subseteq> set (blocks d cs) \<inter> set (blocks d ?cs')"
    using cl' by (auto simp: clients_def)
  then have kp: "keeps (table_cells s d ?cs 4096) (clients d cs ps) (mem s) (mem s')"
    by (rule keeps_mono [OF alloc_frameD(3) [OF g(6)] subset_refl])
  have "keeps {} (clients d cs ps - table_blocks tb) (mem s) (mem s')"
    by (rule quiet_blocks [OF mem _ table_cells_entries kp]) (use lim in simp)
  moreover have "k + c + 8 \<le> ?A" if "(k, c) \<in> clients d cs ps" for k c
    using that blocks_range [of k c d cs] aligned_end_ge [of "d + total cs + 8" 12] by (simp add: clients_def)
  moreover have "8 dvd ?A" by (rule dvd_trans [OF _ aligned_end_dvd]) simp
  ultimately have "mem_grant s d tb cs ps ?A 4096 s' ?cs' ps'"
    using cl' g(4) alloc_frameD(1) [OF g(6)] aligned_end_ge [of "d + total cs + 8" 12] tot s1(2)
    by (auto simp: mem_grant_def shed_def)
  moreover have "mem_ok s' d L tb ?cs' ps'"
    by (rule mem_okI [OF mem g(2,3) alloc_frameD(1) [OF g(6)]]) (use cl' in auto)
  moreover have tc: "d + total ?cs' = ?A + 4096" using tot s1(2) by simp
  moreover have "4096 dvd ?A" using aligned_end_dvd [of 12 "d + total cs + 8"] by simp
  note pp = pages_of_page [OF this]
  have "{..<2 :: nat} = {0, 1}" by auto
  then have "table_cells s d ?cs 4096 = {entry_cell s ?A, entry_cell s (?A + 4096)}"
    unfolding table_cells_def s1(2) pp by simp
  moreover have "entries_but (table_cells s d ?cs 4096) s s'"
    by (rule quiet_entries [OF mem g(6)]) (use cl' tc up lim in \<open>auto simp: clients_def\<close>)
  ultimately show ?thesis using g(1,5) by (intro exI [of _ s'] exI [of _ ?cs'] exI [of _ ps']) simp
qed

end

end
