(* ===== verification/Boot_Cleanup.thy ===== *)
theory Boot_Cleanup
  imports Kernel_Memory Boot_View
begin

text \<open>
  \<open>page_init_cleanup\<close> from the state that \<open>init\<close> hands over: the heap is created, the pages of the init
  section are cleared and given back, and the page tables of the kernel's part of the address space are
  allocated.
\<close>

section \<open>The tables of the first map\<close>

text \<open>\<open>D\<close> is the first page after them, where the heap starts.\<close>

definition first_tables :: "kstate \<Rightarrow> nat \<Rightarrow> bool" where
  "first_tables s D \<longleftrightarrow> 4096 dvd D \<and> 0xE0006000 \<le> D \<and> D + 4096 \<le> 2 ^ 32 \<and> page_table_lookup s 0 = word_of_nat (D - 0x3000) \<and>
     page_table_lookup s 896 = word_of_nat (D - 0x2000) \<and> page_table_lookup s 1023 = word_of_nat (D - 0x1000)"

definition mapped_regions :: "nat set" where
  "mapped_regions = {0, 896, 1023}"

definition region_table :: "nat \<Rightarrow> nat" where
  "region_table r = (if r = 0 then 0 else if r = 896 then 1 else 2)"

lemma entry_cell_at:
  assumes "v < 2 ^ 32" and "page_table_lookup s (word_of_nat (v div 4194304)) = word_of_nat T" and "T + 4096 \<le> 2 ^ 32"
  shows "entry_cell s v = T + 4 * (v div 4096 mod 1024)"
proof -
  have "v div 4096 mod 1024 < 1024" by simp
  then have "T + 4 * (v div 4096 mod 1024) < 2 ^ 32" using assms(3) by linarith
  moreover have "entry_addr s (word_of_nat v) = word_of_nat (T + 4 * (v div 4096 mod 1024))"
    unfolding entry_addr_def page_get_table_def Let_def idx_of_nat [OF assms(1)] assms(2) by simp
  ultimately show ?thesis unfolding entry_cell_def by (simp only: unat_of_nat32)
qed

lemma region_cell:
  assumes ft: "first_tables s D" and v: "v < 2 ^ 32" "v div 4194304 \<in> mapped_regions"
  shows "entry_cell s v = D - 0x3000 + 4096 * region_table (v div 4194304) + 4 * (v div 4096 mod 1024)"
proof (rule entry_cell_at [OF v(1)])
  show "page_table_lookup s (word_of_nat (v div 4194304)) = word_of_nat (D - 0x3000 + 4096 * region_table (v div 4194304))"
    using ft v(2) by (auto simp: first_tables_def mapped_regions_def region_table_def)
  show "D - 0x3000 + 4096 * region_table (v div 4194304) + 4096 \<le> 2 ^ 32"
    using ft by (auto simp: first_tables_def region_table_def)
qed

lemma region_bounds:
  assumes ft: "first_tables s D" and v: "v < 2 ^ 32" "v div 4194304 \<in> mapped_regions"
  shows "D - 0x3000 \<le> entry_cell s v" and "entry_cell s v < D"
proof -
  have "v div 4096 mod 1024 < 1024" "region_table (v div 4194304) \<le> 2" "0x3000 \<le> D"
    using ft by (simp_all add: region_table_def first_tables_def)
  then show "D - 0x3000 \<le> entry_cell s v" "entry_cell s v < D"
    unfolding region_cell [OF assms] by linarith+
qed

lemma entry_split:
  assumes "4096 * a + 4 * x = 4096 * b + 4 * (y :: nat)" and "x < 1024" and "y < 1024"
  shows "a = b" and "x = y"
proof -
  have "(4096 * a + 4 * x) div 4096 = a" "(4096 * b + 4 * y) div 4096 = b" using assms(2,3) by simp_all
  then show "a = b" using assms(1) by simp
  then show "x = y" using assms(1) by simp
qed

lemma region_inj:
  assumes ft: "first_tables s D" and v: "v < 2 ^ 32" "v div 4194304 \<in> mapped_regions"
    and w: "w < 2 ^ 32" "w div 4194304 \<in> mapped_regions"
  shows "entry_cell s v = entry_cell s w \<longleftrightarrow> v div 4096 = w div 4096"
proof
  let ?p = "v div 4096" and ?q = "w div 4096"
  have d: "u div 4194304 = u div 4096 div 1024" for u :: nat by (simp add: div_mult2_eq [symmetric])
  assume "entry_cell s v = entry_cell s w"
  then have "4096 * region_table (v div 4194304) + 4 * (?p mod 1024) = 4096 * region_table (w div 4194304) + 4 * (?q mod 1024)"
    unfolding region_cell [OF ft v] region_cell [OF ft w] by simp
  note e = entry_split [OF this mod_less_divisor mod_less_divisor, OF zero_less_numeral zero_less_numeral]
  then have "v div 4194304 = w div 4194304"
    using v(2) w(2) e(1) by (auto simp: mapped_regions_def region_table_def split: if_splits)
  then show "?p = ?q" using e(2) unfolding d by (metis div_mult_mod_eq)
next
  assume e: "v div 4096 = w div 4096"
  have d: "u div 4194304 = u div 4096 div 1024" for u :: nat by (simp add: div_mult2_eq [symmetric])
  have "v div 4194304 = w div 4194304" unfolding d e ..
  then show "entry_cell s v = entry_cell s w" unfolding region_cell [OF ft v] region_cell [OF ft w] e by simp
qed

text \<open>The entry of page \<open>p\<close>.\<close>

definition entry_of :: "kstate \<Rightarrow> nat \<Rightarrow> u32" where
  "entry_of s p = cell (mem s) (entry_cell s (4096 * p))"

definition mapped_pages :: "nat set" where
  "mapped_pages = {p. p < 2 ^ 20 \<and> p div 1024 \<in> mapped_regions}"

lemma page_regions: "p \<in> mapped_pages \<Longrightarrow> 4096 * p < 2 ^ 32 \<and> 4096 * p div 4194304 \<in> mapped_regions"
  by (simp add: mapped_pages_def)

lemma page_inj:
  assumes "first_tables s D" and "p \<in> mapped_pages" and "q \<in> mapped_pages"
  shows "entry_cell s (4096 * p) = entry_cell s (4096 * q) \<longleftrightarrow> p = q"
  using region_inj [OF assms(1), of "4096 * p" "4096 * q"] page_regions [OF assms(2)] page_regions [OF assms(3)] by simp

section \<open>The frames of the pages given back\<close>

text \<open>The pages \<open>xs\<close>, mapped at their own addresses, in the order they were given back; then the frames from \<open>h\<close> up.\<close>

definition frame_seq :: "u32 \<Rightarrow> nat list \<Rightarrow> nat \<Rightarrow> u32" where
  "frame_seq h xs i = (if i < length xs then word_of_nat (4096 * rev xs ! i) else h + word_of_nat (i - length xs) * PAGE_SIZE)"

lemma frame_seq_snoc: "frame_seq h (xs @ [p]) 0 = word_of_nat (4096 * p)" "frame_seq h (xs @ [p]) (Suc i) = frame_seq h xs i"
  by (simp_all add: frame_seq_def)

definition cleared :: "kstate \<Rightarrow> nat \<Rightarrow> nat \<Rightarrow> nat list \<Rightarrow> nat set \<Rightarrow> kstate \<Rightarrow> bool" where
  "cleared s D L xs U t \<longleftrightarrow> (\<exists>cs ps. mem_ok t D L {} cs ps \<and> clients D cs ps = {} \<and> total cs \<le> 16 * length xs \<and>
     page_env s t \<and> get_page_first_run t = get_page_first_run s \<and>
     (\<forall>i. frame_of [] t ps i = frame_seq (kernel_heap_end_pma s) xs i) \<and> length ps = length xs) \<and>
     (\<forall>p\<in>mapped_pages. entry_of t p = (if p \<in> U then entry_of s p AND NOT PAGE_PRESENT else entry_of s p))"

lemma clearedE:
  assumes "cleared s D L xs U t"
  obtains cs ps where "mem_ok t D L {} cs ps" "clients D cs ps = {}" "total cs \<le> 16 * length xs" "page_env s t"
    "get_page_first_run t = get_page_first_run s" "\<And>i. frame_of [] t ps i = frame_seq (kernel_heap_end_pma s) xs i"
    "length ps = length xs"
  using assms unfolding cleared_def by blast

lemma cleared_entry:
  "cleared s D L xs U t \<Longrightarrow> p \<in> mapped_pages \<Longrightarrow>
     entry_of t p = (if p \<in> U then entry_of s p AND NOT PAGE_PRESENT else entry_of s p)"
  unfolding cleared_def by blast

lemma low_page: "p < 1024 \<Longrightarrow> p \<in> mapped_pages"
  by (simp add: mapped_pages_def mapped_regions_def)

text \<open>While the nodes fit in the heap's first page, giving a page back takes none.\<close>

lemma no_pages_needed:
  assumes "4096 dvd D" and "0 < x" and "x + 16 \<le> 4096"
  shows "pages_needed (D + x) 8 = 0"
proof -
  obtain q where "D = 4096 * q" using assms(1) by blast
  moreover have "(x + 4095) div 4096 = 1" using assms(2,3) by (intro div_nat_eqI) simp_all
  then have "(4096 * q + (x + 4095)) div 4096 = q + 1" by (subst div_mult_self4) simp_all
  ultimately have "page_at (D + x) 0 = D + 4096" by (simp add: page_at_def add.assoc)
  then show ?thesis using assms(3) by (simp add: pages_needed_def)
qed

lemma cleanup_page_step:
  assumes cl: "cleared s D L xs U t" and ft: "first_tables s D" and p: "1 \<le> p" "p < 1024" "p \<notin> U"
    and fr: "entry_of s p AND NOT 0xfff = word_of_nat (4096 * p)" and len: "length xs < 254" and L: "D + 8192 \<le> L"
  shows "\<exists>t'. cleanup_page (Suc depth) (word_of_nat (4096 * p)) t = Inr t' \<and> cleared s D L (xs @ [p]) (insert p U) t'"
proof -
  let ?v = "4096 * p" let ?t1 = "page_clear (word_of_nat ?v) t"
  obtain cs ps where c: "mem_ok t D L {} cs ps" "clients D cs ps = {}" "total cs \<le> 16 * length xs" "page_env s t"
      "get_page_first_run t = get_page_first_run s" "\<And>i. frame_of [] t ps i = frame_seq (kernel_heap_end_pma s) xs i"
      "length ps = length xs"
    using cl by (rule clearedE) blast
  have D: "4096 dvd D" "0xE0006000 \<le> D" using ft by (simp_all add: first_tables_def)
  have lowv: "?v + 4096 \<le> D" using D(2) p(2) by simp
  have pc: "mem_ok ?t1 D L {} cs ps" "kept_but {?v..<?v + 4096} t ?t1" "takes 0 [] t ps [] ?t1 ps" "page_env t ?t1"
    "get_page_first_run ?t1 = get_page_first_run t"
    using page_clear_mem [OF c(1) lowv] takesD(3) by auto
  have tot: "D + total cs + 24 \<le> L" "0 < total cs + 8" "total cs + 8 + 16 \<le> 4096" using c(3) len L by simp_all
  have pn: "pages_needed (D + total cs + 8) 8 = 0"
    using no_pages_needed [OF D(1) tot(2,3)] by (simp add: add.assoc)
  have tc: "table_cells ?t1 D cs 8 = {}" unfolding table_cells_def pn by simp
  have ec: "entry_cell u w = entry_cell s w" if "page_env s u" for u w
    by (rule entry_cell_cong [OF page_env_lookup [OF that]])
  have env1: "page_env s ?t1" by (rule page_env_trans [OF c(4) pc(4)])
  have "entry_cell ?t1 ?v \<notin> table_cells ?t1 D cs 8" unfolding tc by simp
  from page_free_mem [OF pc(1) tot(1) this, of depth, unfolded tc pn]
  obtain n t' cs' ps' where f: "page_free (Suc depth) (word_of_nat ?v) ?t1 = Inr t'" "mem_ok t' D L {} cs' (n # ps')"
      "clients D cs' (n # ps') = clients D cs ps" "page_env ?t1 t'" "get_page_first_run t' = get_page_first_run ?t1"
      "total cs' \<le> total cs + 16" "cell (mem t') (entry_cell ?t1 ?v) = cell (mem ?t1) (entry_cell ?t1 ?v) AND NOT PAGE_PRESENT"
      "entries_but {entry_cell ?t1 ?v} ?t1 t'" "frame_of [] t' (n # ps') 0 = cell (mem ?t1) (entry_cell ?t1 ?v) AND NOT 0xfff"
      "\<And>i. frame_of [] t' (n # ps') (Suc i) = frame_of [] ?t1 ps i" "length ps' = length ps"
    by auto
  have env': "page_env s t'" by (rule page_env_trans [OF env1 f(4)])
  have e1: "entry_of ?t1 q = entry_of t q" if q: "q \<in> mapped_pages" for q
  proof -
    have "entry_cell s (4096 * q) \<notin> {?v..<?v + 4096}"
      using region_bounds [OF ft] page_regions [OF q] D(2) p(2) by fastforce
    then show ?thesis
      using kept_butD [OF pc(2) entry_cell_less(1)] unfolding entry_of_def ec [OF env1] ec [OF c(4)] by blast
  qed
  have ent: "entry_of t' q = (if q \<in> insert p U then entry_of s q AND NOT PAGE_PRESENT else entry_of s q)"
    if q: "q \<in> mapped_pages" for q
  proof (cases "q = p")
    case True
    have "entry_of t' p = entry_of ?t1 p AND NOT PAGE_PRESENT"
      using f(7) unfolding entry_of_def ec [OF env1] ec [OF env'] .
    then show ?thesis using True e1 [OF q] cleared_entry [OF cl q] p(3) by simp
  next
    case False
    then have "entry_cell ?t1 (4096 * q) \<notin> {entry_cell ?t1 ?v}"
      using page_inj [OF ft q low_page [OF p(2)]] unfolding ec [OF env1] by simp
    from entries_butD [OF f(8) this] have "entry_of t' q = entry_of ?t1 q"
      unfolding entry_of_def ec [OF env1] ec [OF env'] .
    then show ?thesis using False e1 [OF q] cleared_entry [OF cl q] by simp
  qed
  have "frame_of [] t' (n # ps') i = frame_seq (kernel_heap_end_pma s) (xs @ [p]) i" for i
  proof (cases i)
    case 0
    have "entry_of ?t1 p = entry_of s p" using e1 [OF low_page [OF p(2)]] cleared_entry [OF cl low_page [OF p(2)]] p(3) by simp
    then show ?thesis using 0 f(9) fr unfolding entry_of_def ec [OF env1] by (simp add: frame_seq_snoc)
  next
    case (Suc k)
    then show ?thesis using f(10) takesD(1) [OF pc(3)] c(6) by (simp add: frame_seq_snoc)
  qed
  then have "cleared s D L (xs @ [p]) (insert p U) t'"
    unfolding cleared_def using f(2,3,5,6,11) c(2,3,5,7) pc(5) env' ent by (intro conjI exI [of _ cs'] exI [of _ "n # ps'"]) auto
  then show ?thesis using f(1) by (simp add: cleanup_page_def)
qed

text \<open>A page that is unmapped only.\<close>

lemma unmap_step:
  assumes cl: "cleared s D L xs U t" and ft: "first_tables s D" and p: "p < 1024" "p \<notin> U"
    and len: "length xs \<le> 254" and L: "D + 8192 \<le> L"
  shows "cleared s D L xs (insert p U) (page_unmap (word_of_nat (4096 * p)) t)"
proof -
  let ?v = "4096 * p" let ?c = "entry_cell t ?v" let ?x = "cell (mem t) ?c AND NOT PAGE_PRESENT"
  let ?t = "wr (word_of_nat ?c) ?x t"
  obtain cs ps where c: "mem_ok t D L {} cs ps" "clients D cs ps = {}" "total cs \<le> 16 * length xs" "page_env s t"
      "get_page_first_run t = get_page_first_run s" "\<And>i. frame_of [] t ps i = frame_seq (kernel_heap_end_pma s) xs i"
      "length ps = length xs"
    using cl by (rule clearedE) blast
  have run: "page_unmap (word_of_nat ?v) t = ?t"
    unfolding page_unmap_def Let_def entry_word [symmetric] by (simp only: cell_def)
  have lim: "D + total cs + 8 \<le> L" using c(3) len L by simp
  note w = mem_entry_write [OF c(1) lim, where v = ?v and x = ?x]
  have env: "page_env s ?t" using c(4) by (simp add: page_env_def)
  have ec: "entry_cell u w = entry_cell s w" if "page_env s u" for u w
    by (rule entry_cell_cong [OF page_env_lookup [OF that]])
  have ent: "entry_of ?t q = (if q \<in> insert p U then entry_of s q AND NOT PAGE_PRESENT else entry_of s q)"
    if q: "q \<in> mapped_pages" for q
  proof -
    have "entry_cell ?t w = entry_cell t w" for w by (rule entry_cell_cong) simp
    then have "entry_of ?t q = (if q = p then entry_of t p AND NOT PAGE_PRESENT else entry_of t q)"
      using page_inj [OF ft low_page [OF p(1)] q, folded ec [OF c(4)]]
      unfolding entry_of_def by (simp add: cell_upd)
    then show ?thesis using cleared_entry [OF cl q] p(2) by auto
  qed
  have "takes 0 [] t ps [] ?t ps" by (rule takes_0) (use w(2) in \<open>auto simp: pool_cells_def\<close>)
  then have "frame_of [] ?t ps i = frame_seq (kernel_heap_end_pma s) xs i" for i using takesD(1) c(6) by fastforce
  then show ?thesis
    unfolding run cleared_def using w(1) c(2,3,5,7) env ent by (intro conjI exI [of _ cs] exI [of _ ps]) auto
qed

lemma page_plus: "word_of_nat (4096 * a) + word_of_nat j * PAGE_SIZE = (word_of_nat (4096 * (a + j)) :: u32)"
  by (simp add: PAGE_SIZE_def algebra_simps)

lemma page_word_less: "a \<le> 1024 \<Longrightarrow> b \<le> 1024 \<Longrightarrow> (word_of_nat (4096 * a) :: u32) < word_of_nat (4096 * b) \<longleftrightarrow> a < b"
  by (subst word_of_nat_less_iff32) simp_all

lemma cleanup_loop:
  assumes cl: "cleared s D L xs U t" and ft: "first_tables s D" and a: "1 \<le> a" "a + n \<le> 1024" "{a..<a + n} \<inter> U = {}"
    and fr: "\<And>p. p \<in> {a..<a + n} \<Longrightarrow> entry_of s p AND NOT 0xfff = word_of_nat (4096 * p)"
    and len: "length xs + n \<le> 254" and L: "D + 8192 \<le> L"
  shows "\<exists>t'. for_loop PAGE_SIZE (counted (cleanup_page (Suc depth))) (word_of_nat (4096 * a)) (word_of_nat (4096 * (a + n)))
      (word_of_nat (4096 * a), t) = Some (Inr (word_of_nat (4096 * (a + n)), t')) \<and>
    cleared s D L (xs @ [a..<a + n]) (U \<union> {a..<a + n}) t'"
proof -
  let ?I = "\<lambda>j (i, t). i = (word_of_nat (4096 * (a + j)) :: u32) \<and> cleared s D L (xs @ [a..<a + j]) (U \<union> {a..<a + j}) t"
  have "\<exists>it. for_loop PAGE_SIZE (counted (cleanup_page (Suc depth))) (word_of_nat (4096 * a)) (word_of_nat (4096 * (a + n)))
      (word_of_nat (4096 * a), t) = Some (Inr it) \<and> ?I n it"
  proof (rule for_loop_rule [where I = ?I])
    show "?I 0 (word_of_nat (4096 * a), t)" using cl by simp
  next
    fix j it assume j: "j < n" and it: "?I j it"
    obtain i u where iu: "it = (i, u)" "cleared s D L (xs @ [a..<a + j]) (U \<union> {a..<a + j}) u"
      using it by (cases it) auto
    have "a + j \<in> {a..<a + n}" using j by simp
    then have "a + j \<notin> U" using a(3) by blast
    then have pj: "1 \<le> a + j" "a + j < 1024" "a + j \<notin> U \<union> {a..<a + j}" "a + j \<in> {a..<a + n}" "length (xs @ [a..<a + j]) < 254"
      using a(1,2) j len by simp_all
    obtain u' where u': "cleanup_page (Suc depth) (word_of_nat (4096 * (a + j))) u = Inr u'"
        "cleared s D L ((xs @ [a..<a + j]) @ [a + j]) (insert (a + j) (U \<union> {a..<a + j})) u'"
      using cleanup_page_step [OF iu(2) ft pj(1-3) fr [OF pj(4)] pj(5) L] by blast
    have "[a..<a + j] @ [a + j] = [a..<a + Suc j]" "insert (a + j) (U \<union> {a..<a + j}) = U \<union> {a..<a + Suc j}" by auto
    then have "cleared s D L (xs @ [a..<a + Suc j]) (U \<union> {a..<a + Suc j}) u'" using u'(2) by (metis append_assoc)
    moreover have "counted (cleanup_page (Suc depth)) (word_of_nat (4096 * (a + j))) it = Inr (word_of_nat (4096 * (a + Suc j)), u')"
      unfolding counted_def iu(1) snd_conv u'(1) by (simp add: PAGE_SIZE_def algebra_simps)
    ultimately show "\<exists>it'. counted (cleanup_page (Suc depth)) (word_of_nat (4096 * a) + word_of_nat j * PAGE_SIZE) it = Inr it' \<and>
        ?I (Suc j) it'"
      unfolding page_plus by simp
  next
    fix j assume "j < n"
    then show "word_of_nat (4096 * a) + word_of_nat j * PAGE_SIZE < (word_of_nat (4096 * (a + n)) :: u32)"
      unfolding page_plus using a(2) page_word_less [of "a + j" "a + n"] by simp
  next
    show "\<not> word_of_nat (4096 * a) + word_of_nat n * PAGE_SIZE < (word_of_nat (4096 * (a + n)) :: u32)"
      unfolding page_plus by simp
  qed
  then show ?thesis by auto
qed

section \<open>The heap is created\<close>

lemma first_tables_boot:
  assumes bt: "booted l b"
  shows "first_tables (kernel_view l b) (unat (BSS_END_VMA l) + 0x6000)"
    and "unat (kernel_heap_end_vma (kernel_view l b)) = unat (BSS_END_VMA l) + 0x6000"
    and "p \<in> mapped_pages \<Longrightarrow> entry_of (kernel_view l b) p = boot_entry l p"
proof -
  from bootedD(1) [OF bt] obtain e q n where n: "q + 3 \<le> e" "e + n + 3 < 1024" "unat (BSS_END_VMA l) = 0xE0000000 + 4096 * n"
    by (rule image_okE)
  have b: "BSS_END_VMA l = word_of_nat (0xE0000000 + 4096 * n)" by (rule unat_eq_word) (rule n(3))
  let ?D = "0xE0000000 + 4096 * n + 0x6000"
  have w: "BSS_END_VMA l + word_of_nat k = word_of_nat (0xE0000000 + 4096 * n + k)" for k unfolding b by simp
  have "4096 dvd ?D" by (intro dvd_add) simp_all
  moreover have "?D - 0x3000 = 0xE0000000 + 4096 * n + 0x3000" "?D - 0x2000 = 0xE0000000 + 4096 * n + 0x4000"
    "?D - 0x1000 = 0xE0000000 + 4096 * n + 0x5000" by simp_all
  then have "word_of_nat (?D - 0x3000) = BSS_END_VMA l + 0x3000" "word_of_nat (?D - 0x2000) = BSS_END_VMA l + 0x4000"
    "word_of_nat (?D - 0x1000) = BSS_END_VMA l + 0x5000"
    using w [of "0x3000"] w [of "0x4000"] w [of "0x5000"] by simp_all
  ultimately show "first_tables (kernel_view l b) (unat (BSS_END_VMA l) + 0x6000)"
    using view_lookup [OF bt, of 0] view_lookup [OF bt, of 896] view_lookup [OF bt, of 1023] n(1,2)
    unfolding first_tables_def n(3) by simp
  have "unat (word_of_nat ?D :: u32) = ?D" using n by (intro unat_of_nat32) simp
  then show "unat (kernel_heap_end_vma (kernel_view l b)) = unat (BSS_END_VMA l) + 0x6000"
    using bootedD(6) [OF bt] w [of "0x6000"] n(3) by (simp add: kernel_view_def)
  assume p: "p \<in> mapped_pages"
  have u: "unat (word_of_nat (4096 * p) :: u32) = 4096 * p" using page_regions [OF p] by (intro unat_of_nat32) simp
  have "entry_of (kernel_view l b) p = page_get_entry (kernel_view l b) (word_of_nat (4096 * p))"
    unfolding entry_of_def page_get_entry_def entry_word [symmetric] cell_def ..
  also have "\<dots> = boot_entry l p"
    using view_entry [OF bt, of "word_of_nat (4096 * p)"] page_regions [OF p] unfolding u by (simp add: mapped_regions_def)
  finally show "entry_of (kernel_view l b) p = boot_entry l p" .
qed

definition TOP :: nat where
  "TOP = 2 ^ 32 - 4096"

lemma tables_below:
  assumes ft: "first_tables s D" and other: "\<And>i. i < 1024 \<Longrightarrow> i \<notin> mapped_regions \<Longrightarrow> page_table_lookup s (word_of_nat i) = 0"
  shows "tables_in s D L {}"
  unfolding tables_in_def
proof
  fix v0 :: nat
  define v where "v = v0 mod 2 ^ 32"
  have "(word_of_nat v0 :: u32) = word_of_nat v" by (rule unat_eq_word) (simp add: v_def unat_of_nat)
  then have e: "entry_cell s v0 = entry_cell s v" unfolding entry_cell_def by simp
  have v: "v < 2 ^ 32" by (simp add: v_def)
  then have i: "v div 4194304 < 1024" by simp
  have j: "v div 4096 mod 1024 < 1024" by simp
  have D: "0xE0006000 \<le> D" using ft by (simp add: first_tables_def)
  have "entry_cell s v + 4 \<le> D"
  proof (cases "v div 4194304 \<in> mapped_regions")
    case True
    have "region_table (v div 4194304) \<le> 2" by (simp add: region_table_def)
    then show ?thesis unfolding region_cell [OF ft v True] using D j by linarith
  next
    case False
    have "entry_cell s v = 0 + 4 * (v div 4096 mod 1024)" by (rule entry_cell_at [OF v]) (simp_all add: other [OF i False])
    then show ?thesis using D j by linarith
  qed
  then show "entry_cell s v0 + 4 \<le> D \<or> L \<le> entry_cell s v0 \<or> (\<exists>t\<in>{}. t \<le> entry_cell s v0 \<and> entry_cell s v0 + 4 \<le> t + 4096)"
    unfolding e by simp
qed

text \<open>The first page of the heap is not mapped yet, and its table is one of the three.\<close>

lemma heap_page_fresh:
  assumes bt: "booted l b" and D: "D = unat (BSS_END_VMA l) + 0x6000"
  shows "D = 4096 * (D div 4096)" and "D + 0x800000 \<le> 2 ^ 32" and "0 < D" and "D div 4096 \<in> mapped_pages"
    and "kernel_heap_end_vma (kernel_view l b) = word_of_nat D"
    and "align (kernel_heap_end_vma (kernel_view l b)) KM_MIN_ALLOC_SIZE = word_of_nat D"
    and "\<not> page_is_present (kernel_view l b) (word_of_nat D)"
proof -
  let ?s = "kernel_view l b"
  from bootedD(1) [OF bt] obtain e q r n where n: "q + 3 \<le> e" "e + n + 3 < 1024" "unat (BSS_END_VMA l) = 0xE0000000 + 4096 * n"
      "image_pages l = n" "unat (INIT_BSS_END l) = 4096 * e" "text_pages l = r" "r \<le> n"
    by (rule image_okE)
  have Dn: "D = 4096 * (0xE0000 + n + 6)" using D n(3) by simp
  then have Dp: "D div 4096 = 0xE0000 + n + 6" by simp
  show D32: "D = 4096 * (D div 4096)" "D + 0x800000 \<le> 2 ^ 32" "0 < D" using n(2) unfolding Dn by simp_all
  have "(0xE0000 + n + 6) div 1024 = (896 :: nat)" using n(1,2) by (intro div_nat_eqI) simp_all
  then show inp: "D div 4096 \<in> mapped_pages" unfolding Dp mapped_pages_def mapped_regions_def using n(1,2) by simp
  show he: "kernel_heap_end_vma ?s = word_of_nat D"
    by (rule unat_eq_word) (simp add: first_tables_boot(2) [OF bt] D)
  have cD: "entry_cell ?s D = entry_cell ?s (4096 * (D div 4096))" unfolding D32(1) [symmetric] ..
  have "cell (mem ?s) (entry_cell ?s D) = boot_entry l (D div 4096)"
    using first_tables_boot(3) [OF bt inp] unfolding entry_of_def cD .
  also have "\<dots> = 0" unfolding Dp boot_entry_def Let_def n(4-6) using n(1,2,7) by simp
  finally show "\<not> page_is_present ?s (word_of_nat D)" by (simp add: present_cell [OF refl])
  have u: "unat (word_of_nat D :: u32) = D" using D32(2) by (intro unat_of_nat32) simp
  have "(8 * k + 7) div 8 * 8 = 8 * k" for k :: nat by simp
  from this [of "512 * (0xE0000 + n + 6)"] have "(D + 7) div 8 * 8 = D" unfolding Dn by simp
  then show "align (kernel_heap_end_vma ?s) KM_MIN_ALLOC_SIZE = word_of_nat D"
    unfolding he KM_MIN_ALLOC_SIZE_def using align_word8 [of "word_of_nat D"] D32(2) unfolding u by simp
qed

lemma cleanup_init:
  assumes bt: "booted l b" and D: "D = unat (BSS_END_VMA l) + 0x6000"
  shows "\<exists>s1. kmalloc_init depth (kernel_heap_end_vma (kernel_view l b)) (kernel_view l b) = Inr s1 \<and>
    cleared s1 D TOP [] {} s1 \<and> first_tables s1 D \<and> page_dir s1 = page_dir (kernel_view l b) \<and>
    page_table_lookup s1 = page_table_lookup (kernel_view l b) \<and>
    kernel_heap_end_pma s1 = word_of_nat (first_table l + 0x4000) \<and> get_page_first_run s1 \<and>
    (\<forall>p\<in>mapped_pages. entry_of s1 p =
       (if p = D div 4096 then word_of_nat (first_table l + 0x3000) OR PAGE_WRITE OR PAGE_PRESENT else boot_entry l p))"
proof -
  let ?s = "kernel_view l b"
  note ft = first_tables_boot(1) [OF bt, folded D] and hp = heap_page_fresh [OF bt D]
  let ?c = "entry_cell ?s D" and ?x = "word_of_nat (first_table l + 0x3000) OR PAGE_WRITE OR PAGE_PRESENT :: u32"
  have cD: "entry_cell ?s D = entry_cell ?s (4096 * (D div 4096))" unfolding hp(1) [symmetric] ..
  have D32: "D < 2 ^ 32" using hp(2) by simp
  let ?t0 = "?s\<lparr>kernel_heap_end_pma := kernel_heap_end_pma ?s + PAGE_SIZE\<rparr>"
  let ?s1 = "(wr (word_of_nat D) 0 (wr (word_of_nat ?c) ?x ?t0))
    \<lparr>kernel_ctxt := \<lparr>ac_free_list = 0, ac_start = word_of_nat D, ac_end = word_of_nat D + DESC_SIZE\<rparr>\<rparr>"
  have pma: "kernel_heap_end_pma ?s = word_of_nat (first_table l + 0x3000)"
    using bootedD(7) [OF bt] by (simp add: kernel_view_def del: of_nat_add)
  have nolist: "page_free_list ?s = 0" by (simp add: kernel_view_def)
  have st: "page_set_entry (word_of_nat D) ?x ?t0 = wr (word_of_nat ?c) ?x ?t0"
    unfolding page_set_entry_def entry_word [symmetric] entry_cell_cong [of ?t0 ?s, simplified] ..
  have run: "kmalloc_init depth (kernel_heap_end_vma ?s) ?s = Inr ?s1"
    unfolding kmalloc_init_def alloc_new_heap_def Let_def hp(6) using hp(5,7) page_new_bump [OF nolist, of depth] st
    by (simp add: page_bump_def pma del: of_nat_add)
  have lk: "page_table_lookup ?s1 = page_table_lookup ?s" by simp
  have ft1: "first_tables ?s1 D" using ft by (simp add: first_tables_def)
  have cltD: "?c < D" unfolding cD by (rule region_bounds(2) [OF ft]) (use page_regions [OF hp(4)] in simp_all)
  have ent: "entry_of ?s1 p = (if p = D div 4096 then ?x else boot_entry l p)" if p: "p \<in> mapped_pages" for p
  proof -
    have i: "?c = entry_cell ?s (4096 * p) \<longleftrightarrow> D div 4096 = p" unfolding cD by (rule page_inj [OF ft hp(4) p])
    have "entry_cell ?s (4096 * p) < D" by (rule region_bounds(2) [OF ft]) (use page_regions [OF p] in simp_all)
    then have "entry_of ?s1 p = (if ?c = entry_cell ?s (4096 * p) then ?x else entry_of ?s p)"
      unfolding entry_of_def entry_cell_cong [OF lk] using D32 by (simp add: cell_upd)
    then show ?thesis using i first_tables_boot(3) [OF bt p] by auto
  qed
  have "8 dvd D" by (subst hp(1)) (rule dvd_mult2, simp)
  moreover have "cell (mem ?s1) D = 0" using D32 by (simp add: cell_upd)
  ultimately have "heap_ok ?s1 D [] []"
    using hp(2,3) unfolding heap_ok_def heap_at_def by (simp add: coalesced_def DESC_SIZE_def)
  moreover have "tables_in ?s1 D TOP {}"
    by (rule tables_below [OF ft1]) (use view_lookup [OF bt] in \<open>auto simp: mapped_regions_def\<close>)
  ultimately have mem: "mem_ok ?s1 D TOP {} [] []"
    using nolist by (auto simp: mem_ok_def table_blocks_def TOP_def)
  have "frame_of [] ?s1 [] i = frame_seq (kernel_heap_end_pma ?s1) [] i" for i
    by (simp add: frame_of_def frame_seq_def)
  then have "cleared ?s1 D TOP [] {} ?s1"
    unfolding cleared_def using mem by (intro conjI exI [of _ "[]"]) auto
  moreover have "kernel_heap_end_pma ?s1 = word_of_nat (first_table l + 0x4000)" by (simp add: pma PAGE_SIZE_def)
  ultimately show ?thesis using run ft1 ent by (intro exI [of _ ?s1]) (simp add: kernel_view_def)
qed

section \<open>The page tables of the kernel\<close>

text \<open>
  The tables are aligned blocks of the heap, two pages apart, as each is followed by a descriptor that begins
  a new page; \<open>f\<close> numbers the frames in the order they are taken, two for each table.
\<close>

definition table_at :: "nat \<Rightarrow> nat \<Rightarrow> nat" where
  "table_at D i = D + 4096 + 8192 * i"

definition tabled :: "kstate \<Rightarrow> nat \<Rightarrow> (nat \<Rightarrow> u32) \<Rightarrow> nat \<Rightarrow> nat \<Rightarrow> kstate \<Rightarrow> bool" where
  "tabled s D f m c t \<longleftrightarrow> (\<exists>cs ps. mem_ok t D TOP (table_at D ` {..<c}) cs ps \<and>
     clients D cs ps = table_blocks (table_at D ` {..<c}) \<and> length ps = m - 2 * c \<and>
     (if c = 0 then total cs \<le> 4064 else D + total cs + 4096 = table_at D c) \<and>
     (\<forall>i. frame_of [] t ps i = f (2 * c + i))) \<and>
     get_page_first_run t = get_page_first_run s \<and>
     (\<forall>i<1024. page_table_lookup t (word_of_nat i) =
        (if 897 \<le> i \<and> i < 897 + c then word_of_nat (table_at D (i - 897)) else page_table_lookup s (word_of_nat i))) \<and>
     (\<forall>i<1024. page_dir t (word_of_nat i) =
        (if 897 \<le> i \<and> i < 897 + c then f (2 * (i - 897)) OR PAGE_PRESENT OR PAGE_WRITE else page_dir s (word_of_nat i))) \<and>
     (\<forall>p\<in>mapped_pages. entry_of t p =
        (if D div 4096 + 1 \<le> p \<and> p < D div 4096 + 1 + 2 * c then f (p - (D div 4096 + 1)) OR PAGE_WRITE OR PAGE_PRESENT
         else entry_of s p))"

lemma tabledD:
  assumes "tabled s D f m c t"
  shows "i < 1024 \<Longrightarrow> page_table_lookup t (word_of_nat i) =
        (if 897 \<le> i \<and> i < 897 + c then word_of_nat (table_at D (i - 897)) else page_table_lookup s (word_of_nat i))"
    and "i < 1024 \<Longrightarrow> page_dir t (word_of_nat i) =
        (if 897 \<le> i \<and> i < 897 + c then f (2 * (i - 897)) OR PAGE_PRESENT OR PAGE_WRITE else page_dir s (word_of_nat i))"
    and "p \<in> mapped_pages \<Longrightarrow> entry_of t p =
        (if D div 4096 + 1 \<le> p \<and> p < D div 4096 + 1 + 2 * c then f (p - (D div 4096 + 1)) OR PAGE_WRITE OR PAGE_PRESENT
         else entry_of s p)"
    and "get_page_first_run t = get_page_first_run s"
  using assms unfolding tabled_def by auto

lemma tabledE:
  assumes "tabled s D f m c t"
  obtains cs ps where "mem_ok t D TOP (table_at D ` {..<c}) cs ps"
    "clients D cs ps = table_blocks (table_at D ` {..<c})" "length ps = m - 2 * c"
    "if c = 0 then total cs \<le> 4064 else D + total cs + 4096 = table_at D c" "\<And>i. frame_of [] t ps i = f (2 * c + i)"
  using assms unfolding tabled_def by blast

text \<open>Where the next table goes, and that the gap before it is large enough.\<close>

lemma next_table:
  assumes "4096 dvd D" and "if c = 0 then total cs \<le> 4064 else D + total cs + 4096 = table_at D c"
  shows "aligned_end 12 (D + total cs + 8) = table_at D c" and "gap_of 12 (D + total cs + 8) \<noteq> 8"
proof -
  have "aligned_end 12 (D + total cs + 8) = table_at D c \<and> D + total cs + 24 \<le> table_at D c"
  proof (cases "c = 0")
    case True
    then have "aligned_end 12 (D + (total cs + 8)) = D + 4096" using assms by (intro aligned_end_page) simp_all
    then show ?thesis using True assms(2) by (simp add: table_at_def add.assoc)
  next
    case False
    then have e: "D + total cs + 4096 = table_at D c" using assms(2) by simp
    have "4096 dvd table_at D c" using assms(1) by (simp add: table_at_def)
    then have "4096 dvd D + total cs" unfolding e [symmetric] by (metis dvd_add_left_iff dvd_refl)
    then have "aligned_end 12 (D + total cs + 8) = D + total cs + 4096" by (intro aligned_end_page) simp_all
    then show ?thesis using e by simp
  qed
  then show "aligned_end 12 (D + total cs + 8) = table_at D c" "gap_of 12 (D + total cs + 8) \<noteq> 8"
    unfolding gap_of_def by linarith+
qed

lemma first_tables_cong:
  assumes "first_tables s D" and "\<And>i. i \<in> {0, 896, 1023} \<Longrightarrow> page_table_lookup t (word_of_nat i) = page_table_lookup s (word_of_nat i)"
  shows "first_tables t D"
  using assms(1) assms(2) [of 0] assms(2) [of 896] assms(2) [of 1023] by (simp add: first_tables_def)

text \<open>Two pages are mapped, each to its own frame.\<close>

lemma table_pages:
  assumes ft: "first_tables t D" and p: "p \<in> mapped_pages" "Suc p \<in> mapped_pages"
    and g: "pages_mapped f t (4096 * p) (pages_needed (4096 * p) 4096)"
  shows "entry_of t p = f 0 OR PAGE_WRITE OR PAGE_PRESENT" and "entry_of t (Suc p) = f 1 OR PAGE_WRITE OR PAGE_PRESENT"
proof -
  have e: "4096 * p + 4096 = 4096 * Suc p" by simp
  have ne: "entry_cell t (4096 * p) \<noteq> entry_cell t (4096 * p + 4096)" unfolding e using page_inj [OF ft p] by simp
  show "entry_of t p = f 0 OR PAGE_WRITE OR PAGE_PRESENT" "entry_of t (Suc p) = f 1 OR PAGE_WRITE OR PAGE_PRESENT"
    using mapped_pair [OF _ ne g] unfolding entry_of_def e by simp_all
qed

lemma cleanup_table_new:
  assumes "page_dir s i AND PAGE_PRESENT = 0"
    and "kalloc (page_new depth) PAGE_SIZE PAGE_SIZE s = Inr (word_of_nat A, s1)"
    and "page_get_dir_idx (word_of_nat A) \<noteq> i"
  shows "cleanup_table depth i s = Inr (s1\<lparr>page_table_lookup := (page_table_lookup s1)(i := word_of_nat A),
    page_dir := (page_dir s1)(i := (cell (mem s1) (entry_cell s1 A) AND NOT 0xfff) OR PAGE_PRESENT OR PAGE_WRITE)\<rparr>)"
proof -
  let ?s2 = "s1\<lparr>page_table_lookup := (page_table_lookup s1)(i := word_of_nat A)\<rparr>"
  have "entry_addr ?s2 (word_of_nat A) = entry_addr s1 (word_of_nat A)"
    using assms(3) by (simp add: entry_addr_def page_get_table_def Let_def)
  then have "page_get_pma ?s2 (word_of_nat A) = cell (mem s1) (entry_cell s1 A) AND NOT 0xfff"
    unfolding page_get_pma_def cell_def entry_word by simp
  then show ?thesis using assms(1,2) by (simp add: cleanup_table_def Let_def)
qed

lemma frame_flags:
  assumes "x AND NOT 0xfff = (x :: u32)"
  shows "(x OR PAGE_WRITE OR PAGE_PRESENT) AND NOT 0xfff = x"
proof -
  have "(x OR PAGE_WRITE OR PAGE_PRESENT) AND NOT 0xfff = (x AND NOT 0xfff) OR ((PAGE_WRITE OR PAGE_PRESENT) AND NOT 0xfff)"
    by (rule bit_word_eqI) (auto simp: bit_simps)
  also have "(PAGE_WRITE OR PAGE_PRESENT) AND NOT 0xfff = (0 :: u32)"
    by (simp add: PAGE_WRITE_def PAGE_PRESENT_def)
  finally show ?thesis using assms by simp
qed

text \<open>A page for the next table, and what its two pages are mapped to.\<close>

lemma table_place:
  assumes ft: "first_tables s D" and D: "D + 4096 + 8192 * 126 \<le> 0xE0400000" and c: "c < 126"
  shows "table_at D c = 4096 * (D div 4096 + 1 + 2 * c)" "table_at D c + 4096 = 4096 * Suc (D div 4096 + 1 + 2 * c)"
    and "D div 4096 + 1 + 2 * c \<in> mapped_pages" "Suc (D div 4096 + 1 + 2 * c) \<in> mapped_pages"
    and "table_at D c + 8192 \<le> 0xE0400000" "0xE0000000 \<le> table_at D c" "table_at D c div 4194304 = 896"
proof -
  have dv: "4096 dvd D" "0xE0006000 \<le> D" using ft by (simp_all add: first_tables_def)
  show A: "table_at D c + 8192 \<le> 0xE0400000" "0xE0000000 \<le> table_at D c" using D c dv(2) by (simp_all add: table_at_def)
  show Ap: "table_at D c = 4096 * (D div 4096 + 1 + 2 * c)" "table_at D c + 4096 = 4096 * Suc (D div 4096 + 1 + 2 * c)"
    using dv(1) by (auto simp: table_at_def elim!: dvdE)
  have "p div 1024 = 896" if "0xE0000 \<le> p" "p < 0xE0400" for p :: nat using that by (intro div_nat_eqI) simp_all
  then show "D div 4096 + 1 + 2 * c \<in> mapped_pages" "Suc (D div 4096 + 1 + 2 * c) \<in> mapped_pages"
    using A Ap by (auto simp: mapped_pages_def mapped_regions_def)
  show "table_at D c div 4194304 = 896" using A by (intro div_nat_eqI) simp_all
qed

lemma table_alloc:
  assumes tb: "tabled s D f m c t" and c: "c < 126" and ft: "first_tables s D" and D: "D + 4096 + 8192 * 126 \<le> 0xE0400000"
  shows "\<exists>t1 cs ps. kalloc (page_new (Suc depth)) PAGE_SIZE PAGE_SIZE t = Inr (word_of_nat (table_at D c), t1) \<and>
    mem_ok t1 D TOP (table_at D ` {..<c}) cs ps \<and> clients D cs ps = table_blocks (table_at D ` {..<Suc c}) \<and>
    D + total cs = table_at D c + 4096 \<and> length ps = m - 2 * Suc c \<and> (\<forall>i. frame_of [] t1 ps i = f (2 * Suc c + i)) \<and>
    page_table_lookup t1 = page_table_lookup t \<and> page_dir t1 = page_dir t \<and> get_page_first_run t1 = get_page_first_run s \<and>
    first_tables t1 D \<and> (\<forall>p\<in>mapped_pages. entry_of t1 p =
      (if D div 4096 + 1 \<le> p \<and> p < D div 4096 + 1 + 2 * Suc c then f (p - (D div 4096 + 1)) OR PAGE_WRITE OR PAGE_PRESENT
       else entry_of s p))"
proof -
  let ?A = "table_at D c" and ?tb = "table_at D ` {..<c}" and ?P = "D div 4096 + 1"
  obtain cs ps where k: "mem_ok t D TOP ?tb cs ps" "clients D cs ps = table_blocks ?tb" "length ps = m - 2 * c"
      "if c = 0 then total cs \<le> 4064 else D + total cs + 4096 = ?A" "\<And>i. frame_of [] t ps i = f (2 * c + i)"
    using tb by (rule tabledE) blast
  have dv: "4096 dvd D" using ft by (simp add: first_tables_def)
  note nt = next_table [OF dv k(4)] and pl = table_place [OF ft D c]
  have ftt: "first_tables t D"
    by (rule first_tables_cong [OF ft]) (use tabledD(1) [OF tb, of 0] tabledD(1) [OF tb, of 896] tabledD(1) [OF tb, of 1023] c in auto)
  have lim: "D + total cs + 8224 \<le> TOP" using aligned_end_ge [of "D + total cs + 8" 12] nt(1) pl(5) by (simp add: TOP_def)
  obtain t1 cs' ps' where g: "alloc (page_new (Suc depth)) PAGE_SIZE PAGE_SIZE t = Inr (word_of_nat ?A, t1)"
      "mem_ok t1 D TOP ?tb cs' ps'" "mem_grant t D ?tb cs ps ?A 4096 t1 cs' ps'" "D + total cs' = ?A + 4096"
      "entries_but {entry_cell t ?A, entry_cell t (?A + 4096)} t t1" "gets_pages [] t ps [] t1 ps' ?A 4096"
    using kernel_pages.page_mem [OF k(1) nt(2) lim, of depth] unfolding nt(1) by blast
  note mg = mem_grantD [OF g(3)]
  have lk: "page_table_lookup t1 = page_table_lookup t" "page_dir t1 = page_dir t"
    using mg(7) by (simp_all add: page_env_def)
  have ft1: "first_tables t1 D" using ftt lk(1) by (simp add: first_tables_def)
  have pn: "pages_needed ?A 4096 = 2" using pages_of_page(2) [of ?A] unfolding pl(1) by simp
  have tk: "takes 2 [] t ps [] t1 ps'" using g(6) unfolding gets_pages_def pn by simp
  have two: "entry_of t1 (?P + 2 * c) = f (2 * c) OR PAGE_WRITE OR PAGE_PRESENT"
    "entry_of t1 (Suc (?P + 2 * c)) = f (Suc (2 * c)) OR PAGE_WRITE OR PAGE_PRESENT"
    using table_pages [OF ft1 pl(3,4), of "frame_of [] t ps"] g(6) k(5) unfolding gets_pages_def pl(1) by simp_all
  have ent: "entry_of t1 p = (if ?P \<le> p \<and> p < ?P + 2 * Suc c then f (p - ?P) OR PAGE_WRITE OR PAGE_PRESENT else entry_of s p)"
    if p: "p \<in> mapped_pages" for p
  proof -
    consider "p = ?P + 2 * c" | "p = Suc (?P + 2 * c)" | "p \<noteq> ?P + 2 * c" "p \<noteq> Suc (?P + 2 * c)" by blast
    then show ?thesis
    proof cases
      case 3
      then have "entry_cell t (4096 * p) \<notin> {entry_cell t ?A, entry_cell t (?A + 4096)}"
        unfolding pl(1,2) using page_inj [OF ftt p pl(3)] page_inj [OF ftt p pl(4)] by simp
      from entries_butD [OF g(5) this] have "entry_of t1 p = entry_of t p"
        unfolding entry_of_def entry_cell_cong [OF lk(1)] .
      moreover have "?P \<le> p \<and> p < ?P + 2 * Suc c \<longleftrightarrow> ?P \<le> p \<and> p < ?P + 2 * c" using 3 by auto
      ultimately show ?thesis using tabledD(3) [OF tb p] by simp
    qed (use two in simp_all)
  qed
  have "frame_of [] t1 ps' i = f (2 * Suc c + i)" for i
    using takesD(1) [OF tk, of i] k(5) [of "2 + i"] by (simp add: add.assoc)
  moreover have "length ps' = m - 2 * Suc c" using takesD(2) [OF tk] k(3) by simp
  moreover have "clients D cs' ps' = table_blocks (table_at D ` {..<Suc c})"
    using mg(1) k(2) by (simp add: table_blocks_def lessThan_Suc)
  moreover have "get_page_first_run t1 = get_page_first_run s" using takesD(3) [OF tk] tabledD(4) [OF tb] by simp
  ultimately show ?thesis
    using g(1,2,4) lk ft1 ent by (intro exI [of _ t1] exI [of _ cs'] exI [of _ ps']) (simp add: kalloc_def)
qed

lemma cleanup_table_step:
  assumes tb: "tabled s D f m c t" and c: "c < 126" and ft: "first_tables s D" and D: "D + 4096 + 8192 * 126 \<le> 0xE0400000"
    and absent: "page_dir s (word_of_nat (897 + c)) AND PAGE_PRESENT = 0" and f: "\<And>i. f i AND NOT 0xfff = f i"
  shows "\<exists>t'. cleanup_table (Suc depth) (word_of_nat (897 + c)) t = Inr t' \<and> tabled s D f m (Suc c) t'"
proof -
  let ?A = "table_at D c" and ?i = "word_of_nat (897 + c) :: u32" and ?P = "D div 4096 + 1"
  note pl = table_place [OF ft D c]
  obtain t1 cs ps where g: "kalloc (page_new (Suc depth)) PAGE_SIZE PAGE_SIZE t = Inr (word_of_nat ?A, t1)"
      "mem_ok t1 D TOP (table_at D ` {..<c}) cs ps" "clients D cs ps = table_blocks (table_at D ` {..<Suc c})"
      "D + total cs = ?A + 4096" "length ps = m - 2 * Suc c" "\<And>i. frame_of [] t1 ps i = f (2 * Suc c + i)"
      "page_table_lookup t1 = page_table_lookup t" "page_dir t1 = page_dir t"
      "get_page_first_run t1 = get_page_first_run s" "first_tables t1 D"
      "\<And>p. p \<in> mapped_pages \<Longrightarrow> entry_of t1 p =
        (if ?P \<le> p \<and> p < ?P + 2 * Suc c then f (p - ?P) OR PAGE_WRITE OR PAGE_PRESENT else entry_of s p)"
    using table_alloc [OF tb c ft D, of depth] by blast
  have ne: "word_of_nat i = ?i \<longleftrightarrow> i = 897 + c" if "i < 1024" for i
    using that c by (intro word_of_nat_eq_iff32) simp_all
  have "page_get_dir_idx (word_of_nat ?A) = word_of_nat 896" using idx_of_nat(1) [of ?A] pl(5,7) by simp
  then have di: "page_get_dir_idx (word_of_nat ?A) \<noteq> ?i" using ne [of 896] by simp
  have abs: "page_dir t ?i AND PAGE_PRESENT = 0" using absent tabledD(2) [OF tb, of "897 + c"] c by simp
  let ?t = "t1\<lparr>page_table_lookup := (page_table_lookup t1)(?i := word_of_nat ?A),
    page_dir := (page_dir t1)(?i := f (2 * c) OR PAGE_PRESENT OR PAGE_WRITE)\<rparr>"
  have "entry_of t1 (?P + 2 * c) = f (2 * c) OR PAGE_WRITE OR PAGE_PRESENT" using g(11) [OF pl(3)] by simp
  then have "cell (mem t1) (entry_cell t1 ?A) AND NOT 0xfff = f (2 * c)"
    using f frame_flags unfolding entry_of_def pl(1) [symmetric] by simp
  then have run: "cleanup_table (Suc depth) ?i t = Inr ?t" using cleanup_table_new [OF abs g(1) di] by simp
  have "(?A, 4096) \<in> clients D cs ps" "4096 dvd ?A" unfolding g(3) pl(1) by (simp_all add: table_blocks_def lessThan_Suc pl(1))
  then have mem: "mem_ok ?t D TOP (table_at D ` {..<Suc c}) cs ps"
    unfolding lessThan_Suc image_insert by (rule mem_new_table [OF g(2), where i = ?i]) simp_all
  have lk: "page_table_lookup ?t (word_of_nat i) =
      (if 897 \<le> i \<and> i < 897 + Suc c then word_of_nat (table_at D (i - 897)) else page_table_lookup s (word_of_nat i))"
    "page_dir ?t (word_of_nat i) =
      (if 897 \<le> i \<and> i < 897 + Suc c then f (2 * (i - 897)) OR PAGE_PRESENT OR PAGE_WRITE else page_dir s (word_of_nat i))"
    if "i < 1024" for i
    using tabledD(1,2) [OF tb that] ne [OF that] by (auto simp: g(7,8))
  have ft': "first_tables ?t D"
    by (rule first_tables_cong [OF g(10)]) (use ne [of 0] ne [of 896] ne [of 1023] c in auto)
  have ent: "entry_of ?t p = entry_of t1 p" if p: "p \<in> mapped_pages" for p
  proof -
    note r = conjunct1 [OF page_regions [OF p]] conjunct2 [OF page_regions [OF p]]
    show ?thesis unfolding entry_of_def region_cell [OF ft' r] region_cell [OF g(10) r] by simp
  qed
  have fo: "frame_of [] ?t ps i = f (2 * Suc c + i)" for i
    unfolding g(6) [symmetric] by (simp add: frame_of_def Let_def)
  have "D + total cs + 4096 = table_at D (Suc c)" using g(4) by (simp add: table_at_def)
  then have "tabled s D f m (Suc c) ?t"
    unfolding tabled_def using mem g(3,5,9,11) fo lk ent by (intro conjI exI [of _ cs] exI [of _ ps]) auto
  then show ?thesis using run by blast
qed

lemma page_frame: "(word_of_nat (4096 * p) :: u32) AND NOT 0xfff = word_of_nat (4096 * p)"
proof -
  have u: "unat (word_of_nat (4096 * p) :: u32) = 4096 * (p mod 2 ^ 20)"
    using mult_mod_right [of 4096 p "2 ^ 20"] by (simp add: unat_of_nat del: of_nat_mult)
  have "unat ((word_of_nat (4096 * p) :: u32) AND NOT (mask 12)) = unat (word_of_nat (4096 * p) :: u32)"
    unfolding unat_and_not_mask u by simp
  then show ?thesis unfolding mask_fff by (rule unsigned_word_eqI)
qed

lemma cleanup_tables_loop:
  assumes tb: "tabled s D f m 0 s" and ft: "first_tables s D" and D: "D + 4096 + 8192 * 126 \<le> 0xE0400000"
    and absent: "\<And>c. c < 126 \<Longrightarrow> page_dir s (word_of_nat (897 + c)) AND PAGE_PRESENT = 0"
    and present: "page_dir s 896 AND PAGE_PRESENT \<noteq> 0" "page_dir s 1023 AND PAGE_PRESENT \<noteq> 0"
    and f: "\<And>i. f i AND NOT 0xfff = f i"
  shows "\<exists>t. for_loop 1 (cleanup_table (Suc depth)) 896 PAGE_ENTRIES s = Some (Inr t) \<and> tabled s D f m 126 t"
proof -
  let ?I = "\<lambda>j t. tabled s D f m (min (j - 1) 126) t"
  have idx: "896 + word_of_nat j * 1 = (word_of_nat (896 + j) :: u32)" for j by simp
  have "\<exists>t. for_loop 1 (cleanup_table (Suc depth)) 896 PAGE_ENTRIES s = Some (Inr t) \<and> ?I 128 t"
  proof (rule for_loop_rule [where I = ?I])
    show "?I 0 s" using tb by simp
  next
    fix j t assume j: "j < 128" and t: "?I j t"
    consider "j = 0" | "j = 127" | c where "j = Suc c" "c < 126"
    proof (cases j)
      case (Suc c)
      then have "c = 126 \<or> c < 126" using j by linarith
      then show ?thesis using Suc that by auto
    qed (use that in simp)
    then show "\<exists>t'. cleanup_table (Suc depth) (896 + word_of_nat j * 1) t = Inr t' \<and> ?I (Suc j) t'"
    proof cases
      case 1
      then show ?thesis using t present(1) tabledD(2) [OF t, of 896] by (simp add: cleanup_table_def)
    next
      case 2
      then show ?thesis using t present(2) tabledD(2) [OF t, of 1023] by (simp add: cleanup_table_def)
    next
      case (3 c)
      have t': "tabled s D f m c t" using t 3 by simp
      have "896 + word_of_nat j * 1 = (word_of_nat (897 + c) :: u32)" using 3 by simp
      then show ?thesis using cleanup_table_step [OF t' 3(2) ft D absent [OF 3(2)] f, of depth] 3 by simp
    qed
  next
    fix j :: nat assume "j < 128"
    then show "896 + word_of_nat j * 1 < PAGE_ENTRIES"
      unfolding idx PAGE_ENTRIES_def using word_of_nat_less_iff32 [of "896 + j" 1024] by simp
  next
    show "\<not> 896 + word_of_nat 128 * 1 < PAGE_ENTRIES" by (simp add: PAGE_ENTRIES_def)
  qed
  then show ?thesis by simp
qed

section \<open>\<open>page_init_cleanup\<close>\<close>

text \<open>The pages of the init section that are given back: all but \<open>init_page_struct\<close>.\<close>

definition init_pages :: "linker \<Rightarrow> nat list" where
  "init_pages l =
     (let q = unat (init_page_struct_addr l) div 4096 in
      [unat (INIT_START l) div 4096..<q] @ [q + 3..<unat (INIT_BSS_END l) div 4096])"

text \<open>The frames the kernel takes after them, in order.\<close>

definition boot_frames :: "linker \<Rightarrow> nat \<Rightarrow> u32" where
  "boot_frames l = frame_seq (word_of_nat (first_table l + 0x4000)) (init_pages l)"

definition heap_start_page :: "linker \<Rightarrow> nat" where
  "heap_start_page l = unat (BSS_END_VMA l) div 4096 + 6"

text \<open>The entry of every page of the three tables once the init section is gone.\<close>

definition clean_entry :: "linker \<Rightarrow> nat \<Rightarrow> u32" where
  "clean_entry l p =
     (let d = heap_start_page l in
      if unat (INIT_START l) div 4096 \<le> p \<and> p < unat (INIT_BSS_END l) div 4096
      then boot_entry l p AND NOT PAGE_PRESENT
      else if p = d then word_of_nat (first_table l + 0x3000) OR PAGE_WRITE OR PAGE_PRESENT
      else if d + 1 \<le> p \<and> p < d + 1 + 252 then boot_frames l (p - (d + 1)) OR PAGE_WRITE OR PAGE_PRESENT
      else boot_entry l p)"

lemma frames_aligned: "frame_seq (word_of_nat (4096 * h)) xs i AND NOT 0xfff = frame_seq (word_of_nat (4096 * h)) xs i"
proof -
  have "word_of_nat (4096 * h) + word_of_nat k * PAGE_SIZE = (word_of_nat (4096 * (h + k)) :: u32)" for k
    by (rule page_plus)
  then show ?thesis unfolding frame_seq_def by (cases "i < length xs") (simp_all only: page_frame if_True if_False)
qed

text \<open>The two loops over the init section, with \<open>init_page_struct\<close> unmapped between them.\<close>

lemma give_back_init:
  assumes cl: "cleared s D TOP [] {} s" and ft: "first_tables s D" and L: "D + 8192 \<le> TOP"
    and i: "1 \<le> i" "i \<le> q" "q + 3 \<le> e" "e \<le> 1024" and len: "q - i + (e - (q + 3)) \<le> 254"
    and fr: "\<And>p. p \<in> {i..<e} \<Longrightarrow> entry_of s p AND NOT 0xfff = word_of_nat (4096 * p)"
  shows "\<exists>t t' u. for_loop PAGE_SIZE (counted (cleanup_page (Suc depth))) (word_of_nat (4096 * i)) (word_of_nat (4096 * q))
      (word_of_nat (4096 * i), s) = Some (Inr (word_of_nat (4096 * q), t)) \<and>
    fold (\<lambda>j (i, s). (i + PAGE_SIZE, page_unmap i s)) [0..<3::nat] (word_of_nat (4096 * q), t) = (word_of_nat (4096 * (q + 3)), t') \<and>
    for_loop PAGE_SIZE (counted (cleanup_page (Suc depth))) (word_of_nat (4096 * (q + 3))) (word_of_nat (4096 * e))
      (word_of_nat (4096 * (q + 3)), t') = Some (Inr (word_of_nat (4096 * e), u)) \<and>
    cleared s D TOP ([i..<q] @ [q + 3..<e]) {i..<e} u"
proof -
  have e: "i + (q - i) = q" "q + 3 + (e - (q + 3)) = e" using i by simp_all
  have "\<exists>t. for_loop PAGE_SIZE (counted (cleanup_page (Suc depth))) (word_of_nat (4096 * i)) (word_of_nat (4096 * (i + (q - i))))
      (word_of_nat (4096 * i), s) = Some (Inr (word_of_nat (4096 * (i + (q - i))), t)) \<and>
    cleared s D TOP ([] @ [i..<i + (q - i)]) ({} \<union> {i..<i + (q - i)}) t"
    by (rule cleanup_loop [OF cl ft _ _ _ fr _ L]) (use i len in auto)
  then obtain t where t: "for_loop PAGE_SIZE (counted (cleanup_page (Suc depth))) (word_of_nat (4096 * i)) (word_of_nat (4096 * q))
      (word_of_nat (4096 * i), s) = Some (Inr (word_of_nat (4096 * q), t))" "cleared s D TOP [i..<q] {i..<q} t"
    unfolding e append_Nil Un_empty_left by blast
  let ?u1 = "page_unmap (word_of_nat (4096 * q)) t" let ?u2 = "page_unmap (word_of_nat (4096 * (q + 1))) ?u1"
  let ?u3 = "page_unmap (word_of_nat (4096 * (q + 2))) ?u2"
  have l1: "length [i..<q] \<le> 254" using len by simp
  have "cleared s D TOP [i..<q] (insert q {i..<q}) ?u1" by (rule unmap_step [OF t(2) ft _ _ l1 L]) (use i in simp_all)
  then have "cleared s D TOP [i..<q] (insert (q + 1) (insert q {i..<q})) ?u2"
    by (rule unmap_step [OF _ ft _ _ l1 L]) (use i in simp_all)
  then have "cleared s D TOP [i..<q] (insert (q + 2) (insert (q + 1) (insert q {i..<q}))) ?u3"
    by (rule unmap_step [OF _ ft _ _ l1 L]) (use i in simp_all)
  moreover have "insert (q + 2) (insert (q + 1) (insert q {i..<q})) = {i..<q + 3}" using i(2) by auto
  ultimately have u3: "cleared s D TOP [i..<q] {i..<q + 3} ?u3" by simp
  have "\<exists>u. for_loop PAGE_SIZE (counted (cleanup_page (Suc depth))) (word_of_nat (4096 * (q + 3)))
      (word_of_nat (4096 * (q + 3 + (e - (q + 3))))) (word_of_nat (4096 * (q + 3)), ?u3) =
      Some (Inr (word_of_nat (4096 * (q + 3 + (e - (q + 3)))), u)) \<and>
    cleared s D TOP ([i..<q] @ [q + 3..<q + 3 + (e - (q + 3))]) ({i..<q + 3} \<union> {q + 3..<q + 3 + (e - (q + 3))}) u"
    by (rule cleanup_loop [OF u3 ft _ _ _ fr _ L]) (use i len in auto)
  moreover have "{i..<q + 3} \<union> {q + 3..<e} = {i..<e}" using i by auto
  ultimately obtain u where u: "for_loop PAGE_SIZE (counted (cleanup_page (Suc depth))) (word_of_nat (4096 * (q + 3)))
      (word_of_nat (4096 * e)) (word_of_nat (4096 * (q + 3)), ?u3) = Some (Inr (word_of_nat (4096 * e), u))"
      "cleared s D TOP ([i..<q] @ [q + 3..<e]) {i..<e} u"
    unfolding e by auto
  have "fold (\<lambda>j (i, s). (i + PAGE_SIZE, page_unmap i s)) [0..<3::nat] (word_of_nat (4096 * q), t) =
      (word_of_nat (4096 * (q + 3)), ?u3)"
    by (simp add: upt_rec PAGE_SIZE_def algebra_simps)
  then show ?thesis using t(1) u by (intro exI [of _ t] exI [of _ ?u3] exI [of _ u] conjI)
qed

text \<open>Then the kernel's tables are made, with the pages given back and those after them.\<close>

lemma make_tables:
  assumes cl: "cleared s D TOP xs U t" and ft: "first_tables s D" and D: "D + 4096 + 8192 * 126 \<le> 0xE0400000" and few: "length xs \<le> 254"
    and pma: "kernel_heap_end_pma s = word_of_nat (4096 * P)"
    and dir: "\<And>j. j < 1024 \<Longrightarrow> page_dir s (word_of_nat j) AND PAGE_PRESENT \<noteq> 0 \<longleftrightarrow> j \<in> {0, 896, 1023}"
  shows "\<exists>u. for_loop 1 (cleanup_table (Suc depth)) 896 PAGE_ENTRIES t = Some (Inr u) \<and>
    tabled t D (frame_seq (kernel_heap_end_pma s) xs) (length xs) 126 u \<and> first_tables t D \<and>
    get_page_first_run t = get_page_first_run s"
proof -
  let ?f = "frame_seq (kernel_heap_end_pma s) xs"
  obtain cs ps where c: "mem_ok t D TOP {} cs ps" "clients D cs ps = {}" "total cs \<le> 16 * length xs" "page_env s t"
      "get_page_first_run t = get_page_first_run s" "\<And>i. frame_of [] t ps i = ?f i" "length ps = length xs"
    using cl by (rule clearedE) blast
  have lk: "page_table_lookup t = page_table_lookup s" "page_dir t = page_dir s" using c(4) by (simp_all add: page_env_def)
  have ftt: "first_tables t D" using ft lk(1) by (simp add: first_tables_def)
  have "total cs \<le> 4064" using c(3) few by simp
  then have tb: "tabled t D ?f (length xs) 0 t"
    unfolding tabled_def using c(1,2,6,7) by (intro conjI exI [of _ cs] exI [of _ ps]) (auto simp: table_blocks_def)
  have al: "?f j AND NOT 0xfff = ?f j" for j unfolding pma by (simp only: frames_aligned)
  have "page_dir t (word_of_nat (897 + c)) AND PAGE_PRESENT = 0" if "c < 126" for c
    using dir [of "897 + c"] that unfolding lk by simp
  moreover have "page_dir t 896 AND PAGE_PRESENT \<noteq> 0" "page_dir t 1023 AND PAGE_PRESENT \<noteq> 0"
    using dir [of 896] dir [of 1023] unfolding lk by simp_all
  ultimately show ?thesis using cleanup_tables_loop [OF tb ftt D _ _ _ al, of depth] ftt c(5) by blast
qed

lemma cleanup_ok:
  assumes bt: "booted l b" and low: "0x100000 \<le> unat (INIT_START l)" and few: "length (init_pages l) \<le> 254"
  shows "\<exists>s1 t. page_init_cleanup (Suc depth) l (kernel_view l b) = Inr t \<and>
    tabled s1 (4096 * heap_start_page l) (boot_frames l) (length (init_pages l)) 126 t \<and> get_page_first_run s1 \<and>
    first_tables s1 (4096 * heap_start_page l) \<and>
    (\<forall>p\<in>mapped_pages. entry_of s1 p = 
       (if unat (INIT_START l) div 4096 \<le> p \<and> p < unat (INIT_BSS_END l) div 4096 then boot_entry l p AND NOT PAGE_PRESENT
        else if p = heap_start_page l then word_of_nat (first_table l + 0x3000) OR PAGE_WRITE OR PAGE_PRESENT else boot_entry l p))"
proof -
  let ?D = "4096 * heap_start_page l"
  from bootedD(1) [OF bt] obtain i e q n where n: "unat (INIT_START l) = 4096 * i" "unat (INIT_BSS_END l) = 4096 * e"
      "unat (init_page_struct_addr l) = 4096 * q" "unat (BSS_END_VMA l) = 0xE0000000 + 4096 * n" "i \<le> q" "q + 3 \<le> e"
      "e + n + 3 < 1024" "first_table l = 4096 * (e + n)"
    by (rule image_okE)
  have hp: "heap_start_page l = 0xE0000 + n + 6" unfolding heap_start_page_def n(4) by simp
  have D: "?D = unat (BSS_END_VMA l) + 0x6000" unfolding hp n(4) by simp
  have w: "INIT_START l = word_of_nat (4096 * i)" "INIT_BSS_END l = word_of_nat (4096 * e)"
    "init_page_struct_addr l = word_of_nat (4096 * q)"
    by (rule unat_eq_word, rule n)+
  have ip: "init_pages l = [i..<q] @ [q + 3..<e]" unfolding init_pages_def n(1-3) by simp
  have i256: "256 \<le> i" using low n(1) by simp
  obtain s1 where s1: "kmalloc_init (Suc depth) (kernel_heap_end_vma (kernel_view l b)) (kernel_view l b) = Inr s1"
      "cleared s1 ?D TOP [] {} s1" "first_tables s1 ?D" "page_dir s1 = page_dir (kernel_view l b)"
      "page_table_lookup s1 = page_table_lookup (kernel_view l b)"
      "kernel_heap_end_pma s1 = word_of_nat (first_table l + 0x4000)" "get_page_first_run s1"
      "\<And>p. p \<in> mapped_pages \<Longrightarrow> entry_of s1 p =
       (if p = ?D div 4096 then word_of_nat (first_table l + 0x3000) OR PAGE_WRITE OR PAGE_PRESENT else boot_entry l p)"
    using cleanup_init [OF bt D, of "Suc depth"] by (elim exE conjE) (rule that, (assumption | erule bspec)+)
  have fr: "entry_of s1 p AND NOT 0xfff = word_of_nat (4096 * p)" if p: "p \<in> {i..<e}" for p
  proof -
    have "p < 1024" "p \<noteq> heap_start_page l" using p n(7) unfolding hp by simp_all
    then have "entry_of s1 p = word_of_nat (4096 * p) OR PAGE_WRITE OR PAGE_PRESENT"
      using s1(8) [OF low_page] p unfolding boot_entry_def Let_def n(1,2) by simp
    then show ?thesis using frame_flags [OF page_frame] by simp
  qed
  have L: "?D + 8192 \<le> TOP" "1 \<le> i" "e \<le> 1024" unfolding hp TOP_def using n(7) i256 by simp_all
  have len: "q - i + (e - (q + 3)) \<le> 254" using few unfolding ip by simp
  obtain t t' t4 where t: "for_loop PAGE_SIZE (counted (cleanup_page (Suc depth))) (INIT_START l) (init_page_struct_addr l)
        (INIT_START l, s1) = Some (Inr (init_page_struct_addr l, t))"
      "fold (\<lambda>j (i, s). (i + PAGE_SIZE, page_unmap i s)) [0..<3::nat] (init_page_struct_addr l, t) = (word_of_nat (4096 * (q + 3)), t')"
      "for_loop PAGE_SIZE (counted (cleanup_page (Suc depth))) (word_of_nat (4096 * (q + 3))) (INIT_BSS_END l)
        (word_of_nat (4096 * (q + 3)), t') = Some (Inr (INIT_BSS_END l, t4))" "cleared s1 ?D TOP (init_pages l) {i..<e} t4"
    unfolding w ip using give_back_init [OF s1(2,3) L(1,2) n(5,6) L(3) len fr, of depth] by blast
  have pma: "kernel_heap_end_pma s1 = word_of_nat (4096 * (e + n + 4))" unfolding s1(6) n(8) by (rule arg_cong) simp
  have D2: "?D + 4096 + 8192 * 126 \<le> 0xE0400000" unfolding hp using n(5-7) i256 by simp
  have b0: "bit ((x OR 7) AND PAGE_PRESENT) 0" for x :: u32 by (simp add: PAGE_PRESENT_def bit_simps)
  have p7: "(x OR 7) AND PAGE_PRESENT \<noteq> 0" for x :: u32 using b0 [of x] by auto
  have "page_dir s1 (word_of_nat j) AND PAGE_PRESENT \<noteq> 0 \<longleftrightarrow> j \<in> {0, 896, 1023}" if "j < 1024" for j
    unfolding s1(4) view_dir [OF bt that] using p7 by simp
  from make_tables [OF t(4) s1(3) D2 few pma this, of depth]
  obtain u where u: "for_loop 1 (cleanup_table (Suc depth)) 896 PAGE_ENTRIES t4 = Some (Inr u)"
      "tabled t4 ?D (boot_frames l) (length (init_pages l)) 126 u" "first_tables t4 ?D" "get_page_first_run t4"
    unfolding s1(6) boot_frames_def [symmetric] using s1(7) by blast
  have "KERNEL_START_VMA l = 0xE0000000" using bootedD(1) [OF bt] by (simp add: image_ok_def)
  then have k896: "page_get_dir_idx (KERNEL_START_VMA l) = 896" by (simp add: page_get_dir_idx_def)
  have "page_init_cleanup (Suc depth) l (kernel_view l b) = Inr u"
    unfolding page_init_cleanup_def s1(1) rbind_simps t(1,2) returns_Some prod.case Let_def t(3) k896 u(1) ..
  moreover have "entry_of t4 p = (if unat (INIT_START l) div 4096 \<le> p \<and> p < unat (INIT_BSS_END l) div 4096 then boot_entry l p AND NOT PAGE_PRESENT
        else if p = heap_start_page l then word_of_nat (first_table l + 0x3000) OR PAGE_WRITE OR PAGE_PRESENT else boot_entry l p)"
    if p: "p \<in> mapped_pages" for p
    unfolding cleared_entry [OF t(4) p] s1(8) [OF p] n(1,2) using n(7) hp by auto
  ultimately show ?thesis using u(2-4) by blast
qed

text \<open>The pager finds the frame of each new table.\<close>

lemma table_frame:
  assumes ok: "image_ok l" and low: "0x100000 \<le> unat (INIT_START l)"
    and tb: "tabled s (4096 * heap_start_page l) (boot_frames l) m 126 t" and i: "i \<in> {897..<1023}"
  shows "page_get_pma t (page_table_lookup t (word_of_nat i)) = boot_frames l (2 * (i - 897))"
proof -
  from ok obtain k q e n where n: "unat (BSS_END_VMA l) = 0xE0000000 + 4096 * n" "e + n + 3 < 1024" "first_table l = 4096 * (e + n)"
      "unat (INIT_START l) = 4096 * k" "k \<le> q" "q + 3 \<le> e"
    by (rule image_okE)
  have d: "heap_start_page l = 0xE0000 + n + 6" unfolding heap_start_page_def n(1) by simp
  let ?p = "heap_start_page l + 1 + 2 * (i - 897)"
  have "0xE0000 \<le> ?p" "?p < 0xE0400" using n(2,4-6) i low unfolding d by auto
  then have "?p < 2 ^ 20" "?p div 1024 = 896" by (simp, intro div_nat_eqI) simp_all
  then have p: "?p \<in> mapped_pages" by (simp add: mapped_pages_def mapped_regions_def)
  have lk: "page_table_lookup t (word_of_nat i) = word_of_nat (4096 * ?p)"
    using tabledD(1) [OF tb, of i] i by (simp add: table_at_def)
  have "first_table l + 0x4000 = 4096 * (e + n + 4)" using n(3) by simp
  then have al: "boot_frames l j AND NOT 0xfff = boot_frames l j" for j
    unfolding boot_frames_def by (simp only: frames_aligned)
  have "i - 897 < 126" using i by auto
  then have "entry_of t ?p = boot_frames l (2 * (i - 897)) OR PAGE_WRITE OR PAGE_PRESENT"
    using tabledD(3) [OF tb p] by simp
  then have "entry_of t ?p AND NOT 0xfff = boot_frames l (2 * (i - 897))" using al frame_flags by simp
  then show ?thesis
    unfolding lk page_get_pma_def entry_word [symmetric] entry_of_def by (simp only: cell_def)
qed

end
