(* ===== verification/Setup_Properties.thy ===== *)
theory Setup_Properties
  imports Boot_Cleanup Boot_Properties
begin

text \<open>
  What is shown of the kernel's set-up: the memory that the init section gives back, and the page tables
  the kernel builds with it.
\<close>

section \<open>A page given back\<close>

lemma demo_zero: "cell (\<lambda>_. 0) (unat (init_page_struct_addr demo_image) + 4 * i) = 0"
  by (simp add: cell_def)

lemma demo_booted: "\<exists>b. init_map_kernel demo_image (init_start (\<lambda>_. 0)) = Inr b \<and> booted demo_image b"
  by (rule init_map_kernel_booted [OF demo_image_ok demo_zero])



section \<open>\<open>page_init_cleanup\<close>\<close>

text \<open>C10. \<open>page_init_cleanup\<close> from the state that the boot code hands over: it returns; the pages of the
  init section are unmapped, the heap's first pages are mapped and every other page of the first three
  tables has the entry it had; the 126 page tables that the kernel's part of the address space lacked are
  there, each in the directory with the frame that the pager finds for it, taken in order from the pages
  given back, last first, and then from the free memory; the heap is well formed, its only live blocks are
  those tables, and the frames not used yet are the next to be handed out.  The bounds are those of the
  linker script, and on the pages given back: at 255 the gap before the first table is too small.\<close>

theorem page_init_cleanup_correct:
  assumes "image_ok l" and "\<And>i. i < 2048 \<Longrightarrow> cell m (unat (init_page_struct_addr l) + 4 * i) = 0"
    and "0x100000 \<le> unat (INIT_START l)" and "length (init_pages l) \<le> 254"
  shows "\<exists>b t cs ps. init_map_kernel l (init_start m) = Inr b \<and> page_init_cleanup (Suc depth) l (kernel_view l b) = Inr t \<and>
    (\<forall>p\<in>mapped_pages. page_get_entry t (word_of_nat (4096 * p)) = clean_entry l p) \<and>
    (\<forall>i\<in>{897..<1023}. page_table_lookup t (word_of_nat i) = word_of_nat (table_at (4096 * heap_start_page l) (i - 897)) \<and>
       page_dir t (word_of_nat i) = boot_frames l (2 * (i - 897)) OR PAGE_PRESENT OR PAGE_WRITE \<and>
       page_get_pma t (page_table_lookup t (word_of_nat i)) = boot_frames l (2 * (i - 897))) \<and>
    mem_ok t (4096 * heap_start_page l) TOP (table_at (4096 * heap_start_page l) ` {..<126}) cs ps \<and>
    clients (4096 * heap_start_page l) cs ps = table_blocks (table_at (4096 * heap_start_page l) ` {..<126}) \<and>
    (\<forall>i. frame_of [] t ps i = boot_frames l (252 + i))"
proof -
  let ?D = "4096 * heap_start_page l" and ?d = "heap_start_page l"
  obtain b where b: "init_map_kernel l (init_start m) = Inr b" "booted l b" using init_map_kernel_booted [OF assms(1,2)] by blast
  obtain s t where c: "page_init_cleanup (Suc depth) l (kernel_view l b) = Inr t"
      "tabled s ?D (boot_frames l) (length (init_pages l)) 126 t" "first_tables s ?D"
      "\<And>p. p \<in> mapped_pages \<Longrightarrow> entry_of s p =
        (if unat (INIT_START l) div 4096 \<le> p \<and> p < unat (INIT_BSS_END l) div 4096 then boot_entry l p AND NOT PAGE_PRESENT
         else if p = ?d then word_of_nat (first_table l + 0x3000) OR PAGE_WRITE OR PAGE_PRESENT else boot_entry l p)"
    using cleanup_ok [OF b(2) assms(3,4), of depth] by blast
  note t = tabledD [OF c(2)]
  from assms(1) obtain e n where n: "unat (INIT_BSS_END l) = 4096 * e" "unat (BSS_END_VMA l) = 0xE0000000 + 4096 * n"
      "e + n + 3 < 1024"
    by (rule image_okE)
  have d: "?d = 0xE0000 + n + 6" unfolding heap_start_page_def n(2) by simp
  have entry: "page_get_entry t (word_of_nat (4096 * p)) = entry_of t p" for p
    unfolding page_get_entry_def entry_word [symmetric] entry_of_def by (simp only: cell_def)
  have "entry_of t p = clean_entry l p" if p: "p \<in> mapped_pages" for p
    unfolding t(3) [OF p] c(4) [OF p] clean_entry_def Let_def n(1) using n(3) by (auto simp: d)
  moreover have "page_get_pma t (page_table_lookup t (word_of_nat i)) = boot_frames l (2 * (i - 897))"
    if i: "i \<in> {897..<1023}" for i
    by (rule table_frame [OF assms(1,3) c(2) i])
  moreover obtain cs ps where "mem_ok t ?D TOP (table_at ?D ` {..<126}) cs ps"
      "clients ?D cs ps = table_blocks (table_at ?D ` {..<126})" "\<And>i. frame_of [] t ps i = boot_frames l (252 + i)"
    using c(2) by (rule tabledE) simp
  ultimately show ?thesis
    using b(1) c(1) t(1,2) by (intro exI [of _ b] exI [of _ t] exI [of _ cs] exI [of _ ps]) (simp add: entry del: of_nat_mult)
qed

lemma demo_init_section:
  "INIT_START demo_image = 0x100000" "init_page_struct_addr demo_image = 0x106000" "INIT_BSS_END demo_image = 0x10A000"
  by (simp_all add: demo_image_def link_def demo_contents_def align_4k_def Let_def)

lemma demo_init_pages: "init_pages demo_image = [256, 257, 258, 259, 260, 261, 265]"
  unfolding init_pages_def demo_init_section by (simp add: upt_rec)

theorem page_init_cleanup_correct_witness:
  "\<exists>b t cs ps. init_map_kernel demo_image (init_start (\<lambda>_. 0)) = Inr b \<and>
    page_init_cleanup 1 demo_image (kernel_view demo_image b) = Inr t \<and>
    mem_ok t (4096 * heap_start_page demo_image) TOP (table_at (4096 * heap_start_page demo_image) ` {..<126}) cs ps"
  using page_init_cleanup_correct [OF demo_image_ok demo_zero, of 0] unfolding demo_init_section demo_init_pages by auto

end
