(* ===== verification/Cpuid.thy ===== *)
theory Cpuid
  imports Bitfield
begin

text \<open>
  \<open>cpuid.h\<close>: the feature structures and the three functions that fill them.  The instruction is a
  parameter: what it leaves in \<open>eax\<close>, \<open>ebx\<close>, \<open>ecx\<close>, \<open>edx\<close> for a leaf.  A structure is the four
  registers it is filled with; each has the layout of its bit fields.
\<close>

record regs =
  r_eax :: u32
  r_ebx :: u32
  r_ecx :: u32
  r_edx :: u32

type_synonym cpuid_insn = "u32 \<Rightarrow> regs"

section \<open>\<open>cpuid_version_t\<close>\<close>

text \<open>
  The fields of \<open>eax\<close> are 28 bits; the byte fields that follow start at the next byte, which is that
  of \<open>ebx\<close>.
\<close>

definition version_eax :: layout where
  "version_eax = [(''stepping_id'', 4), (''model'', 4), (''family_id'', 4), (''processor_type'', 2),
     (''_reserved1'', 2), (''extended_model_id'', 4), (''extended_family_id'', 8)]"

definition version_ebx :: layout where
  "version_ebx = [(''brand_index'', 8), (''clflush_line_size'', 8), (''max_ids'', 8), (''initial_apic_id'', 8)]"

definition version_ecx :: layout where
  "version_ecx = [(''sse3'', 1), (''pclmulqdq'', 1), (''dtest64'', 1), (''monitor'', 1), (''ds_cpl'', 1),
     (''vmx'', 1), (''smx'', 1), (''eist'', 1), (''tm2'', 1), (''ssse3'', 1), (''cnxt_id'', 1), (''sdbg'', 1),
     (''fma'', 1), (''cmpxchg16b'', 1), (''xtpr_update_control'', 1), (''pdcm'', 1), (''_reserved2'', 1),
     (''pcid'', 1), (''dca'', 1), (''sse4_1'', 1), (''sse4_2'', 1), (''x2apic'', 1), (''movbe'', 1),
     (''popcnt'', 1), (''tsc_deadline'', 1), (''aesni'', 1), (''xsave'', 1), (''osxsave'', 1), (''avx'', 1),
     (''f16c'', 1), (''rdrand'', 1), (''_unused'', 1)]"

definition version_edx :: layout where
  "version_edx = [(''fpu'', 1), (''vme'', 1), (''de'', 1), (''pse'', 1), (''tsc'', 1), (''msr'', 1), (''pae'', 1),
     (''mce'', 1), (''cx8'', 1), (''apic'', 1), (''_reserved3'', 1), (''sep'', 1), (''mtrr'', 1), (''pge'', 1),
     (''mca'', 1), (''cmov'', 1), (''pat'', 1), (''pse_36'', 1), (''psn'', 1), (''clfsh'', 1), (''_reserved4'', 1),
     (''ds'', 1), (''acpi'', 1), (''mmx'', 1), (''fxsr'', 1), (''sse'', 1), (''sse2'', 1), (''ss'', 1),
     (''htt'', 1), (''tm'', 1), (''_reserved5'', 1), (''pbe'', 1)]"

definition cpuid_version :: "cpuid_insn \<Rightarrow> regs" where
  "cpuid_version cpuid = cpuid 1"

definition version_initial_apic_id :: "regs \<Rightarrow> u32" where
  "version_initial_apic_id r = get_field version_ebx ''initial_apic_id'' (r_ebx r)"

definition version_apic :: "regs \<Rightarrow> u32" where
  "version_apic r = get_field version_edx ''apic'' (r_edx r)"

definition version_msr :: "regs \<Rightarrow> u32" where
  "version_msr r = get_field version_edx ''msr'' (r_edx r)"

section \<open>\<open>cpuid_thermal_t\<close>\<close>

definition thermal_eax :: layout where
  "thermal_eax = [(''temp_sensor'', 1), (''turbo_boost'', 1), (''arat'', 1), (''_reserved'', 1), (''pln'', 1),
     (''ecmd'', 1), (''ptm'', 1), (''hwp'', 1), (''hwp_notification'', 1), (''hwp_activity_window'', 1),
     (''hwp_energy_perf_preference'', 1), (''hwp_package_level_request'', 1), (''_reserved2'', 1), (''hdc'', 1),
     (''turbo_boost3'', 1), (''hwp_capabilities'', 1), (''hwp_peci_override'', 1), (''hwp_flexible'', 1),
     (''hwp_fast_access'', 1), (''_reserved3'', 1), (''hwp_request_ignore'', 1), (''_reserved4'', 11)]"

definition thermal_ebx :: layout where
  "thermal_ebx = [(''num_interrupt_thresholds'', 4), (''_reserved5'', 28)]"

definition thermal_ecx :: layout where
  "thermal_ecx = [(''hardware_coordination_feedback'', 1), (''_reserved6'', 2),
     (''perf_energy_bias_preference'', 1), (''_reserved7'', 28)]"

definition thermal_edx :: layout where
  "thermal_edx = [(''_reserved8'', 32)]"

definition cpuid_thermal :: "cpuid_insn \<Rightarrow> regs" where
  "cpuid_thermal cpuid = cpuid 6"

definition thermal_arat :: "regs \<Rightarrow> u32" where
  "thermal_arat r = get_field thermal_eax ''arat'' (r_eax r)"

section \<open>The identification string\<close>

text \<open>
  \<open>cpuid_id_string\<close> stores \<open>ebx\<close>, \<open>edx\<close> and \<open>ecx\<close> of leaf 0 as three little-endian words and a final zero
  byte; the result is the largest leaf and the 13 bytes of the buffer.
\<close>

definition word_chars :: "u32 \<Rightarrow> string" where
  "word_chars w = map (\<lambda>i. char_of (unat (take_bit 8 (drop_bit (8 * i) w)))) [0..<4]"

definition cpuid_id_string :: "cpuid_insn \<Rightarrow> u32 \<times> string" where
  "cpuid_id_string cpuid =
     (let r = cpuid 0
      in (r_eax r, word_chars (r_ebx r) @ word_chars (r_edx r) @ word_chars (r_ecx r) @ [CHR 0x00]))"

section \<open>Where the fields lie\<close>

lemma layouts_fill_registers:
  "\<forall>fs\<in>{version_ebx, version_ecx, version_edx, thermal_eax, thermal_ebx, thermal_ecx, thermal_edx}.
     layout_width fs = 32 \<and> distinct (map fst fs)"
  "layout_width version_eax = 28" "distinct (map fst version_eax)"
  by (simp_all add: layout_width_def version_eax_def version_ebx_def version_ecx_def version_edx_def
      thermal_eax_def thermal_ebx_def thermal_ecx_def thermal_edx_def)

lemma feature_bits:
  "version_apic r = of_bool (bit (r_edx r) 9)"
  "version_msr r = of_bool (bit (r_edx r) 5)"
  "thermal_arat r = of_bool (bit (r_eax r) 2)"
  "version_initial_apic_id r = drop_bit 24 (r_ebx r)"
proof -
  have b: "take_bit (Suc 0) (drop_bit n w) = of_bool (bit w n)" for n and w :: u32
    by (simp add: take_bit_Suc_0 odd_iff_mod_2_eq_one bit_iff_odd_drop_bit)
  show "version_apic r = of_bool (bit (r_edx r) 9)" "version_msr r = of_bool (bit (r_edx r) 5)"
    "thermal_arat r = of_bool (bit (r_eax r) 2)"
    by (simp_all add: version_apic_def version_msr_def thermal_arat_def get_field_def version_edx_def
        thermal_eax_def b numeral_eq_Suc del: take_bit_Suc_0 bit_drop_bit_eq)
  show "version_initial_apic_id r = drop_bit 24 (r_ebx r)"
    by (rule bit_word_eqI)
       (auto simp: version_initial_apic_id_def get_field_def version_ebx_def bit_simps dest: bit_imp_le_length)
qed

end
