(* ===== verification/Apic.thy ===== *)
theory Apic
  imports Alloc Cpu Cpuid Interrupts Messages
begin

text \<open>
  \<open>apic.c\<close> and \<open>apic.h\<close>: the local interrupt controller.  Its registers are 16 bytes apart in one page,
  which \<open>apic_init\<close> maps into the heap's address space with a page source of its own: the first page is
  the frame of the registers, the following ones come from \<open>page_new\<close>.
\<close>

section \<open>Registers\<close>

datatype apic_reg =
    APIC_ID | APIC_VER | APIC_TPR | APIC_APR | APIC_PPR
  | APIC_EOI | APIC_RRD | APIC_LDR | APIC_DFR | APIC_SVR
  | APIC_ISR | APIC_TMR | APIC_IRR | APIC_ESR | APIC_LVT_CMCI
  | APIC_ICR | APIC_LVT_TR | APIC_LVT_TSR | APIC_LVT_PMCR | APIC_LVT_LINT0
  | APIC_LVT_LINT1 | APIC_LVT_ER | APIC_INIT_COUNT | APIC_CURR_COUNT | APIC_DIV_CONFIG

fun apic_offset :: "apic_reg \<Rightarrow> u32" where
  "apic_offset APIC_ID = 0x20"
| "apic_offset APIC_VER = 0x30"
| "apic_offset APIC_TPR = 0x80"
| "apic_offset APIC_APR = 0x90"
| "apic_offset APIC_PPR = 0xa0"
| "apic_offset APIC_EOI = 0xb0"
| "apic_offset APIC_RRD = 0xc0"
| "apic_offset APIC_LDR = 0xd0"
| "apic_offset APIC_DFR = 0xe0"
| "apic_offset APIC_SVR = 0xf0"
| "apic_offset APIC_ISR = 0x100"
| "apic_offset APIC_TMR = 0x180"
| "apic_offset APIC_IRR = 0x200"
| "apic_offset APIC_ESR = 0x280"
| "apic_offset APIC_LVT_CMCI = 0x2f0"
| "apic_offset APIC_ICR = 0x300"
| "apic_offset APIC_LVT_TR = 0x320"
| "apic_offset APIC_LVT_TSR = 0x330"
| "apic_offset APIC_LVT_PMCR = 0x340"
| "apic_offset APIC_LVT_LINT0 = 0x350"
| "apic_offset APIC_LVT_LINT1 = 0x360"
| "apic_offset APIC_LVT_ER = 0x370"
| "apic_offset APIC_INIT_COUNT = 0x380"
| "apic_offset APIC_CURR_COUNT = 0x390"
| "apic_offset APIC_DIV_CONFIG = 0x3e0"

definition apic_idx :: "apic_reg \<Rightarrow> u32" where
  "apic_idx r = drop_bit 2 (apic_offset r)"

definition IA32_APIC_BASE_MSR :: u32 where "IA32_APIC_BASE_MSR = 0x1b"
definition MAX_PHYS_ADDR :: nat where "MAX_PHYS_ADDR = 32"

datatype apic_divider =
    APIC_TIMER_DIV2 | APIC_TIMER_DIV4 | APIC_TIMER_DIV8 | APIC_TIMER_DIV16
  | APIC_TIMER_DIV32 | APIC_TIMER_DIV64 | APIC_TIMER_DIV128 | APIC_TIMER_DIV1

fun divider_code :: "apic_divider \<Rightarrow> u32" where
  "divider_code APIC_TIMER_DIV2 = 0x0"
| "divider_code APIC_TIMER_DIV4 = 0x1"
| "divider_code APIC_TIMER_DIV8 = 0x2"
| "divider_code APIC_TIMER_DIV16 = 0x3"
| "divider_code APIC_TIMER_DIV32 = 0x8"
| "divider_code APIC_TIMER_DIV64 = 0x9"
| "divider_code APIC_TIMER_DIV128 = 0xa"
| "divider_code APIC_TIMER_DIV1 = 0xb"

datatype apic_timer_mode = APIC_TIMER_ONE_SHOT | APIC_TIMER_PERIODIC | APIC_TIMER_TSC_DEADLINE

fun timer_mode_code :: "apic_timer_mode \<Rightarrow> u32" where
  "timer_mode_code APIC_TIMER_ONE_SHOT = 0"
| "timer_mode_code APIC_TIMER_PERIODIC = 1"
| "timer_mode_code APIC_TIMER_TSC_DEADLINE = 2"

datatype apic_delivery =
  APIC_DELIVER_FIXED | APIC_DELIVER_SMI | APIC_DELIVER_NMI | APIC_DELIVER_INIT | APIC_DELIVER_EXTINT

fun delivery_code :: "apic_delivery \<Rightarrow> u32" where
  "delivery_code APIC_DELIVER_FIXED = 0"
| "delivery_code APIC_DELIVER_SMI = 2"
| "delivery_code APIC_DELIVER_NMI = 4"
| "delivery_code APIC_DELIVER_INIT = 5"
| "delivery_code APIC_DELIVER_EXTINT = 7"

text \<open>The 64-bit base register, and the views of the union \<open>apic_lvt_reg_t\<close>.\<close>

definition apic_base_msr :: layout where
  "apic_base_msr = [(''_reserved0'', 8), (''bsp'', 1), (''_reserved1'', 2), (''enable'', 1),
     (''base'', MAX_PHYS_ADDR), (''_reserved2'', 52 - MAX_PHYS_ADDR)]"

definition lvt_ver :: layout where
  "lvt_ver = [(''version'', 8), (''_reserved0'', 8), (''max_lvt_entry'', 8),
     (''eoi_broadcast_suppression'', 1), (''_reserved1'', 7)]"

definition lvt_esr :: layout where
  "lvt_esr = [(''send_checksum_error'', 1), (''receive_checksum_error'', 1), (''send_accept_error'', 1),
     (''receive_accept_error'', 1), (''redirectable_ipi'', 1), (''send_illegal_vector'', 1),
     (''received_illegal_vector'', 1), (''illegal_register_address'', 1), (''_reserved'', 24)]"

definition lvt_svr :: layout where
  "lvt_svr = [(''vector'', 8), (''enable'', 1), (''focus_processor_checking'', 1), (''_reserved0'', 2),
     (''eoi_broadcast_suppression'', 1), (''_reserved1'', 19)]"

definition lvt_lvt :: layout where
  "lvt_lvt = [(''vector'', 8), (''delivery'', 3), (''_reserved0'', 1), (''delivery_status'', 1),
     (''pin_polarity'', 1), (''remote_irr'', 1), (''trigger_mode'', 1), (''masked'', 1),
     (''timer_mode'', 2), (''_reserved1'', 13)]"

definition lvt_timer :: layout where
  "lvt_timer = [(''divide'', 4), (''_reserved0'', 28)]"

section \<open>State\<close>

text \<open>The static variables of \<open>apic.c\<close> (\<open>get_page_first_run\<close> is in the kernel state), what it works
  on, and the messages it has printed.\<close>

record apic_env =
  lapic_base_vma :: u32
  lapic_base_pma :: u32
  lapic_reg :: u32
  ap_kern :: kstate
  ap_cpu :: cpu
  ap_log :: "message list"

datatype apic_error = Fatal message | Heap_error kerror

definition ap_print :: "string \<Rightarrow> apic_env \<Rightarrow> apic_env" where
  "ap_print msg a = a\<lparr>ap_log := ap_log a @ [(msg @ [CHR 0x0A], [])]\<rparr>"

definition lapic_read :: "apic_reg \<Rightarrow> apic_env \<Rightarrow> u32" where
  "lapic_read r a = mem (ap_kern a) (lapic_reg a + 4 * apic_idx r)"

definition lapic_write :: "apic_reg \<Rightarrow> u32 \<Rightarrow> apic_env \<Rightarrow> apic_env" where
  "lapic_write r v a = a\<lparr>ap_kern := wr (lapic_reg a + 4 * apic_idx r) v (ap_kern a)\<rparr>"

section \<open>Operations\<close>

definition timer_entry :: u32 where
  "timer_entry = set_field lvt_lvt ''timer_mode'' (timer_mode_code APIC_TIMER_PERIODIC)
     (set_field lvt_lvt ''vector'' (word_of_nat IDT_VECTOR_TIMER) 0)"

definition lapic_timer_init :: "cpuid_insn \<Rightarrow> u32 \<Rightarrow> apic_env \<Rightarrow> apic_env" where
  "lapic_timer_init cpuid period a =
     (let thermal_info = cpuid_thermal cpuid;
          a1 = (if thermal_arat thermal_info = 0
                then ap_print ''lapic_timer_init: WARNING: APIC timer is not persistent'' a else a);
          a2 = lapic_write APIC_LVT_TR timer_entry a1;
          a3 = lapic_write APIC_DIV_CONFIG
                 (set_field lvt_timer ''divide'' (divider_code APIC_TIMER_DIV128) (lapic_read APIC_DIV_CONFIG a2)) a2
      in lapic_write APIC_INIT_COUNT period a3)"

definition pic_disable :: "cpu \<Rightarrow> cpu" where
  "pic_disable c = outb 0xa1 0xff (outb 0x21 0xff c)"

definition lapic_send_eoi :: "apic_env \<Rightarrow> apic_env" where
  "lapic_send_eoi a = lapic_write APIC_EOI 0 a"

definition lapic_get_esr :: "apic_env \<Rightarrow> u32" where
  "lapic_get_esr a = lapic_read APIC_ESR a"

definition lvt_get_page_pma :: "nat \<Rightarrow> u32 \<Rightarrow> page_fn" where
  "lvt_get_page_pma depth base_pma s =
     (if get_page_first_run s then Inr (base_pma, s\<lparr>get_page_first_run := False\<rparr>)
      else page_new depth s)"

text \<open>
  \<open>stale\<close> is what the uninitialised local \<open>msr\<close> held.  Its field \<open>base\<close> is 32 bits wide; the cast to
  \<open>uintptr_t\<close> and the shift drop its upper 12.
\<close>

definition apic_init :: "nat \<Rightarrow> cpuid_insn \<Rightarrow> u64 \<Rightarrow> apic_env \<Rightarrow> apic_error + apic_env" where
  "apic_init depth cpuid stale a =
     (let a1 = a\<lparr>ap_cpu := pic_disable (ap_cpu a)\<rparr>;
          ver = cpuid_version cpuid in
      if version_apic ver = 0
      then Inl (Fatal (''apic_init: FATAL: No local APIC available'' @ [CHR 0x0A], []))
      else if version_msr ver = 0
      then Inl (Fatal (''apic_init: FATAL: No MSRs available'' @ [CHR 0x0A], []))
      else
        let msr = get_msr stale IA32_APIC_BASE_MSR (ap_cpu a1);
            a2 = (if get_field apic_base_msr ''bsp'' msr = 0
                  then (ap_print ''apic_init: Halting core (not bootstrap)'' a1)\<lparr>ap_cpu := halt (ap_cpu a1)\<rparr>
                  else a1);
            a3 = a2\<lparr>lapic_base_pma := push_bit 12 (ucast (get_field apic_base_msr ''base'' msr))\<rparr>
        in (case kalloc (lvt_get_page_pma depth (lapic_base_pma a3)) PAGE_SIZE PAGE_SIZE (ap_kern a3) of
              Inl e \<Rightarrow> Inl (Heap_error e)
            | Inr (vma, s) \<Rightarrow>
                let a4 = a3\<lparr>ap_kern := s, lapic_base_vma := vma\<rparr>;
                    a5 = a4\<lparr>lapic_reg := lapic_base_vma a4\<rparr>
                in Inr (lapic_timer_init cpuid 0x10000 a5)))"

section \<open>What the registers hold\<close>

lemma apic_layouts:
  "layout_width apic_base_msr = 64"
  "\<forall>fs\<in>{lvt_ver, lvt_esr, lvt_svr, lvt_lvt, lvt_timer}. layout_width fs = 32 \<and> distinct (map fst fs)"
  by (simp_all add: layout_width_def apic_base_msr_def lvt_ver_def lvt_esr_def lvt_svr_def lvt_lvt_def
      lvt_timer_def MAX_PHYS_ADDR_def)

lemma apic_idx_offset: "4 * apic_idx r = apic_offset r"
  by (cases r) (simp_all add: apic_idx_def)

lemma timer_entry_eq: "timer_entry = 0x20041"
  by (simp add: timer_entry_def set_field_def lvt_lvt_def IDT_VECTOR_TIMER_def mask_eq_exp_minus_1)

lemma lapic_write_fields [simp]:
  "lapic_reg (lapic_write r v a) = lapic_reg a" "lapic_base_pma (lapic_write r v a) = lapic_base_pma a"
  "lapic_base_vma (lapic_write r v a) = lapic_base_vma a" "ap_cpu (lapic_write r v a) = ap_cpu a"
  "ap_log (lapic_write r v a) = ap_log a"
  by (simp_all add: lapic_write_def)

lemma lapic_read_write: "lapic_read r (lapic_write q v a) = (if apic_offset r = apic_offset q then v else lapic_read r a)"
  by (simp add: lapic_read_def lapic_write_def apic_idx_offset)

text \<open>The register's place and the bootstrap flag come from the low half of the base register, so what
  the local variable held does not matter.\<close>

lemma apic_base_fields:
  "push_bit 12 (ucast (get_field apic_base_msr ''base'' (get_msr stale i c)) :: u32) = ucast (msrs c i) AND NOT (mask 12)"
  "get_field apic_base_msr ''bsp'' (get_msr stale i c) = of_bool (bit (msrs c i) 8)"
proof -
  have base: "field_span apic_base_msr ''base'' 0 = Some (12, 32)"
    and bsp: "field_span apic_base_msr ''bsp'' 0 = Some (8, 1)"
    by (simp_all add: apic_base_msr_def MAX_PHYS_ADDR_def)
  show "push_bit 12 (ucast (get_field apic_base_msr ''base'' (get_msr stale i c)) :: u32) = ucast (msrs c i) AND NOT (mask 12)"
    by (rule bit_word_eqI) (auto simp: bit_simps bit_get_field [OF base] get_msr_eq)
  show "get_field apic_base_msr ''bsp'' (get_msr stale i c) = of_bool (bit (msrs c i) 8)"
    by (rule bit_word_eqI) (auto simp: bit_simps bit_get_field [OF bsp] get_msr_eq)
qed

end
