(* ===== verification/Heap_Test.thy ===== *)
theory Heap_Test
  imports Alloc Messages
begin

text \<open>
  The rest of \<open>alloc.c\<close>: the free list dump and the self test.  Both only call \<open>printk\<close> and the heap;
  what they print is the list of messages, in order.
\<close>

text \<open>\<open>&ctxt->free_list\<close> is the first word of the context, which is at \<open>ctxt_addr\<close>.\<close>

partial_function (option) print_free_loop :: "kstate \<Rightarrow> u32 \<Rightarrow> u32 \<Rightarrow> message list option" where
  "print_free_loop s i n =
     (if n = 0 then Some [(''  [END]'' @ [CHR 0x0A], [])]
      else Option.bind (print_free_loop s (i + 1) (mem s (n + 4))) (\<lambda>rest.
        Some ((''  [%u]: vma: %p, size: %u, prev: %p, next: %p'' @ [CHR 0x0A],
               [i, n, alloc_get_size s n, mem s n, mem s (n + 4)]) # rest)))"

declare print_free_loop.simps [code]

definition alloc_print_free_list :: "u32 \<Rightarrow> kstate \<Rightarrow> kerror + message list" where
  "alloc_print_free_list ctxt_addr s =
     (case print_free_loop s 0 (free_list s) of
        None \<Rightarrow> Inl Endless
      | Some rest \<Rightarrow> Inr ((''print_free_list: free_list: %p, &free_list: %p'' @ [CHR 0x0A], [free_list s, ctxt_addr]) # rest))"

type_synonym test_state = "message list \<times> kstate"

definition say :: "string \<Rightarrow> va_list \<Rightarrow> test_state \<Rightarrow> test_state" where
  "say fmt args t = (fst t @ [(fmt @ [CHR 0x0A], args)], snd t)"

definition test_malloc :: "nat \<Rightarrow> u32 \<Rightarrow> test_state \<Rightarrow> kerror + (u32 \<times> test_state)" where
  "test_malloc depth bytes t = rbind (kmalloc depth bytes (snd t)) (\<lambda>(p, s). Inr (p, (fst t, s)))"

definition test_free :: "nat \<Rightarrow> u32 \<Rightarrow> test_state \<Rightarrow> kerror + test_state" where
  "test_free depth p t = rbind (kfree depth p (snd t)) (\<lambda>s. Inr (fst t, s))"

definition test_dump :: "u32 \<Rightarrow> test_state \<Rightarrow> kerror + test_state" where
  "test_dump ctxt_addr t = rbind (alloc_print_free_list ctxt_addr (snd t)) (\<lambda>ms. Inr (fst t @ ms, snd t))"

text \<open>The part of \<open>kmalloc_test\<close> before the large allocation, and all of it.\<close>

definition kmalloc_test_small :: "nat \<Rightarrow> u32 \<Rightarrow> test_state \<Rightarrow> kerror + test_state" where
  "kmalloc_test_small depth ctxt_addr t0 =
     (let heap_start = heap_end (snd t0);
          t1 = say ''kmalloc_test: Test allocation'' [] t0 in
      rbind (test_malloc depth 1 t1) (\<lambda>(p1, t2).
      rbind (test_malloc depth 23 t2) (\<lambda>(p2, t3).
      rbind (test_malloc depth 12 t3) (\<lambda>(p3, t4).
      rbind (test_malloc depth 24 t4) (\<lambda>(p4, t5).
      rbind (test_dump ctxt_addr
          (say ''kmalloc_test: end: %p, correct: %p'' [heap_end (snd t5), heap_start + 104] t5)) (\<lambda>t6.
      let t7 = say ''kmalloc_test: Test freeing and partial reallocation'' [] t6;
          p2_prev = p2 in
      rbind (test_free depth p2 t7) (\<lambda>t8.
      rbind (test_malloc depth 8 t8) (\<lambda>(p2, t9).
      rbind (test_dump ctxt_addr (say ''kmalloc_test: new_p2: %p, correct: %p'' [p2, p2_prev] t9)) (\<lambda>t10.
      let t11 = say ''kmalloc_test: Test free chunk consolidation'' [] t10 in
      rbind (test_free depth p1 t11) (\<lambda>t12.
      rbind (test_free depth p3 t12) (\<lambda>t13.
      rbind (test_dump ctxt_addr t13) (\<lambda>t14.
      rbind (test_free depth p2 t14) (\<lambda>t15.
      rbind (test_dump ctxt_addr t15) (\<lambda>t16.
      let t17 = say ''kmalloc_test: Test heap shrinking'' [] t16 in
      rbind (test_free depth p4 t17) (\<lambda>t18.
      rbind (test_dump ctxt_addr t18) (\<lambda>t19.
      Inr (say ''kmalloc_test: heap start: %p, heap end: %p'' [heap_start, heap_end (snd t19)] t19)))))))))))))))))"

definition kmalloc_test :: "nat \<Rightarrow> u32 \<Rightarrow> kstate \<Rightarrow> kerror + test_state" where
  "kmalloc_test depth ctxt_addr s =
     rbind (kmalloc_test_small depth ctxt_addr ([], s)) (\<lambda>t1.
     let t2 = say ''kmalloc_test: Test large allocation'' [] t1 in
     rbind (test_malloc depth (4 * PAGE_SIZE) t2) (\<lambda>(char_array, t3).
     test_free depth char_array t3))"

end
