(* ===== verification/Proc_Info.thy ===== *)
theory Proc_Info
  imports Proc Messages Cpu
begin

text \<open>
  The rest of \<open>proc.c\<close>: the dumps, the test processes and the loop of the idle process.  A dump is the
  list of \<open>printk\<close> calls it makes, each with its format and its argument slots; a 64-bit argument takes
  two slots.
\<close>

section \<open>Dumps\<close>

definition line_of :: "string \<Rightarrow> va_list \<Rightarrow> message" where
  "line_of fmt args = (fmt @ [CHR 0x0A], args)"

definition proc_print_ctxt :: "proc_ctxt \<Rightarrow> message list" where
  "proc_print_ctxt c =
     [line_of ''proc_print_ctxt:'' [],
      line_of ''     ss: %p'' [c_ss c],
      line_of ''    esp: %p'' [c_esp c],
      line_of ''  flags: %p'' [c_eflags c],
      line_of ''     cs: %p'' [c_cs c],
      line_of ''    eip: %p'' [c_eip c],
      line_of ''    edi: %p'' [c_edi c],
      line_of ''    esi: %p'' [c_esi c],
      line_of ''    ebp: %p'' [c_ebp c],
      line_of ''    ebx: %p'' [c_ebx c],
      line_of ''    edx: %p'' [c_edx c],
      line_of ''    ecx: %p'' [c_ecx c],
      line_of ''    eax: %p'' [c_eax c],
      line_of ''     gs: %p'' [c_gs c],
      line_of ''     fs: %p'' [c_fs c],
      line_of ''     es: %p'' [c_es c],
      line_of ''     ds: %p'' [c_ds c]]"

definition slots_of_64 :: "u64 \<Rightarrow> va_list" where
  "slots_of_64 v = [ucast v, ucast (drop_bit 32 v)]"

text \<open>The string table of the state names; the compiler places the strings, so their addresses are a
  parameter.\<close>

fun state_name :: "proc_state \<Rightarrow> string" where
  "state_name PROC_DEAD = ''DEAD''"
| "state_name PROC_SLEEPING = ''SLEEPING''"
| "state_name PROC_ACTIVE = ''ACTIVE''"
| "state_name PROC_RUNNING = ''RUNNING''"

definition proc_info :: "(proc_state \<Rightarrow> u32) \<Rightarrow> u16 \<Rightarrow> pstate \<Rightarrow> message list" where
  "proc_info state_str pid e =
     (let proc = proc_table e pid in
      [line_of ''proc_info (%u):'' [ucast pid],
       line_of ''    ppid: %u'' [ucast (ppid proc)],
       line_of ''    inode_id: %p'' (slots_of_64 (inode_id proc)),
       line_of ''    start_time: %u'' (slots_of_64 (start_time proc)),
       line_of ''    state: %s'' [state_str (state proc)],
       line_of ''    exec_count: %u'' [ucast (exec_count proc)]] @
      proc_print_ctxt (ctxt (proc_table e pid)))"

definition proc_dump_messages :: "u16 list \<Rightarrow> message list" where
  "proc_dump_messages pids =
     line_of ''proc_dump_queue:'' [] # map (\<lambda>pid. line_of ''    PID: %u, '' [ucast pid]) pids"

section \<open>The test processes and the idle loop\<close>

text \<open>A test process prints its digit over and over; \<open>n\<close> is how often it has come round.\<close>

definition proc1 :: "nat \<Rightarrow> message list" where "proc1 n = replicate n (''1'', [])"
definition proc2 :: "nat \<Rightarrow> message list" where "proc2 n = replicate n (''2'', [])"
definition proc3 :: "nat \<Rightarrow> message list" where "proc3 n = replicate n (''3'', [])"

text \<open>
  \<open>proc_loop\<close> enables interrupts and halts until no process is registered.  Each element of the list
  is what an interrupt that ends a \<open>hlt\<close> did to the processes before the loop goes on; when the list
  ends the processor is still waiting.
\<close>

datatype idle = Returned pstate | Waiting pstate

fun proc_idle :: "(pstate \<Rightarrow> pstate) list \<Rightarrow> pstate \<Rightarrow> idle" where
  "proc_idle fs e =
     (if proc_num e = 0 then Returned e
      else (case fs of [] \<Rightarrow> Waiting e | f # gs \<Rightarrow> proc_idle gs (f e)))"

definition proc_loop :: "(pstate \<Rightarrow> pstate) list \<Rightarrow> cpu \<Rightarrow> pstate \<Rightarrow> cpu \<times> idle" where
  "proc_loop interrupts c e = (sti c, proc_idle interrupts e)"

declare proc_idle.simps [simp del]

section \<open>The loop goes on while processes are registered\<close>

lemma proc_idle_waits:
  assumes "proc_num e \<noteq> 0" and "\<And>f e. f \<in> set fs \<Longrightarrow> proc_num (f e) = proc_num e"
  shows "\<exists>e'. proc_idle fs e = Waiting e' \<and> proc_num e' = proc_num e"
  using assms
proof (induction fs arbitrary: e)
  case Nil
  then show ?case by (simp add: proc_idle.simps)
next
  case (Cons f fs)
  from Cons.IH [of "f e"] Cons.prems show ?case by (subst proc_idle.simps) simp
qed

end
