(* ===== verification/Kernel.thy ===== *)
theory Kernel
  imports Apic Heap_Test Proc_Info Init_Map Vga
begin

text \<open>
  \<open>kernel.c\<close>, and the timer interrupt of \<open>int_asm.s\<close> on the whole machine.  The state puts the components
  together; each keeps the record of its own theory, and the parts that two components share (the
  processor, kernel memory, \<open>TSS.esp0\<close>) are handed over before a component runs and taken back after it.
\<close>

section \<open>The machine\<close>

record machine =
  k_vga :: vga
  k_cpu :: cpu
  k_gdt :: gdt_state
  k_idt :: idt_state
  k_apic :: apic_env
  k_proc :: pstate

text \<open>
  What the linker, the compiler and the processor decide: addresses of tables, handlers and of the three
  test processes, the strings in memory, the \<open>cpuid\<close> instruction, and what the local \<open>msr\<close> of
  \<open>apic_init\<close> holds before it is set.
\<close>

record platform =
  image :: linker
  tss_address :: u32
  gdt_address :: u32
  idt_address :: u32
  handler_address :: "handler \<Rightarrow> u32"
  proc1_address :: u32
  proc2_address :: u32
  proc3_address :: u32
  id_str_address :: u32
  strings :: cmem
  cpuid_of :: cpuid_insn
  stale_msr :: u64

datatype stop =
    Out_of_kernel kerror
  | Apic_fatal message
  | Print_failed printk_error
  | Screen_overrun

section \<open>Running one component\<close>

definition on_gdt :: "(gdt_state \<Rightarrow> gdt_state) \<Rightarrow> machine \<Rightarrow> machine" where
  "on_gdt f k = (let g = f ((k_gdt k)\<lparr>gdt_cpu := k_cpu k\<rparr>) in k\<lparr>k_gdt := g, k_cpu := gdt_cpu g\<rparr>)"

definition on_idt :: "(idt_state \<Rightarrow> idt_state) \<Rightarrow> machine \<Rightarrow> machine" where
  "on_idt f k = (let i = f ((k_idt k)\<lparr>idt_cpu := k_cpu k\<rparr>) in k\<lparr>k_idt := i, k_cpu := idt_cpu i\<rparr>)"

definition on_kern :: "(kstate \<Rightarrow> kerror + kstate) \<Rightarrow> machine \<Rightarrow> stop + machine" where
  "on_kern f k =
     (case f (kern (k_proc k)) of
        Inl e \<Rightarrow> Inl (Out_of_kernel e)
      | Inr s \<Rightarrow> Inr (k\<lparr>k_proc := (k_proc k)\<lparr>kern := s\<rparr>\<rparr>))"

definition on_proc :: "(pstate \<Rightarrow> kerror + ('a \<times> pstate)) \<Rightarrow> machine \<Rightarrow> stop + ('a \<times> machine)" where
  "on_proc f k =
     (case f ((k_proc k)\<lparr>TSS_esp0 := tss_esp0 (TSS (k_gdt k))\<rparr>) of
        Inl e \<Rightarrow> Inl (Out_of_kernel e)
      | Inr (x, e) \<Rightarrow> Inr (x, k\<lparr>k_proc := e, k_gdt := (k_gdt k)\<lparr>TSS := (TSS (k_gdt k))\<lparr>tss_esp0 := TSS_esp0 e\<rparr>\<rparr>\<rparr>))"

definition on_apic :: "(apic_env \<Rightarrow> apic_env) \<Rightarrow> machine \<Rightarrow> machine" where
  "on_apic f k =
     (let a = f ((k_apic k)\<lparr>ap_kern := kern (k_proc k), ap_cpu := k_cpu k\<rparr>)
      in k\<lparr>k_apic := a, k_cpu := ap_cpu a, k_proc := (k_proc k)\<lparr>kern := ap_kern a\<rparr>\<rparr>)"

definition k_printk :: "platform \<Rightarrow> message \<Rightarrow> machine \<Rightarrow> stop + machine" where
  "k_printk env msg k =
     (case printk_with vga_putc (strings env) (fst msg) (snd msg) (k_vga k) of
        Inl e \<Rightarrow> Inl (Print_failed e)
      | Inr (n, v) \<Rightarrow> Inr (k\<lparr>k_vga := v\<rparr>))"

primrec k_print_all :: "platform \<Rightarrow> message list \<Rightarrow> machine \<Rightarrow> stop + machine" where
  "k_print_all env [] k = Inr k"
| "k_print_all env (msg # msgs) k = rbind (k_printk env msg k) (k_print_all env msgs)"

text \<open>
  \<open>apic_init\<close> prints between its steps; printing changes the screen only, so its messages are shown
  after it.  A fatal message is shown, and then the kernel dies.
\<close>

definition k_apic_init :: "nat \<Rightarrow> platform \<Rightarrow> machine \<Rightarrow> stop + machine" where
  "k_apic_init depth env k =
     (case apic_init depth (cpuid_of env) (stale_msr env)
             ((k_apic k)\<lparr>ap_kern := kern (k_proc k), ap_cpu := k_cpu k, ap_log := []\<rparr>) of
        Inl (Fatal msg) \<Rightarrow> rbind (k_printk env msg k) (\<lambda>_. Inl (Apic_fatal msg))
      | Inl (Heap_error e) \<Rightarrow> Inl (Out_of_kernel e)
      | Inr a \<Rightarrow> k_print_all env (ap_log a) (on_apic (\<lambda>_. a) k))"

section \<open>\<open>kernel_main\<close>\<close>

definition kernel_test :: "nat \<Rightarrow> u32 \<Rightarrow> kstate \<Rightarrow> kerror + test_state" where
  "kernel_test depth ctxt_addr s = kmalloc_test depth ctxt_addr s"

text \<open>Everything up to the idle loop.\<close>

definition kernel_setup :: "nat \<Rightarrow> platform \<Rightarrow> machine \<Rightarrow> stop + machine" where
  "kernel_setup depth env k =
     rbind (case vga_clear (k_vga k) of None \<Rightarrow> Inl Screen_overrun | Some v \<Rightarrow> Inr (k\<lparr>k_vga := v\<rparr>)) (\<lambda>k1.
       let k2 = on_gdt (gdt_init (tss_address env) (gdt_address env)) k1;
           k3 = on_idt (int_init (handler_address env) (idt_address env)) k2 in
     rbind (on_kern (page_init_cleanup depth (image env)) k3) (\<lambda>k4.
     rbind (k_apic_init depth env k4) (\<lambda>k5.
     rbind (on_proc (\<lambda>e. rbind (proc_init depth (image env) (proc1_address env) (proc2_address env) (proc3_address env) e)
                           (\<lambda>e'. Inr ((), e'))) k5) (\<lambda>(_, k6). Inr k6))))"

text \<open>
  The messages after the idle loop, with the values they show.  \<open>cpuid_id_string\<close> fills the buffer
  \<open>id_str\<close> just before the first of them.
\<close>

definition store_string :: "u32 \<Rightarrow> string \<Rightarrow> cmem \<Rightarrow> cmem" where
  "store_string a str m = fold (\<lambda>i m. m(a + word_of_nat i := str ! i)) [0..<length str] m"

definition kernel_messages :: "platform \<Rightarrow> cpu \<Rightarrow> message list" where
  "kernel_messages env c =
     [line_of ''kernel_main: CPUID: %s %d'' [id_str_address env, fst (cpuid_id_string (cpuid_of env))],
      line_of ''kernel_main: APIC ID: %d'' [version_initial_apic_id (cpuid_version (cpuid_of env))],
      line_of ''kernel_main: CR0: %p'' [get_cr0 c],
      line_of ''kernel_main: CR2: %p'' [get_cr2 c],
      line_of ''kernel_main: CR3: %p'' [get_cr3 c],
      line_of ''kernel_main: CR4: %p'' [get_cr4 c],
      line_of ''kernel_main: CS:  %p'' [ucast (get_cs c)],
      line_of ''kernel_main: DS:  %p'' [ucast (get_ds c)],
      line_of ''kernel_main: ES:  %p'' [ucast (get_es c)],
      line_of ''kernel_main: FS:  %p'' [ucast (get_fs c)],
      line_of ''kernel_main: GS:  %p'' [ucast (get_gs c)],
      line_of ''kernel_main: SS:  %p'' [ucast (get_ss c)],
      line_of ''kernel_main: EXIT'' []]"

definition kernel_report :: "platform \<Rightarrow> machine \<Rightarrow> stop + machine" where
  "kernel_report env k =
     (let str = snd (cpuid_id_string (cpuid_of env));
          env' = env\<lparr>strings := store_string (id_str_address env) str (strings env)\<rparr>
      in k_print_all env' (kernel_messages env (k_cpu k)) k)"

text \<open>
  \<open>interrupts\<close> is what the interrupts that end the idle loop's \<open>hlt\<close> do, in order; when they do not let
  the loop end, the machine is \<open>Idle\<close>.
\<close>

datatype outcome = Stopped stop | Idle machine | Died machine

definition kernel_main :: "nat \<Rightarrow> platform \<Rightarrow> (pstate \<Rightarrow> pstate) list \<Rightarrow> machine \<Rightarrow> outcome" where
  "kernel_main depth env interrupts k =
     (case kernel_setup depth env k of
        Inl e \<Rightarrow> Stopped e
      | Inr k1 \<Rightarrow>
          (let (c, idle) = proc_loop interrupts (k_cpu k1) (k_proc k1); k2 = k1\<lparr>k_cpu := c\<rparr> in
           case idle of
             Waiting e \<Rightarrow> Idle (k2\<lparr>k_proc := e\<rparr>)
           | Returned e \<Rightarrow>
               (case kernel_report env (k2\<lparr>k_proc := e\<rparr>) of
                  Inl err \<Rightarrow> Stopped err
                | Inr k3 \<Rightarrow> Died (k3\<lparr>k_cpu := die (k_cpu k3)\<rparr>))))"

section \<open>The timer interrupt\<close>

text \<open>
  \<open>int_handle_proc_switch\<close> stores the interrupted context, switches, loads the next context and signals
  the end of the interrupt to the controller.
\<close>

definition timer_interrupt :: "proc_ctxt \<Rightarrow> machine \<Rightarrow> stop + (proc_ctxt \<times> machine)" where
  "timer_interrupt c k =
     rbind (on_proc (int_proc_switch c) k) (\<lambda>(c', k1). Inr (c', on_apic lapic_send_eoi k1))"

section \<open>The first machine\<close>

text \<open>
  The state \<open>init\<close> hands over, with every static variable as the C initialisers leave it.  \<open>procs\<close> is
  what the memory of the process table holds.
\<close>

definition machine_start :: "(u16 \<Rightarrow> proc) \<Rightarrow> handover \<Rightarrow> machine" where
  "machine_start procs h =
     \<lparr>k_vga = ho_vga h, k_cpu = ho_cpu h,
      k_gdt = \<lparr>GDT = replicate GDT_IDX_LIMIT 0, TSS = tss_zero, gdt_sel = 0, gdt_cpu = ho_cpu h\<rparr>,
      k_idt = \<lparr>idt = replicate IDT_SIZE 0, idtr = 0, idt_cpu = ho_cpu h\<rparr>,
      k_apic = \<lparr>lapic_base_vma = 0, lapic_base_pma = 0, lapic_reg = 0, ap_kern = ho_kern h, ap_cpu = ho_cpu h, ap_log = []\<rparr>,
      k_proc = \<lparr>kern = ho_kern h, proc_table = procs, proc_num = 0, PID = 0, proc_queue_start = 0, proc_queue_end = 0,
        next_pid = 0, TSS_esp0 = 0\<rparr>\<rparr>"

end
