(* ===== verification/Apic_Correct.thy ===== *)
theory Apic_Correct
  imports Apic Kernel_Memory
begin

text \<open>
  The set-up of the local interrupt controller: its page source keeps the contract of page sources, so the
  block that \<open>apic_init\<close> gets from the heap is the page of the registers.
\<close>

section \<open>The page source\<close>

definition lvt_own :: "u32 \<Rightarrow> kstate \<Rightarrow> u32 list" where
  "lvt_own base s = (if get_page_first_run s then [base] else [])"

interpretation lvt_pages: page_source "lvt_get_page_pma (Suc depth) base" "lvt_own base"
proof
  fix s d cs ns E ps
  assume mid: "heap_mid s d cs ns E" and pool: "pool_ok s d cs ps"
  let ?own = "lvt_own base"
  show "\<exists>s' cs' ns' ps'. lvt_get_page_pma (Suc depth) base s = Inr (frame_of (?own s) s ps 0, s') \<and>
      page_step {} d E s cs ps s' cs' ns' ps' \<and> takes 1 (?own s) s ps (?own s') s' ps'"
  proof (cases "get_page_first_run s")
    case True
    let ?s = "s\<lparr>get_page_first_run := False\<rparr>"
    have "heap_mid ?s d cs ns E" "pool_ok ?s d cs ps"
      using mid pool by (simp_all add: heap_mid_def heap_at_def pool_ok_def)
    then have "page_step {} d E s cs ps ?s cs ns ps" by (simp add: page_step_def page_env_def)
    moreover have "takes 1 (?own s) s ps (?own ?s) ?s ps"
      using True by (simp add: takes_def lvt_own_def frame_of_def Let_def)
    moreover have "lvt_get_page_pma (Suc depth) base s = Inr (frame_of (?own s) s ps 0, ?s)"
      using True by (simp add: lvt_get_page_pma_def lvt_own_def frame_of_def)
    ultimately show ?thesis by blast
  next
    case False
    obtain s' cs' ns' ps' where g: "page_new (Suc depth) s = Inr (frame_of [] s ps 0, s')"
        "page_step {} d E s cs ps s' cs' ns' ps'" "get_page_first_run s' = get_page_first_run s" "takes 1 [] s ps [] s' ps'"
      using page_new_ok [OF mid pool, of depth] by blast
    then show ?thesis using False
      by (intro exI [of _ s'] exI [of _ cs'] exI [of _ ns'] exI [of _ ps']) (simp add: lvt_get_page_pma_def lvt_own_def)
  qed
next
  fix t s :: kstate
  assume "get_page_first_run t = get_page_first_run s"
  then show "lvt_own base t = lvt_own base s" by (simp add: lvt_own_def)
qed

section \<open>\<open>apic_init\<close>\<close>

definition apic_frame :: "apic_env \<Rightarrow> u32" where
  "apic_frame a = ucast (msrs (ap_cpu a) IA32_APIC_BASE_MSR) AND NOT (mask 12)"

lemma pic_disable_msrs [simp]: "msrs (pic_disable c) = msrs c"
  by (simp add: pic_disable_def outb_def)

text \<open>The registers lie in the page.\<close>

lemma apic_offset_less: "unat (apic_offset r) + 4 \<le> 4096"
  by (cases r) simp_all

lemma lapic_write_mem:
  assumes mem: "mem_ok (ap_kern a) d L tb cs ps" and A: "(A, 4096) \<in> clients d cs ps" "lapic_reg a = word_of_nat A"
  shows "mem_ok (ap_kern (lapic_write r v a)) d L tb cs ps"
    and "kept_but {A..<A + 4096} (ap_kern a) (ap_kern (lapic_write r v a))"
    and "takes 0 [] (ap_kern a) ps [] (ap_kern (lapic_write r v a)) ps"
proof -
  let ?a = "A + unat (apic_offset r)"
  have e: "ap_kern (lapic_write r v a) = wr (word_of_nat ?a) v (ap_kern a)"
    by (simp add: lapic_write_def apic_idx_offset A(2))
  have rng: "A \<le> ?a" "?a + 4 \<le> A + 4096" using apic_offset_less [of r] by simp_all
  note w = mem_client_write [OF mem A(1) rng]
  show "mem_ok (ap_kern (lapic_write r v a)) d L tb cs ps" unfolding e by (rule w(1))
  show "kept_but {A..<A + 4096} (ap_kern a) (ap_kern (lapic_write r v a))"
    unfolding e kept_but_def wr_fields by (intro allI impI cell_upd_other [OF w(2)]) (use rng in auto)
  show "takes 0 [] (ap_kern a) ps [] (ap_kern (lapic_write r v a)) ps"
    unfolding e by (rule takes_0) (use w(3) in \<open>auto simp: pool_cells_def\<close>)
qed

definition divider_set :: "u32 \<Rightarrow> u32" where
  "divider_set x = set_field lvt_timer ''divide'' 0xa x"

lemma divider_set_low: "divider_set x AND 0xf = 0xa"
proof -
  have sp: "field_span lvt_timer ''divide'' 0 = Some (0, 4)" by (simp add: lvt_timer_def)
  have m: "(0xf :: u32) = mask 4" by (simp add: mask_eq_exp_minus_1)
  have "divider_set x AND mask 4 = 0xa AND mask 4"
    by (rule bit_word_eqI) (auto simp: divider_set_def bit_set_field [OF sp] bit_simps)
  then show ?thesis unfolding m [symmetric] by simp
qed

definition timer_warnings :: "cpuid_insn \<Rightarrow> message list" where
  "timer_warnings cpuid =
     (if thermal_arat (cpuid_thermal cpuid) = 0
      then [(''lapic_timer_init: WARNING: APIC timer is not persistent'' @ [CHR 0x0A], [])] else [])"

text \<open>The three registers that are written, and what else the timer's set-up leaves alone.\<close>

lemma timer_init_mem:
  assumes mem: "mem_ok (ap_kern a) d L tb cs ps" and A: "(A, 4096) \<in> clients d cs ps" "lapic_reg a = word_of_nat A"
  shows "mem_ok (ap_kern (lapic_timer_init cpuid period a)) d L tb cs ps \<and>
    kept_but {A..<A + 4096} (ap_kern a) (ap_kern (lapic_timer_init cpuid period a)) \<and>
    takes 0 [] (ap_kern a) ps [] (ap_kern (lapic_timer_init cpuid period a)) ps \<and>
    page_env (ap_kern a) (ap_kern (lapic_timer_init cpuid period a)) \<and>
    lapic_read APIC_LVT_TR (lapic_timer_init cpuid period a) = 0x20041 \<and>
    lapic_read APIC_INIT_COUNT (lapic_timer_init cpuid period a) = period \<and>
    lapic_read APIC_DIV_CONFIG (lapic_timer_init cpuid period a) = divider_set (lapic_read APIC_DIV_CONFIG a) \<and>
    lapic_reg (lapic_timer_init cpuid period a) = lapic_reg a \<and> lapic_base_pma (lapic_timer_init cpuid period a) = lapic_base_pma a \<and>
    ap_cpu (lapic_timer_init cpuid period a) = ap_cpu a \<and>
    ap_log (lapic_timer_init cpuid period a) = ap_log a @ timer_warnings cpuid"
proof -
  let ?a1 = "if thermal_arat (cpuid_thermal cpuid) = 0
    then ap_print ''lapic_timer_init: WARNING: APIC timer is not persistent'' a else a"
  have a1: "ap_kern ?a1 = ap_kern a" "lapic_reg ?a1 = lapic_reg a" "lapic_base_pma ?a1 = lapic_base_pma a" "ap_cpu ?a1 = ap_cpu a"
    "ap_log ?a1 = ap_log a @ timer_warnings cpuid"
    by (simp_all add: ap_print_def timer_warnings_def)
  let ?a2 = "lapic_write APIC_LVT_TR timer_entry ?a1"
  let ?a3 = "lapic_write APIC_DIV_CONFIG (divider_set (lapic_read APIC_DIV_CONFIG ?a2)) ?a2"
  have run: "lapic_timer_init cpuid period a = lapic_write APIC_INIT_COUNT period ?a3"
    by (simp add: lapic_timer_init_def Let_def divider_set_def)
  have reg: "lapic_reg ?a1 = word_of_nat A" "lapic_reg ?a2 = word_of_nat A" "lapic_reg ?a3 = word_of_nat A"
    using A(2) a1(2) by simp_all
  note w1 = lapic_write_mem [OF mem [folded a1(1)] A(1) reg(1), of APIC_LVT_TR timer_entry]
  note w2 = lapic_write_mem [OF w1(1) A(1) reg(2), of APIC_DIV_CONFIG "divider_set (lapic_read APIC_DIV_CONFIG ?a2)"]
  note w3 = lapic_write_mem [OF w2(1) A(1) reg(3), of APIC_INIT_COUNT period]
  have rd: "lapic_read r ?a1 = lapic_read r a" for r using a1 by (simp add: lapic_read_def)
  have "kept_but {A..<A + 4096} (ap_kern a) (ap_kern (lapic_timer_init cpuid period a))"
    unfolding run using w1(2) w2(2) w3(2) unfolding a1(1) kept_but_def by metis
  moreover have "takes 0 [] (ap_kern a) ps [] (ap_kern (lapic_timer_init cpuid period a)) ps"
    unfolding run using takes_trans [OF takes_trans [OF w1(3) w2(3)] w3(3)] unfolding a1(1) by simp
  moreover have "page_env (ap_kern a) (ap_kern (lapic_timer_init cpuid period a))"
    unfolding run lapic_write_def by (simp add: page_env_def a1)
  ultimately show ?thesis
    using w3(1) a1(2-5) unfolding run lapic_read_write
    by (simp add: timer_entry_eq rd)
qed

text \<open>The block of the registers, and their set-up.\<close>

definition apic_set :: "apic_env \<Rightarrow> u32 \<Rightarrow> apic_env \<Rightarrow> bool" where
  "apic_set a vma a' \<longleftrightarrow> lapic_reg a' = vma \<and> lapic_base_pma a' = apic_frame a \<and>
     page_get_entry (ap_kern a') vma = apic_frame a OR PAGE_WRITE OR PAGE_PRESENT \<and>
     lapic_read APIC_LVT_TR a' = 0x20041 \<and> lapic_read APIC_INIT_COUNT a' = 0x10000 \<and>
     lapic_read APIC_DIV_CONFIG a' AND 0xf = 0xa \<and> ports (ap_cpu a') = ports (ap_cpu a) @ [(0x21, 0xff), (0xa1, 0xff)]"

lemma apic_init_mem:
  assumes mem: "mem_ok (ap_kern a) d L tb cs ps" and first: "get_page_first_run (ap_kern a)"
    and gap: "gap_of 12 (d + total cs + 8) \<noteq> 8" and lim: "d + total cs + 8224 \<le> L"
    and ne: "entry_cell (ap_kern a) (aligned_end 12 (d + total cs + 8)) \<noteq>
      entry_cell (ap_kern a) (aligned_end 12 (d + total cs + 8) + 4096)"
    and ver: "version_apic (cpuid_version cpuid) \<noteq> 0" "version_msr (cpuid_version cpuid) \<noteq> 0"
  shows "\<exists>a' cs' ps'. apic_init (Suc depth) cpuid stale a = Inr a' \<and> mem_ok (ap_kern a') d L tb cs' ps' \<and>
    mem_grant (ap_kern a) d tb cs ps (aligned_end 12 (d + total cs + 8)) 4096 (ap_kern a') cs' ps' \<and>
    d + total cs' = aligned_end 12 (d + total cs + 8) + 4096 \<and> length ps' = length ps - 1 \<and>
    (\<forall>i. frame_of [] (ap_kern a') ps' i = frame_of [] (ap_kern a) ps (Suc i)) \<and>
    entries_but {entry_cell (ap_kern a) (aligned_end 12 (d + total cs + 8)),
      entry_cell (ap_kern a) (aligned_end 12 (d + total cs + 8) + 4096)} (ap_kern a) (ap_kern a') \<and>
    apic_set a (word_of_nat (aligned_end 12 (d + total cs + 8))) a' \<and>
    (bit (msrs (ap_cpu a) IA32_APIC_BASE_MSR) 8 \<longrightarrow> ap_cpu a' = pic_disable (ap_cpu a) \<and>
      ap_log a' = ap_log a @ timer_warnings cpuid)"
proof -
  let ?s = "ap_kern a" and ?A = "aligned_end 12 (d + total cs + 8)"
  let ?a1 = "a\<lparr>ap_cpu := pic_disable (ap_cpu a)\<rparr>"
  let ?msr = "get_msr stale IA32_APIC_BASE_MSR (ap_cpu ?a1)"
  let ?a2 = "if get_field apic_base_msr ''bsp'' ?msr = 0
    then (ap_print ''apic_init: Halting core (not bootstrap)'' ?a1)\<lparr>ap_cpu := halt (ap_cpu ?a1)\<rparr> else ?a1"
  let ?base = "push_bit 12 (ucast (get_field apic_base_msr ''base'' ?msr)) :: u32"
  let ?a3 = "?a2\<lparr>lapic_base_pma := ?base\<rparr>"
  have base: "?base = apic_frame a" unfolding apic_base_fields by (simp add: apic_frame_def)
  have a2: "ap_kern ?a3 = ?s" "ports (ap_cpu ?a3) = ports (ap_cpu a) @ [(0x21, 0xff), (0xa1, 0xff)]"
    by (simp_all add: ap_print_def halt_def pic_disable_def outb_def)
  have bsp: "bit (msrs (ap_cpu a) IA32_APIC_BASE_MSR) 8 \<Longrightarrow> ?a2 = ?a1"
    unfolding apic_base_fields by simp
  have own: "lvt_own (apic_frame a) ?s = [apic_frame a]" using first by (simp add: lvt_own_def)
  obtain s1 cs' ps' where g: "alloc (lvt_get_page_pma (Suc depth) (apic_frame a)) PAGE_SIZE PAGE_SIZE ?s = Inr (word_of_nat ?A, s1)"
      "mem_ok s1 d L tb cs' ps'" "mem_grant ?s d tb cs ps ?A 4096 s1 cs' ps'" "d + total cs' = ?A + 4096"
      "entries_but {entry_cell ?s ?A, entry_cell ?s (?A + 4096)} ?s s1"
      "gets_pages [apic_frame a] ?s ps (lvt_own (apic_frame a) s1) s1 ps' ?A 4096"
    using lvt_pages.page_mem [OF mem gap lim, of depth "apic_frame a"] unfolding own by blast
  note mg = mem_grantD [OF g(3)]
  have dvd: "4096 dvd ?A" using aligned_end_dvd [of 12] by simp
  have tk: "takes 2 [apic_frame a] ?s ps (lvt_own (apic_frame a) s1) s1 ps'"
    and pm: "pages_mapped (frame_of [apic_frame a] ?s ps) s1 ?A (pages_needed ?A 4096)"
    using g(6) pages_of_page(2) [OF dvd] unfolding gets_pages_def by simp_all
  have "lvt_own (apic_frame a) s1 = []" using takesD(4) [OF tk] by simp
  then have fr: "frame_of [] s1 ps' i = frame_of [] ?s ps (Suc i)" and len: "length ps' = length ps - 1" for i
    using takesD(1,2) [OF tk] by (simp_all add: frame_of_def Let_def nth_Cons')
  have ec: "entry_cell s1 w = entry_cell ?s w" for w by (rule entry_cell_cong [OF page_env_lookup [OF mg(7)]])
  have entA: "cell (mem s1) (entry_cell ?s ?A) = apic_frame a OR PAGE_WRITE OR PAGE_PRESENT"
    using mapped_pair(1) [OF dvd _ pm] ne unfolding ec by (simp add: frame_of_def)
  let ?a5 = "?a3\<lparr>ap_kern := s1, lapic_base_vma := word_of_nat ?A, lapic_reg := word_of_nat ?A\<rparr>"
  let ?a' = "lapic_timer_init cpuid 0x10000 ?a5"
  have run: "apic_init (Suc depth) cpuid stale a = Inr ?a'"
    using g(1) ver a2(1) base unfolding apic_init_def Let_def kalloc_def by simp
  have cA: "(?A, 4096) \<in> clients d cs' ps'" using mg(1) by simp
  have mem5: "mem_ok (ap_kern ?a5) d L tb cs' ps'" "lapic_reg ?a5 = word_of_nat ?A" using g(2) by simp_all
  note ti = timer_init_mem [OF mem5(1) cA mem5(2), of cpuid "0x10000"]
  have kb: "kept_but {?A..<?A + 4096} s1 (ap_kern ?a')" using ti by simp
  have out: "entry_cell ?s w \<notin> {?A..<?A + 4096}" for w
  proof (rule entry_cases [OF mem_okD(3,4) [OF mem], of w])
    assume "entry_cell ?s w + 4 \<le> d"
    then show ?thesis using mg(3) by simp
  next
    assume "L \<le> entry_cell ?s w"
    moreover have "?A \<le> d + total cs + 8 + 4095" by (simp add: aligned_end_def)
    ultimately show ?thesis using lim by simp
  next
    fix t assume "(t, 4096) \<in> clients d cs ps" "t \<le> entry_cell ?s w" "entry_cell ?s w + 4 \<le> t + 4096"
    then show ?thesis using mg(2) [of t 4096] by auto
  qed
  have ent': "cell (mem (ap_kern ?a')) (entry_cell ?s w) = cell (mem s1) (entry_cell ?s w)" for w
    by (rule kept_butD [OF kb entry_cell_less(1) out])
  have env: "page_env ?s (ap_kern ?a')" using page_env_trans [OF mg(7)] ti by simp
  have "keeps {} (clients d cs ps - table_blocks tb) (mem ?s) (mem (ap_kern ?a'))"
  proof (rule keepsI)
    fix k c x assume x: "(k, c) \<in> clients d cs ps - table_blocks tb" "k \<le> x" "x + 4 \<le> k + c"
    then have "x \<notin> {?A..<?A + 4096}" using mg(2) [of k c] by auto
    moreover have "(k, c) \<in> clients d cs' ps'" using x(1) mg(1) by simp
    then have "x < 2 ^ 32" using mem_client_write(2) [OF g(2)] x(2,3) by blast
    ultimately have "cell (mem (ap_kern ?a')) x = cell (mem s1) x" using kept_butD [OF kb] by blast
    then show "cell (mem (ap_kern ?a')) x = cell (mem ?s) x" using keepsD [OF mg(6) x(1)] x(2,3) by simp
  qed
  then have "mem_grant ?s d tb cs ps ?A 4096 (ap_kern ?a') cs' ps'"
    using g(3) env unfolding mem_grant_def by blast
  moreover have "entries_but {entry_cell ?s ?A, entry_cell ?s (?A + 4096)} ?s (ap_kern ?a')"
    unfolding entries_but_def ent' using entries_butD [OF g(5)] by blast
  moreover have "frame_of [] (ap_kern ?a') ps' i = frame_of [] ?s ps (Suc i)" for i
  proof -
    have "takes 0 [] s1 ps' [] (ap_kern ?a') ps'" using ti by simp
    then show ?thesis using takesD(1) [of 0 "[]" s1 ps'] fr by simp
  qed
  moreover have "page_get_entry (ap_kern ?a') (word_of_nat ?A) = cell (mem (ap_kern ?a')) (entry_cell ?s ?A)"
    unfolding page_get_entry_def entry_word [symmetric] entry_cell_cong [OF page_env_lookup [OF env]] by (simp only: cell_def)
  then have "apic_set a (word_of_nat ?A) ?a'"
    using entA ti base a2(2) divider_set_low unfolding apic_set_def ent' by simp
  moreover have "ap_cpu ?a' = pic_disable (ap_cpu a) \<and> ap_log ?a' = ap_log a @ timer_warnings cpuid"
    if "bit (msrs (ap_cpu a) IA32_APIC_BASE_MSR) 8"
    using ti bsp [OF that] by simp
  moreover have "mem_ok (ap_kern ?a') d L tb cs' ps'" using ti by simp
  ultimately show ?thesis using run g(4) len by blast
qed

end
