(* ===== verification/Proc_Init.thy ===== *)
theory Proc_Init
  imports Proc_Queue Kernel_Memory
begin

text \<open>
  Setting up the processes: \<open>proc_register\<close> and \<open>proc_init\<close> on the kernel's memory.  From \<open>proc_init\<close> on
  the free page list is empty, as the process table takes more pages than the init section gave back.
\<close>

section \<open>Steps that keep the live blocks\<close>

definition mem_step :: "nat \<Rightarrow> nat set \<Rightarrow> kstate \<Rightarrow> chunk list \<Rightarrow> kstate \<Rightarrow> chunk list \<Rightarrow> bool" where
  "mem_step d tb s cs s' cs' \<longleftrightarrow> clients d cs [] \<subseteq> clients d cs' [] \<and> total cs \<le> total cs' \<and>
     keeps {} (clients d cs [] - table_blocks tb) (mem s) (mem s') \<and> page_env s s'"

lemma mem_stepD:
  assumes "mem_step d tb s cs s' cs'"
  shows "clients d cs [] \<subseteq> clients d cs' []" "total cs \<le> total cs'"
    "keeps {} (clients d cs [] - table_blocks tb) (mem s) (mem s')" "page_env s s'"
  using assms by (simp_all add: mem_step_def)

lemma mem_step_trans:
  assumes "mem_step d tb s cs s1 cs1" and "mem_step d tb s1 cs1 s2 cs2"
  shows "mem_step d tb s cs s2 cs2"
proof -
  note a = mem_stepD [OF assms(1)] and b = mem_stepD [OF assms(2)]
  have "keeps {} (clients d cs [] - table_blocks tb) (mem s) (mem s2)"
    by (rule keeps_trans [OF a(3) keeps_mono [OF b(3)]]) (use a(1) in auto)
  then show ?thesis using a b page_env_trans [OF a(4) b(4)] by (auto simp: mem_step_def)
qed

lemma mem_step_grant: "mem_grant s d tb cs [] n b s' cs' [] \<Longrightarrow> mem_step d tb s cs s' cs'"
  by (auto simp: mem_grant_def mem_step_def)

text \<open>A write to a block that was not there before.\<close>

lemma mem_step_write:
  assumes st: "mem_step d tb s cs s' cs'" and mem: "mem_ok s' d L tb cs' []"
    and n: "(n, b) \<in> clients d cs' []" "(n, b) \<notin> clients d cs []" and a: "n \<le> a" "a + 4 \<le> n + b"
  shows "mem_step d tb s cs (wr (word_of_nat a) x s') cs'"
proof -
  note k = mem_stepD [OF st] and a32 = mem_client_write(2) [OF mem n(1) a]
  have "keeps {} (clients d cs [] - table_blocks tb) (mem s) (mem (wr (word_of_nat a) x s'))"
  proof (rule keepsI)
    fix m c y assume y: "(m, c) \<in> clients d cs [] - table_blocks tb" "m \<le> y" "y + 4 \<le> m + c"
    then have mc: "(m, c) \<in> clients d cs' []" "(m, c) \<noteq> (n, b)" using k(1) n(2) by auto
    have "y \<noteq> a" using blocks_disjoint [of m c d cs' n b] mc n(1) y a by (auto simp: clients_def)
    moreover have "y < 2 ^ 32" using mem_client_write(2) [OF mem mc(1) y(2,3)] .
    ultimately have "cell (mem (wr (word_of_nat a) x s')) y = cell (mem s') y"
      unfolding wr_fields by (intro cell_upd_other [OF a32]) auto
    then show "cell (mem (wr (word_of_nat a) x s')) y = cell (mem s) y" using keepsD [OF k(3) y(1)] y(2,3) by simp
  qed
  then show ?thesis using k by (simp add: mem_step_def page_env_def)
qed

section \<open>Allocations with an empty free page list\<close>

lemma small_alloc:
  assumes mem: "mem_ok s d L tb cs []" and req: "unat bytes + 8 \<le> 2 ^ 32" and lim: "d + total cs + rounded (unat bytes) + 16 \<le> L"
  shows "\<exists>n s' cs'. kmalloc (Suc depth) bytes s = Inr (word_of_nat n, s') \<and> mem_ok s' d L tb cs' [] \<and>
    mem_grant s d tb cs [] n (rounded (unat bytes)) s' cs' [] \<and> total cs' \<le> total cs + 8 + rounded (unat bytes)"
proof -
  obtain n s' cs' ps' where g: "kmalloc (Suc depth) bytes s = Inr (word_of_nat n, s')" "mem_ok s' d L tb cs' ps'"
      "mem_grant s d tb cs [] n (rounded (unat bytes)) s' cs' ps'" "total cs' \<le> total cs + 8 + rounded (unat bytes)"
    using kmalloc_mem [OF assms, of depth] by blast
  then show ?thesis using mem_grantD(9) [OF g(3)] by auto
qed

lemma page_alloc:
  assumes mem: "mem_ok s d L tb cs []" and gap: "gap_of 12 (d + total cs + 8) \<noteq> 8" and lim: "d + total cs + 8224 \<le> L"
  shows "\<exists>s' cs'. kalloc (page_new (Suc depth)) PAGE_SIZE PAGE_SIZE s = Inr (word_of_nat (aligned_end 12 (d + total cs + 8)), s') \<and>
    mem_ok s' d L tb cs' [] \<and> mem_grant s d tb cs [] (aligned_end 12 (d + total cs + 8)) 4096 s' cs' [] \<and>
    d + total cs' = aligned_end 12 (d + total cs + 8) + 4096"
proof -
  obtain s' cs' ps' where g: "alloc (page_new (Suc depth)) PAGE_SIZE PAGE_SIZE s = Inr (word_of_nat (aligned_end 12 (d + total cs + 8)), s')"
      "mem_ok s' d L tb cs' ps'" "mem_grant s d tb cs [] (aligned_end 12 (d + total cs + 8)) 4096 s' cs' ps'"
      "d + total cs' = aligned_end 12 (d + total cs + 8) + 4096"
    using kernel_pages.page_mem [OF assms, of depth] by blast
  then show ?thesis using mem_grantD(9) [OF g(3)] by (auto simp: kalloc_def)
qed

lemma bump_mem:
  assumes mem: "mem_ok s d L tb cs []"
  shows "page_new depth s = Inr (page_bump s)" and "mem_ok (snd (page_bump s)) d L tb cs []" and "mem (snd (page_bump s)) = mem s"
    and "page_env s (snd (page_bump s))" and "fst (page_bump s) = kernel_heap_end_pma s"
proof -
  have "page_free_list s = 0" using mem_okD(2) [OF mem] by simp
  then show "page_new depth s = Inr (page_bump s)" by (rule page_new_bump)
  have f: "mem (snd (page_bump s)) = mem s" "page_free_list (snd (page_bump s)) = page_free_list s"
    "kernel_ctxt (snd (page_bump s)) = kernel_ctxt s"
    by (simp_all add: page_bump_def)
  show env: "page_env s (snd (page_bump s))" by (simp add: page_env_def page_bump_def)
  from mem_okD(1) [OF mem] obtain ns where "heap_ok s d cs ns" by blast
  then have "heap_ok (snd (page_bump s)) d cs ns" unfolding heap_ok_def heap_at_def f .
  then show "mem_ok (snd (page_bump s)) d L tb cs []"
    by (rule mem_okI [OF mem]) (use mem_okD(2) [OF mem] env f in simp_all)
qed (simp_all add: page_bump_def)

text \<open>The gap before an aligned block is large enough when few bytes of the last page are used.\<close>

lemma gap_large:
  assumes "e mod 4096 < 4080"
  shows "gap_of 12 (e + 8) \<noteq> 8" and "aligned_end 12 (e + 8) \<le> e + 4104" and "e + 8 \<le> aligned_end 12 (e + 8)"
proof -
  obtain q r where e: "e = 4096 * q + r" "r < 4080" using assms by (metis mult_div_mod_eq)
  have "4096 dvd 4096 * q" by simp
  then have "aligned_end 12 (4096 * q + (r + 8)) = 4096 * q + 4096" using e(2) by (intro aligned_end_page) simp_all
  then have "aligned_end 12 (e + 8) = 4096 * q + 4096" by (simp add: e(1) add.assoc)
  then show "gap_of 12 (e + 8) \<noteq> 8" "aligned_end 12 (e + 8) \<le> e + 4104" "e + 8 \<le> aligned_end 12 (e + 8)"
    using e by (simp_all add: gap_of_def)
qed

section \<open>The processes in kernel memory\<close>

definition user_flags :: u32 where
  "user_flags = PAGE_PUBLIC OR PAGE_WRITE OR PAGE_PRESENT"

text \<open>
  A node of a list of page tables: it enters at directory index 895 a page table, a block of the heap that
  is not in use as one of the kernel's, whose last entry is the page below the kernel, the process' stack.
\<close>

definition space_node :: "nat \<Rightarrow> nat set \<Rightarrow> kstate \<Rightarrow> chunk list \<Rightarrow> u32 \<Rightarrow> bool" where
  "space_node d tb s cs n \<longleftrightarrow> (unat n, 16) \<in> clients d cs [] \<and> mem s (n + 4) = 895 \<and>
     (unat (mem s (n + 8)), 4096) \<in> clients d cs [] - table_blocks tb \<and>
     (\<exists>f. mem s (n + 12) = f OR user_flags) \<and> (\<exists>f. mem s (mem s (n + 8) + 4092) = f OR user_flags)"

definition proc_heap ::
  "nat \<Rightarrow> nat \<Rightarrow> nat set \<Rightarrow> pstate \<Rightarrow> chunk list \<Rightarrow> u32 list \<Rightarrow> (u16 \<Rightarrow> u32 list) \<Rightarrow> bool"
where
  "proc_heap d L tb e cs qs pl \<longleftrightarrow> mem_ok (kern e) d L tb cs [] \<and> queue_is e qs \<and> in_heap d cs [] qs \<and>
     (\<forall>q. sll (mem (kern e)) (page_tables (proc_table e q)) (pl q) \<and> (\<forall>n\<in>set (pl q). space_node d tb (kern e) cs n))"

lemma proc_heapD:
  assumes "proc_heap d L tb e cs qs pl"
  shows "mem_ok (kern e) d L tb cs []" "queue_is e qs" "in_heap d cs [] qs"
    "sll (mem (kern e)) (page_tables (proc_table e q)) (pl q)" "n \<in> set (pl q) \<Longrightarrow> space_node d tb (kern e) cs n"
  using assms unfolding proc_heap_def by blast+

lemma small_not_table: "b \<noteq> 4096 \<Longrightarrow> (n, b) \<in> clients d cs ps \<Longrightarrow> (n, b) \<in> clients d cs ps - table_blocks tb"
  by (auto simp: table_blocks_def)

lemma cell_offset: "m (n + word_of_nat k) = cell m (unat n + k)"
  by (simp add: cell_def)

lemma kept_word:
  assumes "mem_step d tb s cs s' cs'" and "(unat n, b) \<in> clients d cs [] - table_blocks tb" and "k + 4 \<le> b"
  shows "mem s' (n + word_of_nat k) = mem s (n + word_of_nat k)"
  unfolding cell_offset by (rule keepsD [OF mem_stepD(3) [OF assms(1)] assms(2)]) (use assms(3) in simp_all)

lemma space_node_step:
  assumes st: "mem_step d tb s cs s' cs'" and n: "space_node d tb s cs n"
  shows "space_node d tb s' cs' n" and "mem s' n = mem s n" and "mem s' (n + 8) = mem s (n + 8)"
proof -
  note u = n [unfolded space_node_def]
  have b: "(unat n, 16) \<in> clients d cs [] - table_blocks tb" using u by (intro small_not_table) simp_all
  have w: "mem s' (n + word_of_nat k) = mem s (n + word_of_nat k)" if "k + 4 \<le> 16" for k by (rule kept_word [OF st b that])
  from w [of 0] w [of 8] show "mem s' n = mem s n" "mem s' (n + 8) = mem s (n + 8)" by simp_all
  have "mem s' (mem s (n + 8) + word_of_nat 4092) = mem s (mem s (n + 8) + word_of_nat 4092)"
    by (rule kept_word [OF st]) (use u in auto)
  then show "space_node d tb s' cs' n"
    using u mem_stepD(1) [OF st] w [of 4] w [of 8] w [of 12] unfolding space_node_def by auto
qed

text \<open>A step that keeps the live blocks keeps the queue and the lists of page tables.\<close>

lemma proc_heap_step:
  assumes ph: "proc_heap d L tb e cs qs pl" and st: "mem_step d tb (kern e) cs (kern e') cs'"
    and mem: "mem_ok (kern e') d L tb cs' []"
    and q: "proc_queue_start e' = proc_queue_start e" "proc_queue_end e' = proc_queue_end e"
    and pt: "\<And>q. page_tables (proc_table e' q) = page_tables (proc_table e q)"
  shows "proc_heap d L tb e' cs' qs pl" and "pids e' qs = pids e qs"
proof -
  note p = proc_heapD [OF ph]
  have blk: "(unat a, 8) \<in> clients d cs [] - table_blocks tb" if "a \<in> set qs" for a
    using p(3) that by (intro small_not_table) (simp_all add: in_heap_def)
  have k: "mem (kern e') (a + word_of_nat k) = mem (kern e) (a + word_of_nat k)" if "a \<in> set qs" "k + 4 \<le> 8" for a k
    by (rule kept_word [OF st blk [OF that(1)] that(2)])
  have k0: "mem (kern e') a = mem (kern e) a" "node_pid (kern e') a = node_pid (kern e) a" if "a \<in> set qs" for a
    using k [OF that, of 0] k [OF that, of 4] by (simp_all add: node_pid_def)
  then show "pids e' qs = pids e qs" by (simp add: pids_def)
  have "queue_is e' qs"
    using p(2) sll_cong [OF k0(1)] unfolding queue_is_def queue_ok_def q by (auto split: if_splits)
  moreover have "in_heap d cs' [] qs" using p(3) mem_stepD(1) [OF st] by (auto simp: in_heap_def)
  moreover have "sll (mem (kern e')) (page_tables (proc_table e' r)) (pl r)" for r
    unfolding pt by (rule sll_cong [OF _ p(4)]) (use space_node_step(2) [OF st p(5)] in blast)
  moreover have "space_node d tb (kern e') cs' n" if "n \<in> set (pl r)" for n r
    by (rule space_node_step(1) [OF st p(5) [OF that]])
  ultimately show "proc_heap d L tb e' cs' qs pl" using mem by (simp add: proc_heap_def)
qed

text \<open>The page tables that a list of nodes enters stay the same.\<close>

definition same_tables :: "kstate \<Rightarrow> kstate \<Rightarrow> u32 list \<Rightarrow> bool" where
  "same_tables s s' ns \<longleftrightarrow> (\<forall>n\<in>set ns. mem s' (n + 8) = mem s (n + 8))"

text \<open>What stays the same when the queue grows: every live block but the queue's nodes and the page tables in use.\<close>

definition queue_blocks :: "u32 list \<Rightarrow> (nat \<times> nat) set" where
  "queue_blocks qs = (\<lambda>q. (unat q, 8)) ` set qs"

definition proc_keep :: "nat \<Rightarrow> nat set \<Rightarrow> u32 list \<Rightarrow> kstate \<Rightarrow> chunk list \<Rightarrow> kstate \<Rightarrow> chunk list \<Rightarrow> bool" where
  "proc_keep d tb qs s cs s' cs' \<longleftrightarrow> clients d cs [] \<subseteq> clients d cs' [] \<and> page_env s s' \<and>
     keeps {} (clients d cs [] - table_blocks tb - queue_blocks qs) (mem s) (mem s')"

lemma proc_keepD:
  assumes "proc_keep d tb qs s cs s' cs'"
  shows "clients d cs [] \<subseteq> clients d cs' []" "page_env s s'"
    "keeps {} (clients d cs [] - table_blocks tb - queue_blocks qs) (mem s) (mem s')"
  using assms by (simp_all add: proc_keep_def)

lemma step_proc_keep: "mem_step d tb s cs s' cs' \<Longrightarrow> proc_keep d tb qs s cs s' cs'"
  unfolding mem_step_def proc_keep_def by (auto elim: keeps_mono)

lemma proc_keep_trans:
  assumes "proc_keep d tb qs s cs s1 cs1" and "proc_keep d tb rs s1 cs1 s2 cs2"
    and "clients d cs [] \<inter> queue_blocks rs \<subseteq> queue_blocks qs"
  shows "proc_keep d tb qs s cs s2 cs2"
proof -
  note a = proc_keepD [OF assms(1)] and b = proc_keepD [OF assms(2)]
  have "keeps {} (clients d cs [] - table_blocks tb - queue_blocks qs) (mem s) (mem s2)"
    by (rule keeps_trans [OF a(3) keeps_mono [OF b(3)]]) (use a(1) assms(3) in auto)
  then show ?thesis using a b page_env_trans [OF a(2) b(2)] by (auto simp: proc_keep_def)
qed

section \<open>Adding to the queue\<close>

lemma queue_linked_cells:
  assumes mem: "mem_ok s d L tb cs []" and p: "(unat p, 8) \<in> clients d cs []" and qs: "in_heap d cs [] qs"
  shows "mem_ok (queue_linked pid p qs s) d L tb cs []"
    and "kept_but ({unat p, unat p + 4} \<union> (if qs = [] then {} else {unat (last qs)})) s (queue_linked pid p qs s)"
proof -
  let ?sL = "if qs = [] then s else wr (last qs) p s" and ?x = "\<lambda>sL. (mem sL (p + 4) AND NOT 0xffff) OR ucast pid"
  have one: "mem_ok (wr (a + word_of_nat k) x t) d L tb cs [] \<and> kept_but {unat a + k} t (wr (a + word_of_nat k) x t)"
    if t: "mem_ok t d L tb cs []" and a: "(unat a, 8) \<in> clients d cs []" "k + 4 \<le> 8" for a k x t
  proof -
    have w: "a + word_of_nat k = word_of_nat (unat a + k)" by simp
    have r: "unat a \<le> unat a + k" "unat a + k + 4 \<le> unat a + 8" using a(2) by simp_all
    note cw = mem_client_write [OF t a(1) r]
    show ?thesis unfolding w kept_but_def wr_fields using cw(1) cell_upd_other [OF cw(2)] by auto
  qed
  have L: "mem_ok ?sL d L tb cs [] \<and> kept_but (if qs = [] then {} else {unat (last qs)}) s ?sL"
  proof (cases "qs = []")
    case False
    then have "(unat (last qs), 8) \<in> clients d cs []" using qs by (simp add: in_heap_def)
    then show ?thesis using one [OF mem, of "last qs" 0 p] False by simp
  qed (simp add: mem kept_but_def)
  have 1: "mem_ok (wr (p + 4) (?x ?sL) ?sL) d L tb cs [] \<and> kept_but {unat p + 4} ?sL (wr (p + 4) (?x ?sL) ?sL)"
    using one [OF conjunct1 [OF L] p, of 4] by simp
  have 2: "mem_ok (wr p 0 (wr (p + 4) (?x ?sL) ?sL)) d L tb cs [] \<and>
      kept_but {unat p} (wr (p + 4) (?x ?sL) ?sL) (wr p 0 (wr (p + 4) (?x ?sL) ?sL))"
    using one [OF conjunct1 [OF 1] p, of 0] by simp
  have e: "queue_linked pid p qs s = wr p 0 (wr (p + 4) (?x ?sL) ?sL)" by (simp add: queue_linked_def Let_def)
  show "mem_ok (queue_linked pid p qs s) d L tb cs []" unfolding e using 2 by simp
  show "kept_but ({unat p, unat p + 4} \<union> (if qs = [] then {} else {unat (last qs)})) s (queue_linked pid p qs s)"
    unfolding e using conjunct2 [OF L] conjunct2 [OF 1] conjunct2 [OF 2] unfolding kept_but_def by simp
qed

lemma queue_add_mem:
  assumes ph: "proc_heap d L tb e cs qs pl" and lim: "d + total cs + 24 \<le> L"
  shows "\<exists>e' p cs'. proc_queue_add (Suc depth) pid e = Inr e' \<and> proc_heap d L tb e' cs' (qs @ [p]) pl \<and>
    pids e' (qs @ [p]) = pids e qs @ [pid] \<and> queue_ok e' (qs @ [p]) \<and> total cs \<le> total cs' \<and> total cs' \<le> total cs + 16 \<and>
    (unat p, 8) \<notin> clients d cs [] \<and> proc_keep d tb qs (kern e) cs (kern e') cs' \<and>
    proc_table e' = proc_table e \<and> PID e' = PID e \<and> next_pid e' = next_pid e \<and>
    proc_num e' = proc_num e + 1 \<and> TSS_esp0 e' = TSS_esp0 e \<and> (\<forall>r. same_tables (kern e) (kern e') (pl r))"
proof -
  note h = proc_heapD [OF ph]
  obtain n s1 cs' where g: "kmalloc (Suc depth) 8 (kern e) = Inr (word_of_nat n, s1)" "mem_ok s1 d L tb cs' []"
      "mem_grant (kern e) d tb cs [] n 8 s1 cs' []" "total cs' \<le> total cs + 16"
    using small_alloc [OF h(1), of 8 depth] lim unfolding rounded_8 by auto
  note mg = mem_grantD [OF g(3)] and st = mem_step_grant [OF g(3)]
  define p :: u32 where "p = word_of_nat n"
  have up: "unat p = n" unfolding p_def using mg(4) mem_seg(2) [OF g(2)] by (intro unat_of_nat32) simp
  have pc: "(unat p, 8) \<in> clients d cs' []" using mg(1) up by simp
  let ?e1 = "e\<lparr>kern := s1\<rparr>"
  have ph1: "proc_heap d L tb ?e1 cs' qs pl" "pids ?e1 qs = pids e qs"
    using proc_heap_step [OF ph, of ?e1 cs'] st g(2) by simp_all
  note h1 = proc_heapD [OF ph1(1), simplified]
  have fresh: "(unat p, 8) \<notin> clients d cs []" using mg(2) [of n 8] up by auto
  then have new: "p \<notin> set qs" using h(3) by (auto simp: in_heap_def)
  from mem_okD(1) [OF g(2)] obtain ns where hk: "heap_ok s1 d cs' ns" by blast
  have kept: "mem s1 a = mem (kern e) a" "mem s1 (a + 4) = mem (kern e) (a + 4)" if "a \<in> set qs" for a
    using kept_word [OF st small_not_table, of 8 a 0] kept_word [OF st small_not_table, of 8 a 4] h(3) that
    by (simp_all add: in_heap_def)
  have pb: "(unat p, 8) \<in> set (blocks d cs')" using pc by (simp add: clients_def)
  note qa = queue_add_step [OF g(1) [folded p_def] hk h1(3) pb new h(2) kept, of pid]
  let ?e' = "queue_added pid p qs s1 e"
  note ql = queue_linked_cells [OF g(2) pc h1(3), of pid]
  have other: "mem (kern ?e') (a + word_of_nat k) = mem s1 (a + word_of_nat k)"
    if a: "(unat a, b) \<in> clients d cs' []" "b \<noteq> 8" "k + 4 \<le> b" for a b k
  proof -
    have bl: "(unat a, b) \<in> set (blocks d cs')" using a(1) by (simp add: clients_def)
    have "unat a + k \<notin> {unat r, unat r + 4}" if r: "(unat r, 8) \<in> clients d cs' []" for r :: u32
      using blocks_disjoint [OF bl, of "unat r" 8] r a(2,3) by (auto simp: clients_def)
    moreover have "(unat (last qs), 8) \<in> clients d cs' []" if "qs \<noteq> []" using h1(3) that by (simp add: in_heap_def)
    ultimately have "unat a + k \<notin> {unat p, unat p + 4} \<union> (if qs = [] then {} else {unat (last qs)})"
      using pc by auto
    moreover have "unat a + k < 2 ^ 32" using mem_client_write(2) [OF g(2) a(1), of "unat a + k"] a(3) by simp
    ultimately show ?thesis unfolding queue_added_fields cell_offset by (intro kept_butD [OF ql(2)])
  qed
  have nodes: "space_node d tb (kern ?e') cs' m \<and> mem (kern ?e') m = mem s1 m \<and> mem (kern ?e') (m + 8) = mem s1 (m + 8)"
    if m: "m \<in> set (pl r)" for m r
  proof -
    note u = h1(5) [OF m, unfolded space_node_def]
    have o: "mem (kern ?e') (m + word_of_nat k) = mem s1 (m + word_of_nat k)" if "k + 4 \<le> 16" for k
      by (rule other [of _ 16]) (use u that in simp_all)
    have t: "mem (kern ?e') (mem s1 (m + 8) + word_of_nat 4092) = mem s1 (mem s1 (m + 8) + word_of_nat 4092)"
      by (rule other [of _ 4096]) (use u in simp_all)
    show ?thesis using u o [of 0] o [of 4] o [of 8] o [of 12] t unfolding space_node_def by simp
  qed
  then have "sll (mem (kern ?e')) (page_tables (proc_table ?e' r)) (pl r)" for r
    using sll_cong [OF _ h1(4) [of r]] by simp
  moreover have "in_heap d cs' [] (qs @ [p])" using h1(3) pc by (auto simp: in_heap_def)
  moreover have "queue_is ?e' (qs @ [p])" using qa(2) by (simp add: queue_is_def)
  moreover have "mem_ok (kern ?e') d L tb cs' []" using ql(1) by simp
  ultimately have "proc_heap d L tb ?e' cs' (qs @ [p]) pl" unfolding proc_heap_def using nodes by blast
  moreover have "keeps {} (clients d cs [] - table_blocks tb - queue_blocks qs) (mem (kern e)) (mem (kern ?e'))"
  proof (rule keepsI)
    fix m c x assume x: "(m, c) \<in> clients d cs [] - table_blocks tb - queue_blocks qs" "m \<le> x" "x + 4 \<le> m + c"
    then have m: "(m, c) \<in> clients d cs' []" "(m, c) \<noteq> (unat p, 8)" using mem_stepD(1) [OF st] fresh by auto
    have apart: "x \<notin> {unat q, unat q + 4}" if q: "(unat q, 8) \<in> clients d cs' []" "(m, c) \<noteq> (unat q, 8)" for q :: u32
      using blocks_disjoint [of m c d cs' "unat q" 8] m(1) q x(2,3) by (auto simp: clients_def)
    have "x \<noteq> unat (last qs)" if ne: "qs \<noteq> []"
    proof -
      have "last qs \<in> set qs" using ne by simp
      then have "(unat (last qs), 8) \<in> clients d cs' []" "(m, c) \<noteq> (unat (last qs), 8)"
        using h1(3) x(1) by (auto simp: in_heap_def queue_blocks_def)
      then show ?thesis using apart by blast
    qed
    then have "x \<notin> {unat p, unat p + 4} \<union> (if qs = [] then {} else {unat (last qs)})" using apart [OF pc m(2)] by auto
    moreover have "x < 2 ^ 32" using mem_client_write(2) [OF g(2) m(1) x(2,3)] .
    ultimately have "cell (mem (kern ?e')) x = cell (mem s1) x" unfolding queue_added_fields by (intro kept_butD [OF ql(2)])
    moreover have "cell (mem s1) x = cell (mem (kern e)) x"
      by (rule keepsD [OF mem_stepD(3) [OF st], of m c]) (use x in auto)
    ultimately show "cell (mem (kern ?e')) x = cell (mem (kern e)) x" by simp
  qed
  then have "proc_keep d tb qs (kern e) cs (kern ?e') cs'"
    using mem_stepD(1,4) [OF st] by (simp add: proc_keep_def page_env_def queue_linked_def Let_def)
  moreover have "same_tables (kern e) (kern ?e') (pl r)" for r
    unfolding same_tables_def using nodes space_node_step(3) [OF st h(5)] by simp
  ultimately show ?thesis
    using qa mg(8) fresh g(4) by (intro exI [of _ ?e'] exI [of _ p] exI [of _ cs']) simp
qed

section \<open>The address space of a new process\<close>

text \<open>A block that a step has added.\<close>

definition fresh_block :: "nat \<Rightarrow> chunk list \<Rightarrow> chunk list \<Rightarrow> nat \<Rightarrow> nat \<Rightarrow> bool" where
  "fresh_block d cs cs' n b \<longleftrightarrow> (n, b) \<in> clients d cs' [] \<and> (n, b) \<notin> clients d cs []"

lemma fresh_write:
  assumes "mem_ok t d L tb cs' [] \<and> mem_step d tb s cs t cs'" and "fresh_block d cs cs' n b" and "k + 4 \<le> b"
  shows "mem_ok (wr (word_of_nat (n + k)) x t) d L tb cs' [] \<and> mem_step d tb s cs (wr (word_of_nat (n + k)) x t) cs'"
    and "n + k < 2 ^ 32"
proof -
  have n: "(n, b) \<in> clients d cs' []" "(n, b) \<notin> clients d cs []" "n \<le> n + k" "n + k + 4 \<le> n + b"
    using assms(2,3) by (simp_all add: fresh_block_def)
  show "mem_ok (wr (word_of_nat (n + k)) x t) d L tb cs' [] \<and> mem_step d tb s cs (wr (word_of_nat (n + k)) x t) cs'"
    using mem_client_write(1) [OF conjunct1 [OF assms(1)] n(1,3,4)]
      mem_step_write [OF conjunct2 [OF assms(1)] conjunct1 [OF assms(1)] n] by blast
  show "n + k < 2 ^ 32" by (rule mem_client_write(2) [OF conjunct1 [OF assms(1)] n(1,3,4)])
qed

lemma space_alloc:
  assumes mem: "mem_ok s d L tb cs []" and off: "(d + total cs) mod 4096 < 4080" and lim: "d + total cs + 8300 \<le> L"
  shows "\<exists>A n s1 s2 cs'. kalloc (page_new (Suc depth)) PAGE_SIZE PAGE_SIZE s = Inr (word_of_nat A, s1) \<and>
    kmalloc (Suc depth) 16 s1 = Inr (word_of_nat n, s2) \<and> mem_ok s2 d L tb cs' [] \<and> mem_step d tb s cs s2 cs' \<and>
    fresh_block d cs cs' A 4096 \<and> fresh_block d cs cs' n 16 \<and> (n + 24 \<le> A \<or> A + 4096 \<le> n) \<and>
    total cs' \<le> total cs + 8224 \<and> (d + total cs') mod 4096 \<le> 24"
proof -
  let ?A = "aligned_end 12 (d + total cs + 8)"
  note gap = gap_large [OF off]
  have lim1: "d + total cs + 8224 \<le> L" using lim by simp
  obtain s1 cs1 where a: "kalloc (page_new (Suc depth)) PAGE_SIZE PAGE_SIZE s = Inr (word_of_nat ?A, s1)"
      "mem_ok s1 d L tb cs1 []" "mem_grant s d tb cs [] ?A 4096 s1 cs1 []" "d + total cs1 = ?A + 4096"
    using page_alloc [OF mem gap(1) lim1, of depth] by blast
  have r16: "rounded (unat (16 :: u32)) = 16" by (simp add: rounded_def)
  have "d + total cs1 + 32 \<le> L" using a(4) gap(2) lim by simp
  then obtain n s2 cs2 where b: "kmalloc (Suc depth) 16 s1 = Inr (word_of_nat n, s2)" "mem_ok s2 d L tb cs2 []"
      "mem_grant s1 d tb cs1 [] n 16 s2 cs2 []" "total cs2 \<le> total cs1 + 24"
    using small_alloc [OF a(2), of 16 depth] unfolding r16 by auto
  note ma = mem_grantD [OF a(3)] and mb = mem_grantD [OF b(3)]
  have st: "mem_step d tb s cs s2 cs2" by (rule mem_step_trans [OF mem_step_grant [OF a(3)] mem_step_grant [OF b(3)]])
  have "fresh_block d cs cs2 ?A 4096" using ma(1) mb(1) ma(2) [of ?A 4096] by (auto simp: fresh_block_def)
  moreover have "fresh_block d cs cs2 n 16" using ma(1) mb(1) mb(2) [of n 16] by (auto simp: fresh_block_def)
  moreover have "n + 24 \<le> ?A \<or> ?A + 4096 \<le> n" using mb(2) [of ?A 4096] ma(1) by auto
  moreover have "total cs2 \<le> total cs + 8224" using a(4) b(4) gap(2) by simp
  moreover have "(d + total cs2) mod 4096 \<le> 24"
  proof -
    obtain q where q: "?A = 4096 * q" using aligned_end_dvd [of 12 "d + total cs + 8"] by (auto elim: dvdE)
    obtain r where r: "d + total cs2 = 4096 * (q + 1) + r" "r \<le> 24"
    proof
      show "d + total cs2 = 4096 * (q + 1) + (d + total cs2 - 4096 * (q + 1))" "d + total cs2 - 4096 * (q + 1) \<le> 24"
        using a(4) b(4) mb(8) q by simp_all
    qed
    show ?thesis unfolding r(1) mod_mult_self4 using r(2) by simp
  qed
  ultimately show ?thesis using a(1) b(1,2) st by blast
qed

text \<open>The stores of \<open>proc_page_table_register\<close> and \<open>proc_page_register\<close>, with the frame of the stack in between.\<close>

definition space_stored :: "nat \<Rightarrow> nat \<Rightarrow> u32 \<Rightarrow> u32 \<Rightarrow> kstate \<Rightarrow> kstate" where
  "space_stored A n old x s =
     (let b = page_bump (wr (word_of_nat (n + 8)) (word_of_nat A) (wr (word_of_nat (n + 12)) (x OR user_flags)
                (wr (word_of_nat (n + 4)) 895 (wr (word_of_nat (n + 0)) old s))))
      in wr (word_of_nat (A + 4092)) (fst b OR user_flags) (snd b))"

lemma space_stored_ok:
  assumes s2: "mem_ok s2 d L tb cs' [] \<and> mem_step d tb s cs s2 cs'" and A: "fresh_block d cs cs' A 4096" "A \<notin> tb"
    and n: "fresh_block d cs cs' n 16" "n + 24 \<le> A \<or> A + 4096 \<le> n"
  shows "mem_ok (space_stored A n old x s2) d L tb cs' [] \<and> mem_step d tb s cs (space_stored A n old x s2) cs'"
    and "space_node d tb (space_stored A n old x s2) cs' (word_of_nat n)" and "mem (space_stored A n old x s2) (word_of_nat n) = old"
    and "mem (space_stored A n old x s2) (word_of_nat n + 8) = word_of_nat A"
proof -
  let ?t1 = "wr (word_of_nat (n + 0)) old s2"
  let ?t2 = "wr (word_of_nat (n + 4)) 895 ?t1"
  let ?t3 = "wr (word_of_nat (n + 12)) (x OR user_flags) ?t2"
  let ?t4 = "wr (word_of_nat (n + 8)) (word_of_nat A) ?t3"
  let ?t5 = "snd (page_bump ?t4)"
  let ?t6 = "wr (word_of_nat (A + 4092)) (kernel_heap_end_pma ?t4 OR user_flags) ?t5"
  have e: "space_stored A n old x s2 = ?t6" by (simp add: space_stored_def page_bump_def Let_def)
  have 1: "mem_ok ?t1 d L tb cs' [] \<and> mem_step d tb s cs ?t1 cs'" by (rule fresh_write(1) [OF s2 n(1)]) simp
  have 2: "mem_ok ?t2 d L tb cs' [] \<and> mem_step d tb s cs ?t2 cs'" by (rule fresh_write(1) [OF 1 n(1)]) simp
  have 3: "mem_ok ?t3 d L tb cs' [] \<and> mem_step d tb s cs ?t3 cs'" by (rule fresh_write(1) [OF 2 n(1)]) simp
  have 4: "mem_ok ?t4 d L tb cs' [] \<and> mem_step d tb s cs ?t4 cs'" by (rule fresh_write(1) [OF 3 n(1)]) simp
  note bm = bump_mem [OF conjunct1 [OF 4]]
  have 5: "mem_ok ?t5 d L tb cs' [] \<and> mem_step d tb s cs ?t5 cs'"
    using 4 bm(2-4) page_env_trans by (auto simp: mem_step_def)
  show 6: "mem_ok (space_stored A n old x s2) d L tb cs' [] \<and> mem_step d tb s cs (space_stored A n old x s2) cs'"
    unfolding e by (rule fresh_write(1) [OF 5 A(1)]) simp
  have r: "n + 0 < 2 ^ 32" "n + 4 < 2 ^ 32" "n + 8 < 2 ^ 32" "n + 12 < 2 ^ 32" "A + 4092 < 2 ^ 32"
    using fresh_write(2) [OF s2 n(1), of 0] fresh_write(2) [OF s2 n(1), of 4] fresh_write(2) [OF s2 n(1), of 8]
      fresh_write(2) [OF s2 n(1), of 12] fresh_write(2) [OF s2 A(1), of 4092] by simp_all
  have un: "unat (word_of_nat n :: u32) = n" "unat (word_of_nat A :: u32) = A" using r by (simp_all add: unat_of_nat32)
  have c: "cell (mem ?t6) a = (if a = A + 4092 then kernel_heap_end_pma ?t4 OR user_flags else if a = n + 8 then word_of_nat A
      else if a = n + 12 then x OR user_flags else if a = n + 4 then 895 else if a = n + 0 then old else cell (mem s2) a)"
    if "a < 2 ^ 32" for a
    unfolding wr_fields bm(3) by (simp only: cell_upd r that eq_commute [of a])
  have w: "mem ?t6 (word_of_nat n + word_of_nat k) = cell (mem ?t6) (n + k)" for k
    unfolding cell_offset un ..
  have nA: "n \<noteq> A + 4092" "n + 4 \<noteq> A + 4092" "n + 8 \<noteq> A + 4092" "n + 12 \<noteq> A + 4092" using n(2) by auto
  have v: "mem ?t6 (word_of_nat n) = old" "mem ?t6 (word_of_nat n + 4) = 895" "mem ?t6 (word_of_nat n + 8) = word_of_nat A"
    "mem ?t6 (word_of_nat n + 12) = x OR user_flags"
    using w [of 0] w [of 4] w [of 8] w [of 12] c [of n] c [of "n + 4"] c [of "n + 8"] c [of "n + 12"] r nA by simp_all
  have "mem ?t6 (word_of_nat A + word_of_nat 4092) = cell (mem ?t6) (A + 4092)" unfolding cell_offset un ..
  then have tA: "mem ?t6 (word_of_nat A + 4092) = kernel_heap_end_pma ?t4 OR user_flags" using c [OF r(5)] by simp
  show "mem (space_stored A n old x s2) (word_of_nat n) = old" unfolding e by (rule v(1))
  show "mem (space_stored A n old x s2) (word_of_nat n + 8) = word_of_nat A" unfolding e by (rule v(3))
  have "(A, 4096) \<in> clients d cs' [] - table_blocks tb" using A by (auto simp: fresh_block_def table_blocks_def)
  then show "space_node d tb (space_stored A n old x s2) cs' (word_of_nat n)"
    unfolding e space_node_def v un using n(1) tA by (auto simp: fresh_block_def un)
qed

section \<open>\<open>proc_register\<close>\<close>

definition new_proc :: "u32 \<Rightarrow> u32 \<Rightarrow> u16 \<Rightarrow> u32 \<Rightarrow> proc \<Rightarrow> proc" where
  "new_proc entry kernel_start prio node p = p\<lparr>ctxt := proc_start_ctxt entry kernel_start (ctxt p), state := PROC_ACTIVE,
     exec_count := prio, priority := prio, page_tables := node\<rparr>"

lemma register_run:
  assumes pid: "proc_new_pid e = Inr (pid, e\<lparr>next_pid := pid + 1\<rparr>)"
    and a: "kalloc (page_new (Suc depth)) PAGE_SIZE PAGE_SIZE (kern e) = Inr (word_of_nat A, s1)"
    and b: "kmalloc (Suc depth) 16 s1 = Inr (word_of_nat n, s2)" and nofree: "page_free_list s2 = 0"
    and l: "KERNEL_START_VMA l = 0xE0000000"
  shows "\<exists>x. proc_register (Suc depth) l entry prio e =
    rbind (proc_queue_add (Suc depth) pid (e\<lparr>next_pid := pid + 1,
       proc_table := (proc_table e)(pid := new_proc entry 0xE0000000 prio (word_of_nat n) (proc_table e pid)),
       kern := space_stored A n (page_tables (proc_table e pid)) x s2\<rparr>))
      (\<lambda>e'. Inr (pid, e'))"
proof -
  let ?T = "word_of_nat A :: u32" and ?n = "word_of_nat n :: u32"
  have idx: "?T + 4 * (drop_bit 12 (0xE0000000 - PAGE_SIZE) AND 0x3ff) = word_of_nat (A + 4092)"
    "drop_bit 22 (0xE0000000 - PAGE_SIZE) = (895 :: u32)"
    by (simp_all add: PAGE_SIZE_def)
  have pn: "page_new (Suc depth) t = Inr (page_bump t)" if "page_free_list t = 0" for t
    by (rule page_new_bump [OF that])
  show ?thesis
    unfolding proc_register_def pid rbind_simps prod.case Let_def with_kern_def proc_page_table_register_def
      proc_page_register_def space_stored_def
    by (rule exI [of _ "page_get_pma s2 ?T"])
      (use a b nofree l in \<open>simp add: set_proc_def pwr_def pn idx proc_start_ctxt_def new_proc_def user_flags_def page_bump_def wr_def\<close>)
qed

lemma mod_add_small: "x mod 4096 + r < 4096 \<Longrightarrow> (x + r) mod 4096 = x mod 4096 + (r :: nat)"
  by (metis mod_add_left_eq mod_less)

lemma proc_register_ok:
  assumes ph: "proc_heap d L tb e cs qs pl" and off: "(d + total cs) mod 4096 < 4080" and lim: "d + total cs + 8300 \<le> L"
    and pid: "proc_new_pid e = Inr (pid, e\<lparr>next_pid := pid + 1\<rparr>)" and l: "KERNEL_START_VMA l = 0xE0000000"
  shows "\<exists>e' p n cs'. proc_register (Suc depth) l entry prio e = Inr (pid, e') \<and>
    proc_heap d L tb e' cs' (qs @ [p]) (pl(pid := n # pl pid)) \<and> pids e' (qs @ [p]) = pids e qs @ [pid] \<and> queue_ok e' (qs @ [p]) \<and>
    proc_table e' = (proc_table e)(pid := new_proc entry 0xE0000000 prio n (proc_table e pid)) \<and>
    PID e' = PID e \<and> next_pid e' = pid + 1 \<and> proc_num e' = proc_num e + 1 \<and> TSS_esp0 e' = TSS_esp0 e \<and>
    (unat p, 8) \<notin> clients d cs [] \<and> proc_keep d tb qs (kern e) cs (kern e') cs' \<and> total cs' \<le> total cs + 8240 \<and> (d + total cs') mod 4096 \<le> 40 \<and>
    (\<forall>r. same_tables (kern e) (kern e') (pl r)) \<and> (unat (mem (kern e') (n + 8)), 4096) \<notin> clients d cs []"
proof -
  note h = proc_heapD [OF ph]
  obtain A n s1 s2 cs1 where a: "kalloc (page_new (Suc depth)) PAGE_SIZE PAGE_SIZE (kern e) = Inr (word_of_nat A, s1)"
      "kmalloc (Suc depth) 16 s1 = Inr (word_of_nat n, s2)" "mem_ok s2 d L tb cs1 []" "mem_step d tb (kern e) cs s2 cs1"
      "fresh_block d cs cs1 A 4096" "fresh_block d cs cs1 n 16" "n + 24 \<le> A \<or> A + 4096 \<le> n"
      "total cs1 \<le> total cs + 8224" "(d + total cs1) mod 4096 \<le> 24"
    using space_alloc [OF h(1) off lim, of depth] by (elim exE conjE) (rule that)
  have nofree: "page_free_list s2 = 0" using mem_okD(2) [OF a(3)] by simp
  obtain x where run: "proc_register (Suc depth) l entry prio e =
      rbind (proc_queue_add (Suc depth) pid (e\<lparr>next_pid := pid + 1,
         proc_table := (proc_table e)(pid := new_proc entry 0xE0000000 prio (word_of_nat n) (proc_table e pid)),
         kern := space_stored A n (page_tables (proc_table e pid)) x s2\<rparr>))
        (\<lambda>e'. Inr (pid, e'))"
    using register_run [OF pid a(1,2) nofree l, of entry prio] by blast
  let ?s3 = "space_stored A n (page_tables (proc_table e pid)) x s2"
  let ?e3 = "e\<lparr>next_pid := pid + 1, proc_table := (proc_table e)(pid := new_proc entry 0xE0000000 prio (word_of_nat n) (proc_table e pid)),
    kern := ?s3\<rparr>"
  have nA: "A \<notin> tb" using a(5) mem_okD(4) [OF h(1)] by (auto simp: fresh_block_def table_blocks_def)
  note sp = space_stored_ok [OF conjI [OF a(3,4)] a(5) nA a(6,7), of "page_tables (proc_table e pid)" x]
  have ph2: "proc_heap d L tb (e\<lparr>kern := ?s3\<rparr>) cs1 qs pl" "pids (e\<lparr>kern := ?s3\<rparr>) qs = pids e qs"
    using proc_heap_step [OF ph, of "e\<lparr>kern := ?s3\<rparr>" cs1] sp(1) by simp_all
  note h2 = proc_heapD [OF ph2(1), simplified]
  have "d + 8 \<le> n" "n < 2 ^ 32"
    using a(6) blocks_range [of n 16 d cs1] fresh_write(2) [OF conjI [OF a(3,4)] a(6), of 0] by (simp_all add: fresh_block_def clients_def)
  then have n0: "word_of_nat n \<noteq> (0 :: u32)" by (intro word_of_nat_nonzero) simp_all
  have "queue_is ?e3 qs" using h2(2) by (auto simp: queue_is_def queue_ok_def split: if_splits)
  then have ph3: "proc_heap d L tb ?e3 cs1 qs (pl(pid := word_of_nat n # pl pid))"
    using h2(1,3-5) sp(2,3) n0 unfolding proc_heap_def by (auto simp: new_proc_def)
  have lim1: "d + total cs1 + 24 \<le> L" using a(8) lim by simp
  obtain e' p cs' where q: "proc_queue_add (Suc depth) pid ?e3 = Inr e'"
      "proc_heap d L tb e' cs' (qs @ [p]) (pl(pid := word_of_nat n # pl pid))"
      "pids e' (qs @ [p]) = pids ?e3 qs @ [pid]" "queue_ok e' (qs @ [p])" "total cs1 \<le> total cs'" "total cs' \<le> total cs1 + 16"
      "(unat p, 8) \<notin> clients d cs1 []" "proc_keep d tb qs (kern ?e3) cs1 (kern e') cs'"
      "proc_table e' = proc_table ?e3" "PID e' = PID ?e3" "next_pid e' = next_pid ?e3" "proc_num e' = proc_num ?e3 + 1"
      "TSS_esp0 e' = TSS_esp0 ?e3" "\<forall>r. same_tables (kern ?e3) (kern e') ((pl(pid := word_of_nat n # pl pid)) r)"
    using queue_add_mem [OF ph3 lim1, of depth pid] by (elim exE conjE) (rule that)
  have "pids ?e3 qs = pids e qs" using ph2(2) by (simp add: pids_def)
  moreover have "(d + total cs') mod 4096 \<le> 40"
  proof -
    obtain r where r: "total cs' = total cs1 + r" "r \<le> 16" using q(5,6) by (metis add_le_cancel_left le_Suc_ex)
    have "(d + total cs1 + r) mod 4096 = (d + total cs1) mod 4096 + r" by (rule mod_add_small) (use a(9) r(2) in simp)
    then show ?thesis using r a(9) by (simp add: add.assoc)
  qed
  moreover have "(unat p, 8) \<notin> clients d cs []" using mem_stepD(1) [OF a(4)] q(7) by blast
  moreover have "proc_keep d tb qs (kern e) cs (kern e') cs'"
    by (rule proc_keep_trans [OF step_proc_keep [OF conjunct2 [OF sp(1)]]]) (use q(8) in auto)
  moreover have "same_tables (kern e) (kern e') (pl r)" for r
    using q(14) space_node_step(3) [OF conjunct2 [OF sp(1)] h(5)] unfolding same_tables_def by (auto split: if_splits)
  moreover have "mem (kern e') (word_of_nat n + 8) = word_of_nat A"
    using q(14) sp(4) unfolding same_tables_def by (auto split: if_splits)
  moreover have "unat (word_of_nat A :: u32) = A"
    using fresh_write(2) [OF conjI [OF a(3,4)] a(5), of 0] by (simp add: unat_of_nat32)
  moreover have "(A, 4096) \<notin> clients d cs []" using a(5) by (simp add: fresh_block_def)
  ultimately show ?thesis
    using run q a(8) by (intro exI [of _ e'] exI [of _ p] exI [of _ "word_of_nat n"] exI [of _ cs']) simp
qed

lemma new_pid_next:
  "state (proc_table e (next_pid e)) = PROC_DEAD \<Longrightarrow> proc_new_pid e = Inr (next_pid e, e\<lparr>next_pid := next_pid e + 1\<rparr>)"
  by (simp add: proc_new_pid_def proc_pid_taken_def proc_new_pid_loop.simps)

lemma new_pid_skip:
  "state (proc_table e (next_pid e)) \<noteq> PROC_DEAD \<Longrightarrow> state (proc_table e (next_pid e + 1)) = PROC_DEAD \<Longrightarrow>
     proc_new_pid e = Inr (next_pid e + 1, e\<lparr>next_pid := next_pid e + 1 + 1\<rparr>)"
  by (simp add: proc_new_pid_def proc_pid_taken_def proc_new_pid_loop.simps)

end
