(* ===== verification/Proc_Boot.thy ===== *)
theory Proc_Boot
  imports Proc_Init
begin

text \<open>
  \<open>proc_init\<close> as a whole: from a kernel heap that is well formed to a scheduler that can run, with the
  kernel's own process and the three test processes in the queue.
\<close>

section \<open>The process table\<close>

text \<open>
  The table takes 65536 entries of 96 bytes.  No free chunk is that large, and the heap grows by more pages
  than the free page list can hold, so the list is empty from then on.
\<close>

lemma pages_needed_table: "1535 \<le> pages_needed e 0x600000"
proof -
  have "page_at e 0 \<le> e + 4095" using round_up_4k(2) [of e] by (simp add: page_at_def)
  then have "1535 * 4096 \<le> e + 0x600000 + 8 - page_at e 0 + 4095" by simp
  then have "1535 * 4096 div 4096 \<le> (e + 0x600000 + 8 - page_at e 0 + 4095) div 4096" by (rule div_le_mono)
  then show ?thesis by (simp add: pages_needed_def)
qed

lemma process_table_alloc:
  assumes mem: "mem_ok s d L tb cs ps" and few: "length ps \<le> 1535" and small: "total cs < 0x600000"
    and lim: "d + total cs + 0x600010 \<le> L"
  shows "\<exists>s' cs'. kmalloc (Suc depth) (PID_MAX * SIZEOF_PROC) s = Inr (word_of_nat (d + total cs + 8), s') \<and> mem_ok s' d L tb cs' [] \<and>
    mem_grant s d tb cs ps (d + total cs + 8) 0x600000 s' cs' [] \<and> total cs' = total cs + 0x600008"
proof -
  have sz: "unat (PID_MAX * SIZEOF_PROC) = 0x600000" "rounded 0x600000 = 0x600000" by (simp_all add: SIZEOF_PROC_def PID_MAX_def BITS_PER_BYTE_def rounded_def)
  obtain n s' cs' ps' where g: "kmalloc (Suc depth) (PID_MAX * SIZEOF_PROC) s = Inr (word_of_nat n, s')" "mem_ok s' d L tb cs' ps'"
      "mem_grant s d tb cs ps n 0x600000 s' cs' ps'" "grants d cs ps 0x600000 n cs' ps'" "total cs' \<le> total cs + 8 + 0x600000"
      "if n = d + total cs + 8 then gets_pages [] s ps [] s' ps' n 0x600000 else takes 0 [] s ps [] s' ps'"
    using kmalloc_mem [OF mem, of "PID_MAX * SIZEOF_PROC" depth, unfolded sz] lim by auto
  from g(4) have n: "n = d + total cs + 8"
  proof cases
    case (grant_exact xs ys)
    then show ?thesis using small by simp
  next
    case (grant_split sz xs ys)
    then show ?thesis using small by simp
  qed
  then have "takes (pages_needed n 0x600000) [] s ps [] s' ps'" using g(6) by (simp add: gets_pages_def)
  then have "length ps' = 0" using takesD(2) few pages_needed_table [of n] by fastforce
  then show ?thesis using g(1-3,5) mem_grantD(4) [OF g(3)] n by auto
qed

section \<open>A queue of processes can be scheduled\<close>

lemma queue_nodes_apart:
  assumes ph: "proc_heap d L tb e cs qs pl" and n: "n \<in> set (pl q)"
  shows "{n, n + 4, n + 8, n + 12} \<inter> set qs = {}"
proof -
  note h = proc_heapD [OF ph]
  have bn: "(unat n, 16) \<in> clients d cs []" using h(5) [OF n] by (simp add: space_node_def)
  have "n + word_of_nat k \<noteq> r" if r: "r \<in> set qs" and k: "k + 4 \<le> 16" for r k
  proof
    assume "n + word_of_nat k = r"
    moreover have "unat n + k < 2 ^ 32" using mem_client_write(2) [OF h(1) bn, of "unat n + k"] k by simp
    moreover have "n + word_of_nat k = word_of_nat (unat n + k)" by simp
    ultimately have "unat r = unat n + k" using unat_of_nat32 by metis
    moreover have "(unat r, 8) \<in> clients d cs []" using h(3) r by (simp add: in_heap_def)
    ultimately show False using bn blocks_disjoint [of "unat n" 16 d cs "unat r" 8] k by (auto simp: clients_def)
  qed
  from this [of _ 0] this [of _ 4] this [of _ 8] this [of _ 12] show ?thesis by auto
qed

lemma proc_heap_sched_inv:
  assumes ph: "proc_heap d L tb e cs qs pl" and "queue_ok e qs" and "distinct (pids e qs)" and "PID e = hd (pids e qs)"
    and "state (proc_table e (PID e)) = PROC_RUNNING" and "\<And>q. q \<in> set (tl (pids e qs)) \<Longrightarrow> state (proc_table e q) = PROC_ACTIVE"
  shows "sched_inv e qs pl"
  unfolding sched_inv_def using assms proc_heapD(4) [OF ph] queue_nodes_apart [OF ph] by simp

section \<open>The kernel's process\<close>

definition kernel_proc :: "proc \<Rightarrow> proc" where
  "kernel_proc p = p\<lparr>ppid := 0, state := PROC_RUNNING, exec_count := 1, priority := 10\<rparr>"

text \<open>What \<open>proc_init\<close> does once the kernel's process is in the queue.\<close>

definition register_tests :: "nat \<Rightarrow> linker \<Rightarrow> u32 \<Rightarrow> u32 \<Rightarrow> u32 \<Rightarrow> pstate \<Rightarrow> kerror + pstate" where
  "register_tests depth l proc1 proc2 proc3 e =
     rbind (proc_register depth l proc1 30 e) (\<lambda>(_, e1).
     rbind (proc_register depth l proc2 10 e1) (\<lambda>(_, e2).
     rbind (proc_register depth l proc3 10 e2) (\<lambda>(_, e3). Inr e3)))"

lemma proc_init_run:
  assumes "kmalloc depth (PID_MAX * SIZEOF_PROC) (kern e) = Inr (t, s1)"
    and "kalloc (page_new depth) PAGE_SIZE PAGE_SIZE s1 = Inr (stack, s2)"
    and "proc_queue_add depth 0 (e\<lparr>kern := s2, proc_queue_start := 0, proc_queue_end := 0, TSS_esp0 := stack + 4096,
      proc_table := (proc_table e)(0 := kernel_proc (proc_table e 0))\<rparr>) = Inr e'"
  shows "proc_init depth l proc1 proc2 proc3 e = register_tests depth l proc1 proc2 proc3 (e'\<lparr>proc_num := proc_num e' - 1\<rparr>)"
proof -
  let ?e1 = "e\<lparr>kern := s1, proc_queue_start := 0, proc_queue_end := 0\<rparr>"
  let ?e2 = "e\<lparr>kern := s2, proc_queue_start := 0, proc_queue_end := 0, TSS_esp0 := stack + 4096,
      proc_table := (proc_table e)(0 := kernel_proc (proc_table e 0))\<rparr>"
  have "set_proc 0 (\<lambda>p. p\<lparr>ppid := 0, state := PROC_RUNNING, exec_count := 1, priority := 10\<rparr>)
      (?e1\<lparr>kern := s2, TSS_esp0 := stack + PAGE_SIZE\<rparr>) = ?e2"
    by (simp add: set_proc_def kernel_proc_def PAGE_SIZE_def)
  then show ?thesis
    using assms unfolding proc_init_def with_kern_def register_tests_def by (simp add: Let_def)
qed

lemma kernel_process_ok:
  assumes mem: "mem_ok (kern e) d L tb cs ps" and few: "length ps \<le> 1535" and small: "total cs < 0x600000"
    and off: "(d + total cs) mod 4096 < 4000" and lim: "d + total cs + 0x610000 \<le> L"
    and procs: "\<And>q. page_tables (proc_table e q) = 0"
  shows "\<exists>e' p A cs'. proc_init (Suc depth) l proc1 proc2 proc3 e = register_tests (Suc depth) l proc1 proc2 proc3 e' \<and>
    proc_heap d L tb e' cs' [p] (\<lambda>_. []) \<and> queue_ok e' [p] \<and> pids e' [p] = [0] \<and>
    proc_table e' = (proc_table e)(0 := kernel_proc (proc_table e 0)) \<and> PID e' = PID e \<and> next_pid e' = next_pid e \<and>
    proc_num e' = proc_num e \<and> TSS_esp0 e' = word_of_nat A + 4096 \<and>
    (A, 4096) \<in> clients d cs' [] \<and> (A, 4096) \<notin> clients d cs ps \<and> (unat p, 8) \<notin> clients d cs ps \<and> clients d cs ps \<subseteq> clients d cs' [] \<and>
    keeps {} (clients d cs ps - table_blocks tb) (mem (kern e)) (mem (kern e')) \<and> page_env (kern e) (kern e') \<and> total cs' \<le> total cs + 0x603000 \<and> (d + total cs') mod 4096 \<le> 16"
proof -
  have lim1: "d + total cs + 0x600010 \<le> L" using lim by simp
  obtain s1 cs1 where t: "kmalloc (Suc depth) (PID_MAX * SIZEOF_PROC) (kern e) = Inr (word_of_nat (d + total cs + 8), s1)"
      "mem_ok s1 d L tb cs1 []" "mem_grant (kern e) d tb cs ps (d + total cs + 8) 0x600000 s1 cs1 []" "total cs1 = total cs + 0x600008"
    using process_table_alloc [OF mem few small lim1, of depth] by blast
  let ?A = "aligned_end 12 (d + total cs1 + 8)"
  have e1: "d + total cs1 = d + total cs + 8 + 1536 * 4096" using t(4) by simp
  have "(d + total cs1) mod 4096 = (d + total cs + 8) mod 4096" unfolding e1 by (rule mod_mult_self1)
  also have "\<dots> = (d + total cs) mod 4096 + 8" by (rule mod_add_small) (use off in simp)
  finally have off1: "(d + total cs1) mod 4096 < 4080" using off by simp
  note gap = gap_large [OF off1]
  have lim2: "d + total cs1 + 8224 \<le> L" using t(4) lim by simp
  obtain s2 cs2 where a: "kalloc (page_new (Suc depth)) PAGE_SIZE PAGE_SIZE s1 = Inr (word_of_nat ?A, s2)"
      "mem_ok s2 d L tb cs2 []" "mem_grant s1 d tb cs1 [] ?A 4096 s2 cs2 []" "d + total cs2 = ?A + 4096"
    using page_alloc [OF t(2) gap(1) lim2, of depth] by blast
  let ?e = "e\<lparr>kern := s2, proc_queue_start := 0, proc_queue_end := 0, TSS_esp0 := word_of_nat ?A + 4096,
    proc_table := (proc_table e)(0 := kernel_proc (proc_table e 0))\<rparr>"
  have ph: "proc_heap d L tb ?e cs2 [] (\<lambda>_. [])"
    using a(2) procs by (simp add: proc_heap_def queue_is_def in_heap_def kernel_proc_def)
  have lim3: "d + total cs2 + 24 \<le> L" using a(4) gap(2) t(4) lim by simp
  obtain e' p cs' where q: "proc_queue_add (Suc depth) 0 ?e = Inr e'" "proc_heap d L tb e' cs' ([] @ [p]) (\<lambda>_. [])"
      "pids e' ([] @ [p]) = pids ?e [] @ [0]" "queue_ok e' ([] @ [p])" "total cs2 \<le> total cs'" "total cs' \<le> total cs2 + 16"
      "(unat p, 8) \<notin> clients d cs2 []" "proc_keep d tb [] (kern ?e) cs2 (kern e') cs'" "proc_table e' = proc_table ?e" "PID e' = PID ?e" "next_pid e' = next_pid ?e"
      "proc_num e' = proc_num ?e + 1" "TSS_esp0 e' = TSS_esp0 ?e"
    using queue_add_mem [OF ph lim3, of depth 0] by (elim exE conjE) (rule that)
  let ?e' = "e'\<lparr>proc_num := proc_num e' - 1\<rparr>"
  have "proc_heap d L tb ?e' cs' [p] (\<lambda>_. [])" "queue_ok ?e' [p]"
    using q(2,4) by (simp_all add: proc_heap_def queue_is_def queue_ok_def)
  moreover have "pids ?e' [p] = [0]" using q(3) by (simp add: pids_def)
  moreover have "(d + total cs') mod 4096 \<le> 16"
  proof -
    obtain r where r: "total cs' = total cs2 + r" "r \<le> 16" using q(5,6) by (metis add_le_cancel_left le_Suc_ex)
    have "4096 dvd ?A + 4096" using aligned_end_dvd [of 12 "d + total cs1 + 8"] by simp
    then have "(d + total cs2) mod 4096 = 0" using a(4) by simp
    then have "(d + total cs2 + r) mod 4096 = r" using mod_add_small [of "d + total cs2" r] r(2) by simp
    then show ?thesis using r by (simp add: add.assoc)
  qed
  moreover have "(?A, 4096) \<in> clients d cs' []" using mem_grantD(1) [OF a(3)] proc_keepD(1) [OF q(8)] by blast
  moreover have "(?A, 4096) \<notin> clients d cs ps" using mem_grantD(1) [OF t(3)] mem_grantD(2) [OF a(3), of ?A 4096] by auto
  moreover have "clients d cs ps \<subseteq> clients d cs' []"
    using mem_grantD(1) [OF t(3)] mem_grantD(1) [OF a(3)] proc_keepD(1) [OF q(8)] by blast
  moreover have "(unat p, 8) \<notin> clients d cs ps" using mem_grantD(1) [OF t(3)] mem_grantD(1) [OF a(3)] q(7) by blast
  moreover have "keeps {} (clients d cs ps - table_blocks tb) (mem (kern e)) (mem s2)"
    by (rule keeps_trans [OF mem_grantD(6) [OF t(3)] keeps_mono [OF mem_grantD(6) [OF a(3)]]]) (use mem_grantD(1) [OF t(3)] in auto)
  then have "keeps {} (clients d cs ps - table_blocks tb) (mem (kern e)) (mem (kern ?e'))"
    using keeps_trans [OF _ keeps_mono [OF proc_keepD(3) [OF q(8)]]] mem_grantD(1) [OF t(3)] mem_grantD(1) [OF a(3)]
    by (simp add: queue_blocks_def) blast
  moreover have "page_env (kern e) (kern ?e')"
    using page_env_trans [OF page_env_trans [OF mem_grantD(7) [OF t(3)] mem_grantD(7) [OF a(3)]]] proc_keepD(2) [OF q(8)] by simp
  moreover have "total cs' \<le> total cs + 0x603000" using q(6) a(4) gap(2) t(4) by simp
  ultimately show ?thesis
    using proc_init_run [OF t(1) a(1) q(1)] q(9-13)
    by (intro exI [of _ ?e'] exI [of _ p] exI [of _ ?A] exI [of _ cs']) simp
qed

section \<open>The test processes\<close>

text \<open>
  What \<open>proc_init\<close> has set up when it returns: the queue, the table's entries of the four processes, and
  one page table per test process, different from each other.
\<close>

definition tables_entered :: "kstate \<Rightarrow> u32 list \<Rightarrow> u32 list" where
  "tables_entered s ns = map (\<lambda>n. mem s (n + 8)) ns"

lemma register_tests_ok:
  assumes ph: "proc_heap d L tb e cs [p] (\<lambda>_. [])" and q: "pids e [p] = [0]" and lim: "d + total cs + 0x8000 \<le> L"
    and off: "(d + total cs) mod 4096 \<le> 16" and l: "KERNEL_START_VMA l = 0xE0000000"
    and st: "state (proc_table e 0) = PROC_RUNNING" "\<forall>q. q \<noteq> 0 \<longrightarrow> state (proc_table e q) = PROC_DEAD" and np: "next_pid e = 0"
  shows "\<exists>e' qs n1 n2 n3 cs'. register_tests (Suc depth) l proc1 proc2 proc3 e = Inr e' \<and>
    proc_heap d L tb e' cs' qs ((\<lambda>_. [])(1 := [n1], 2 := [n2], 3 := [n3])) \<and> queue_ok e' qs \<and> pids e' qs = [0, 1, 2, 3] \<and>
    proc_table e' = (proc_table e)(1 := new_proc proc1 0xE0000000 30 n1 (proc_table e 1),
      2 := new_proc proc2 0xE0000000 10 n2 (proc_table e 2), 3 := new_proc proc3 0xE0000000 10 n3 (proc_table e 3)) \<and>
    PID e' = PID e \<and> proc_num e' = proc_num e + 3 \<and> TSS_esp0 e' = TSS_esp0 e \<and> proc_keep d tb [p] (kern e) cs (kern e') cs' \<and>
    distinct (tables_entered (kern e') [n1, n2, n3]) \<and>
    (\<forall>T\<in>set (tables_entered (kern e') [n1, n2, n3]). (unat T, 4096) \<notin> clients d cs [])"
proof -
  let ?pl0 = "(\<lambda>_. []) :: u16 \<Rightarrow> u32 list"
  let ?pl1 = "\<lambda>n1. ?pl0(1 := [n1])" and ?pl2 = "\<lambda>n1 n2. ?pl0(1 := [n1], 2 := [n2])"
  have off1: "(d + total cs) mod 4096 < 4080" and lim1: "d + total cs + 8300 \<le> L" using off lim by simp_all
  have pid1: "proc_new_pid e = Inr (1, e\<lparr>next_pid := 1 + 1\<rparr>)" using new_pid_skip [of e] st np by simp
  obtain e1 p1 n1 cs1 where a: "proc_register (Suc depth) l proc1 30 e = Inr (1, e1)"
      "proc_heap d L tb e1 cs1 ([p] @ [p1]) ((\<lambda>_. [])(1 := n1 # []))" "pids e1 ([p] @ [p1]) = pids e [p] @ [1]" "queue_ok e1 ([p] @ [p1])"
      "proc_table e1 = (proc_table e)(1 := new_proc proc1 0xE0000000 30 n1 (proc_table e 1))"
      "PID e1 = PID e" "next_pid e1 = 1 + 1" "proc_num e1 = proc_num e + 1" "TSS_esp0 e1 = TSS_esp0 e"
      "(unat p1, 8) \<notin> clients d cs []" "proc_keep d tb [p] (kern e) cs (kern e1) cs1" "total cs1 \<le> total cs + 8240" "(d + total cs1) mod 4096 \<le> 40"
      "\<forall>r. same_tables (kern e) (kern e1) (?pl0 r)" "(unat (mem (kern e1) (n1 + 8)), 4096) \<notin> clients d cs []"
    using proc_register_ok [OF ph off1 lim1 pid1 l, of depth proc1 30] by (elim exE conjE) (rule that)
  have off2: "(d + total cs1) mod 4096 < 4080" and lim2: "d + total cs1 + 8300 \<le> L" using a(12,13) lim by simp_all
  have pid2: "proc_new_pid e1 = Inr (2, e1\<lparr>next_pid := 2 + 1\<rparr>)" using new_pid_next [of e1] a(5,7) st by simp
  obtain e2 p2 n2 cs2 where b: "proc_register (Suc depth) l proc2 10 e1 = Inr (2, e2)"
      "proc_heap d L tb e2 cs2 (([p] @ [p1]) @ [p2]) ((?pl1 n1)(2 := n2 # (?pl1 n1) 2))"
      "pids e2 (([p] @ [p1]) @ [p2]) = pids e1 ([p] @ [p1]) @ [2]" "queue_ok e2 (([p] @ [p1]) @ [p2])"
      "proc_table e2 = (proc_table e1)(2 := new_proc proc2 0xE0000000 10 n2 (proc_table e1 2))"
      "PID e2 = PID e1" "next_pid e2 = 2 + 1" "proc_num e2 = proc_num e1 + 1" "TSS_esp0 e2 = TSS_esp0 e1"
      "(unat p2, 8) \<notin> clients d cs1 []" "proc_keep d tb ([p] @ [p1]) (kern e1) cs1 (kern e2) cs2" "total cs2 \<le> total cs1 + 8240" "(d + total cs2) mod 4096 \<le> 40"
      "\<forall>r. same_tables (kern e1) (kern e2) ((?pl1 n1) r)" "(unat (mem (kern e2) (n2 + 8)), 4096) \<notin> clients d cs1 []"
    using proc_register_ok [OF a(2) off2 lim2 pid2 l, of depth proc2 10] by (elim exE conjE) (rule that)
  have off3: "(d + total cs2) mod 4096 < 4080" and lim3: "d + total cs2 + 8300 \<le> L" using a(12) b(12,13) lim by simp_all
  have pid3: "proc_new_pid e2 = Inr (3, e2\<lparr>next_pid := 3 + 1\<rparr>)" using new_pid_next [of e2] a(5) b(5,7) st by simp
  have ph2: "proc_heap d L tb e2 cs2 (([p] @ [p1]) @ [p2]) (?pl2 n1 n2)" using b(2) by simp
  obtain e3 p3 n3 cs3 where c: "proc_register (Suc depth) l proc3 10 e2 = Inr (3, e3)"
      "proc_heap d L tb e3 cs3 ((([p] @ [p1]) @ [p2]) @ [p3]) ((?pl2 n1 n2)(3 := n3 # (?pl2 n1 n2) 3))"
      "pids e3 ((([p] @ [p1]) @ [p2]) @ [p3]) = pids e2 (([p] @ [p1]) @ [p2]) @ [3]" "queue_ok e3 ((([p] @ [p1]) @ [p2]) @ [p3])"
      "proc_table e3 = (proc_table e2)(3 := new_proc proc3 0xE0000000 10 n3 (proc_table e2 3))"
      "PID e3 = PID e2" "next_pid e3 = 3 + 1" "proc_num e3 = proc_num e2 + 1" "TSS_esp0 e3 = TSS_esp0 e2"
      "(unat p3, 8) \<notin> clients d cs2 []" "proc_keep d tb (([p] @ [p1]) @ [p2]) (kern e2) cs2 (kern e3) cs3" "total cs3 \<le> total cs2 + 8240" "(d + total cs3) mod 4096 \<le> 40"
      "\<forall>r. same_tables (kern e2) (kern e3) ((?pl2 n1 n2) r)" "(unat (mem (kern e3) (n3 + 8)), 4096) \<notin> clients d cs2 []"
    using proc_register_ok [OF ph2 off3 lim3 pid3 l, of depth proc3 10] by (elim exE conjE) (rule that)
  have run: "register_tests (Suc depth) l proc1 proc2 proc3 e = Inr e3"
    unfolding register_tests_def by (simp add: a(1) b(1) c(1))
  have t1: "mem (kern e2) (n1 + 8) = mem (kern e1) (n1 + 8)" "mem (kern e3) (n1 + 8) = mem (kern e1) (n1 + 8)"
    "mem (kern e3) (n2 + 8) = mem (kern e2) (n2 + 8)"
    using spec [OF b(14), of 1] spec [OF c(14), of 1] spec [OF c(14), of 2] by (simp_all add: same_tables_def)
  have cl: "clients d cs [] \<subseteq> clients d cs1 []" "clients d cs1 [] \<subseteq> clients d cs2 []"
    using proc_keepD(1) [OF a(11)] proc_keepD(1) [OF b(11)] .
  have in1: "(unat (mem (kern e1) (n1 + 8)), 4096) \<in> clients d cs1 []"
    using proc_heapD(5) [OF a(2), of n1 1] by (simp add: space_node_def)
  have in2: "(unat (mem (kern e2) (n2 + 8)), 4096) \<in> clients d cs2 []"
    using proc_heapD(5) [OF b(2), of n2 2] by (simp add: space_node_def)
  have "distinct (tables_entered (kern e3) [n1, n2, n3])" "\<forall>T\<in>set (tables_entered (kern e3) [n1, n2, n3]). (unat T, 4096) \<notin> clients d cs []"
    unfolding tables_entered_def using in1 in2 a(15) b(15) c(15) cl by (auto simp: t1)
  moreover have "proc_table e3 = (proc_table e)(1 := new_proc proc1 0xE0000000 30 n1 (proc_table e 1),
      2 := new_proc proc2 0xE0000000 10 n2 (proc_table e 2), 3 := new_proc proc3 0xE0000000 10 n3 (proc_table e 3))"
    unfolding c(5) b(5) a(5) by simp
  moreover have "pids e3 ((([p] @ [p1]) @ [p2]) @ [p3]) = [0, 1, 2, 3]" unfolding c(3) b(3) a(3) q by simp
  moreover have "proc_keep d tb [p] (kern e) cs (kern e3) cs3"
    by (rule proc_keep_trans [OF proc_keep_trans [OF a(11) b(11)] c(11)]) (use a(10) b(10) cl in \<open>auto simp: queue_blocks_def\<close>)
  moreover have "proc_heap d L tb e3 cs3 ((([p] @ [p1]) @ [p2]) @ [p3]) ((\<lambda>_. [])(1 := [n1], 2 := [n2], 3 := [n3]))" using c(2) by simp
  ultimately show ?thesis
    using run a(6,8,9) b(6,8,9) c(4,6,8,9)
    by (intro exI [of _ e3] exI [of _ "(([p] @ [p1]) @ [p2]) @ [p3]"] exI [of _ n1] exI [of _ n2] exI [of _ n3] exI [of _ cs3]) simp
qed

section \<open>\<open>proc_init\<close>\<close>

definition started_table :: "u32 \<Rightarrow> u32 \<Rightarrow> u32 \<Rightarrow> u32 \<Rightarrow> u32 \<Rightarrow> u32 \<Rightarrow> (u16 \<Rightarrow> proc) \<Rightarrow> u16 \<Rightarrow> proc" where
  "started_table proc1 proc2 proc3 n1 n2 n3 t = t(0 := kernel_proc (t 0), 1 := new_proc proc1 0xE0000000 30 n1 (t 1),
     2 := new_proc proc2 0xE0000000 10 n2 (t 2), 3 := new_proc proc3 0xE0000000 10 n3 (t 3))"

lemma started_simps:
  "started_table p1 p2 p3 n1 n2 n3 t 0 = kernel_proc (t 0)" "started_table p1 p2 p3 n1 n2 n3 t 1 = new_proc p1 0xE0000000 30 n1 (t 1)"
  "started_table p1 p2 p3 n1 n2 n3 t 2 = new_proc p2 0xE0000000 10 n2 (t 2)"
  "started_table p1 p2 p3 n1 n2 n3 t 3 = new_proc p3 0xE0000000 10 n3 (t 3)"
  by (simp_all add: started_table_def)

lemma started_schedulable:
  assumes ph: "proc_heap d L tb e cs qs pl" and "queue_ok e qs" and q: "pids e qs = [0, 1, 2, 3]" and "PID e = 0"
    and t: "proc_table e = started_table proc1 proc2 proc3 n1 n2 n3 t0"
  shows "sched_inv e qs pl" and "schedulable e" and "run_queue e = [0, 1, 2, 3]"
proof -
  show si: "sched_inv e qs pl"
    by (rule proc_heap_sched_inv [OF ph]) (use assms in \<open>auto simp: started_simps kernel_proc_def new_proc_def\<close>)
  show "run_queue e = [0, 1, 2, 3]" using run_queue_pids [OF si] q by simp
  have "exec_count (proc_table e r) \<noteq> 0 \<and> priority (proc_table e r) \<noteq> 0" if "r \<in> set (pids e qs)" for r
    using that unfolding q t by (auto simp: started_simps kernel_proc_def new_proc_def)
  then show "schedulable e" by (rule schedulableI [OF si])
qed

lemma proc_init_ok:
  assumes mem: "mem_ok (kern e) d L tb cs ps" and few: "length ps \<le> 1535" and small: "total cs < 0x600000"
    and off: "(d + total cs) mod 4096 < 4000" and lim: "d + total cs + 0x610000 \<le> L" and l: "KERNEL_START_VMA l = 0xE0000000"
    and procs: "\<And>q. page_tables (proc_table e q) = 0" "\<And>q. state (proc_table e q) = PROC_DEAD"
    and ids: "next_pid e = 0" "PID e = 0" "proc_num e = 0"
  shows "\<exists>e' qs n1 n2 n3 A cs'. proc_init (Suc depth) l proc1 proc2 proc3 e = Inr e' \<and>
    sched_inv e' qs ((\<lambda>_. [])(1 := [n1], 2 := [n2], 3 := [n3])) \<and> pids e' qs = [0, 1, 2, 3] \<and>
    schedulable e' \<and> run_queue e' = [0, 1, 2, 3] \<and> proc_num e' = 3 \<and> PID e' = 0 \<and>
    proc_table e' = started_table proc1 proc2 proc3 n1 n2 n3 (proc_table e) \<and>
    proc_heap d L tb e' cs' qs ((\<lambda>_. [])(1 := [n1], 2 := [n2], 3 := [n3])) \<and> clients d cs ps \<subseteq> clients d cs' [] \<and>
    keeps {} (clients d cs ps - table_blocks tb) (mem (kern e)) (mem (kern e')) \<and> page_env (kern e) (kern e') \<and>
    TSS_esp0 e' = word_of_nat A + 4096 \<and> (A, 4096) \<in> clients d cs' [] - clients d cs ps \<and>
    distinct (tables_entered (kern e') [n1, n2, n3]) \<and>
    (\<forall>T\<in>set (tables_entered (kern e') [n1, n2, n3]). (unat T, 4096) \<notin> clients d cs ps \<and> unat T \<noteq> A)"
proof -
  obtain e1 p A cs1 where a: "proc_init (Suc depth) l proc1 proc2 proc3 e = register_tests (Suc depth) l proc1 proc2 proc3 e1"
      "proc_heap d L tb e1 cs1 [p] (\<lambda>_. [])" "queue_ok e1 [p]" "pids e1 [p] = [0]"
      "proc_table e1 = (proc_table e)(0 := kernel_proc (proc_table e 0))" "PID e1 = PID e" "next_pid e1 = next_pid e"
      "proc_num e1 = proc_num e" "TSS_esp0 e1 = word_of_nat A + 4096" "(A, 4096) \<in> clients d cs1 []"
      "(A, 4096) \<notin> clients d cs ps" "(unat p, 8) \<notin> clients d cs ps" "clients d cs ps \<subseteq> clients d cs1 []"
      "keeps {} (clients d cs ps - table_blocks tb) (mem (kern e)) (mem (kern e1))" "page_env (kern e) (kern e1)" "total cs1 \<le> total cs + 0x603000"
      "(d + total cs1) mod 4096 \<le> 16"
    using kernel_process_ok [OF mem few small off lim procs(1), of depth l proc1 proc2 proc3] by (elim exE conjE) (rule that)
  have lim1: "d + total cs1 + 0x8000 \<le> L" using a(16) lim by simp
  have st0: "state (proc_table e1 0) = PROC_RUNNING" by (simp add: a(5) kernel_proc_def)
  have st: "\<forall>q. q \<noteq> 0 \<longrightarrow> state (proc_table e1 q) = PROC_DEAD" using procs(2) by (simp add: a(5))
  have np: "next_pid e1 = 0" using a(7) ids(1) by simp
  obtain e' qs n1 n2 n3 cs' where b: "register_tests (Suc depth) l proc1 proc2 proc3 e1 = Inr e'"
      "proc_heap d L tb e' cs' qs ((\<lambda>_. [])(1 := [n1], 2 := [n2], 3 := [n3]))" "queue_ok e' qs" "pids e' qs = [0, 1, 2, 3]"
      "proc_table e' = (proc_table e1)(1 := new_proc proc1 0xE0000000 30 n1 (proc_table e1 1),
        2 := new_proc proc2 0xE0000000 10 n2 (proc_table e1 2), 3 := new_proc proc3 0xE0000000 10 n3 (proc_table e1 3))"
      "PID e' = PID e1" "proc_num e' = proc_num e1 + 3" "TSS_esp0 e' = TSS_esp0 e1" "proc_keep d tb [p] (kern e1) cs1 (kern e') cs'"
      "distinct (tables_entered (kern e') [n1, n2, n3])"
      "\<forall>T\<in>set (tables_entered (kern e') [n1, n2, n3]). (unat T, 4096) \<notin> clients d cs1 []"
    using register_tests_ok [OF a(2,4) lim1 a(17) l st0 st np, of depth proc1 proc2 proc3] by (elim exE conjE) (rule that)
  have t: "proc_table e' = started_table proc1 proc2 proc3 n1 n2 n3 (proc_table e)"
    unfolding b(5) a(5) started_table_def by simp
  have pid: "PID e' = 0" using a(6) b(6) ids(2) by simp
  note sc = started_schedulable [OF b(2-4) pid t]
  note pk = proc_keepD [OF b(9)]
  have "keeps {} (clients d cs ps - table_blocks tb) (mem (kern e)) (mem (kern e'))"
    by (rule keeps_trans [OF a(14) keeps_mono [OF pk(3)]]) (use a(12,13) in \<open>auto simp: queue_blocks_def\<close>)
  then show ?thesis
    using a(1,8-11,13) b(1,2,4,7,8,10,11) pk(1) page_env_trans [OF a(15) pk(2)] sc t pid ids(3)
    by (intro exI [of _ e'] exI [of _ qs] exI [of _ n1] exI [of _ n2] exI [of _ n3] exI [of _ A] exI [of _ cs']) auto
qed

end
