(* ===== verification/Kernel_Boot.thy ===== *)
theory Kernel_Boot
  imports Kernel Boot_Cleanup Apic_Correct Proc_Boot Messages Vga_Correct
begin

text \<open>
  \<open>kernel_main\<close> up to its idle loop, from the state that the init section hands over: the page
  set-up, the interrupt controller and the processes, each from the memory the one before it leaves.
\<close>

section \<open>The heap after \<open>page_init_cleanup\<close>\<close>

lemma heap_start_bounds:
  assumes "image_ok l" and "0x100000 \<le> unat (INIT_START l)"
  shows "0xE0006000 \<le> 4096 * heap_start_page l" and "heap_start_page l + 254 < 0xE0400"
proof -
  from assms(1) obtain k q e n where n: "unat (BSS_END_VMA l) = 0xE0000000 + 4096 * n" "e + n + 3 < 1024"
      "unat (INIT_START l) = 4096 * k" "k \<le> q" "q + 3 \<le> e"
    by (rule image_okE)
  then show "0xE0006000 \<le> 4096 * heap_start_page l" "heap_start_page l + 254 < 0xE0400"
    using assms(2) by (simp_all add: heap_start_page_def)
qed

text \<open>The page of the controller's registers, and the one after it, are pages of the kernel's first table.\<close>

lemma apic_entries:
  assumes ok: "image_ok l" "0x100000 \<le> unat (INIT_START l)" and ft: "first_tables s1 (4096 * heap_start_page l)"
    and tb: "tabled s1 (4096 * heap_start_page l) f m 126 t"
  shows "entry_cell t (table_at (4096 * heap_start_page l) 126) \<noteq> entry_cell t (table_at (4096 * heap_start_page l) 126 + 4096)"
proof -
  let ?p = "heap_start_page l + 253"
  note b = heap_start_bounds [OF ok]
  have m: "q \<in> mapped_pages" if "0xE0000 \<le> q" "q < 0xE0400" for q
  proof -
    have "q div 1024 = 896" using that by (intro div_nat_eqI) simp_all
    then show ?thesis using that by (simp add: mapped_pages_def mapped_regions_def)
  qed
  have "first_tables t (4096 * heap_start_page l)"
    by (rule first_tables_cong [OF ft]) (use tabledD(1) [OF tb, of 0] tabledD(1) [OF tb, of 896] tabledD(1) [OF tb, of 1023] in auto)
  then have "entry_cell t (4096 * ?p) \<noteq> entry_cell t (4096 * Suc ?p)" by (subst page_inj) (use m b in auto)
  moreover have "table_at (4096 * heap_start_page l) 126 = 4096 * ?p" "table_at (4096 * heap_start_page l) 126 + 4096 = 4096 * Suc ?p"
    by (simp_all add: table_at_def)
  ultimately show ?thesis by simp
qed

text \<open>Where the registers end up.\<close>

definition apic_page :: "linker \<Rightarrow> nat" where
  "apic_page l = table_at (4096 * heap_start_page l) 126"

definition boot_tables :: "linker \<Rightarrow> nat set" where
  "boot_tables l = table_at (4096 * heap_start_page l) ` {..<126}"

lemma apic_after_cleanup:
  assumes ok: "image_ok l" "0x100000 \<le> unat (INIT_START l)" and few: "length (init_pages l) \<le> 254"
    and ft: "first_tables s1 (4096 * heap_start_page l)" "get_page_first_run s1"
    and tb: "tabled s1 (4096 * heap_start_page l) f (length (init_pages l)) 126 t"
    and a: "ap_kern a = t" and ver: "version_apic (cpuid_version cpuid) \<noteq> 0" "version_msr (cpuid_version cpuid) \<noteq> 0"
    and bsp: "bit (msrs (ap_cpu a) IA32_APIC_BASE_MSR) 8"
  shows "\<exists>a' cs ps. apic_init (Suc depth) cpuid stale a = Inr a' \<and> mem_ok (ap_kern a') (4096 * heap_start_page l) TOP (boot_tables l) cs ps \<and>
    clients (4096 * heap_start_page l) cs ps = insert (apic_page l, 4096) (table_blocks (boot_tables l)) \<and>
    4096 * heap_start_page l + total cs = apic_page l + 4096 \<and> length ps \<le> 254 \<and> page_env t (ap_kern a') \<and>
    apic_set a (word_of_nat (apic_page l)) a' \<and> ap_cpu a' = pic_disable (ap_cpu a) \<and> ap_log a' = ap_log a @ timer_warnings cpuid"
proof -
  let ?D = "4096 * heap_start_page l"
  note b = heap_start_bounds [OF ok]
  obtain cs ps where c: "mem_ok t ?D TOP (boot_tables l) cs ps" "clients ?D cs ps = table_blocks (boot_tables l)"
      "length ps = length (init_pages l) - 2 * 126" "if (126 :: nat) = 0 then total cs \<le> 4064 else ?D + total cs + 4096 = table_at ?D 126"
    using tb unfolding boot_tables_def by (rule tabledE) blast
  have "4096 dvd ?D" by simp
  note nt = next_table [OF this c(4)]
  have A: "aligned_end 12 (?D + total cs + 8) = apic_page l" unfolding nt(1) apic_page_def ..
  have lim: "?D + total cs + 8224 \<le> TOP" using c(4) b by (simp add: table_at_def TOP_def)
  have ne: "entry_cell (ap_kern a) (aligned_end 12 (?D + total cs + 8)) \<noteq> entry_cell (ap_kern a) (aligned_end 12 (?D + total cs + 8) + 4096)"
    unfolding A a apic_page_def by (rule apic_entries [OF ok ft(1) tb])
  have first: "get_page_first_run (ap_kern a)" using tabledD(4) [OF tb] ft(2) a by simp
  obtain a' cs' ps' where r: "apic_init (Suc depth) cpuid stale a = Inr a'" "mem_ok (ap_kern a') ?D TOP (boot_tables l) cs' ps'"
      "mem_grant (ap_kern a) ?D (boot_tables l) cs ps (apic_page l) 4096 (ap_kern a') cs' ps'"
      "?D + total cs' = apic_page l + 4096" "length ps' = length ps - 1" "apic_set a (word_of_nat (apic_page l)) a'"
      "bit (msrs (ap_cpu a) IA32_APIC_BASE_MSR) 8 \<longrightarrow> ap_cpu a' = pic_disable (ap_cpu a) \<and> ap_log a' = ap_log a @ timer_warnings cpuid"
    using apic_init_mem [OF c(1) [folded a] first nt(2) lim ne ver, of depth stale] unfolding A by blast
  have "length ps' \<le> 254" using r(5) c(3) few by simp
  then show ?thesis using r bsp mem_grantD(1,7) [OF r(3)] c(2) a by (intro exI [of _ a'] exI [of _ cs'] exI [of _ ps']) simp
qed

section \<open>The screen\<close>

lemma clear_ok: "vga_inv v \<Longrightarrow> \<exists>v'. vga_clear v = Some v' \<and> vga_inv v'"
  unfolding vga_clear_def vga_inv_def by (subst vga_blank_loop_eq) (simp_all add: VGA_constants)

lemma warnings_shown:
  assumes "vga_inv (k_vga k)"
  shows "\<exists>v. k_print_all env (timer_warnings cpuid) k = Inr (k\<lparr>k_vga := v\<rparr>) \<and> vga_inv v"
proof (cases "thermal_arat (cpuid_thermal cpuid) = 0")
  case True
  let ?msg = "(''lapic_timer_init: WARNING: APIC timer is not persistent'' @ [CHR 0x0A], []) :: message"
  have "agrees ?msg" by (simp add: agrees_def slots_def NUL_def)
  then obtain str where "message_text (strings env) ?msg = Some str" using agrees_text by blast
  from vga_console.message_shown [OF assms this] obtain n v where
    "printk_with vga_putc (strings env) (fst ?msg) (snd ?msg) (k_vga k) = Inr (n, v)" "vga_inv v" by blast
  then show ?thesis using True by (intro exI [of _ v]) (simp add: timer_warnings_def k_printk_def)
next
  case False
  have "k = k\<lparr>k_vga := k_vga k\<rparr>" by simp
  then show ?thesis using False assms by (intro exI [of _ "k_vga k"]) (simp add: timer_warnings_def)
qed

section \<open>\<open>kernel_main\<close> up to its idle loop\<close>

lemma vectors_cpu: "idt_cpu (fold (\<lambda>i s. s\<lparr>idt := f i s\<rparr>) xs s) = idt_cpu s"
  by (induction xs arbitrary: s) simp_all

lemma tables_cpu:
  "msrs (gdt_cpu (gdt_init ta ga g)) = msrs (gdt_cpu g)" "msrs (idt_cpu (int_init ha ia i)) = msrs (idt_cpu i)"
  by (simp_all add: gdt_init_def Let_def gdt_set_def load_gdt_def set_cs_def set_ds_def set_es_def set_fs_def set_gs_def
      set_ss_def set_tr_def int_init_def int_load_idt_def lidt_def int_init_vectors_def vectors_cpu)

text \<open>The machine that the processor, the screen and the init section hand to \<open>kernel_main\<close>.\<close>

definition machine_ready :: "platform \<Rightarrow> init_state \<Rightarrow> machine \<Rightarrow> bool" where
  "machine_ready env b k \<longleftrightarrow> kern (k_proc k) = kernel_view (image env) b \<and> vga_inv (k_vga k) \<and>
     bit (msrs (k_cpu k) IA32_APIC_BASE_MSR) 8 \<and>
     (\<forall>q. page_tables (proc_table (k_proc k) q) = 0 \<and> state (proc_table (k_proc k) q) = PROC_DEAD) \<and>
     next_pid (k_proc k) = 0 \<and> PID (k_proc k) = 0 \<and> proc_num (k_proc k) = 0"

text \<open>What \<open>kernel_main\<close> has set up when it reaches its idle loop.\<close>

definition procs_ready :: "platform \<Rightarrow> (u16 \<Rightarrow> proc) \<Rightarrow> pstate \<Rightarrow> bool" where
  "procs_ready env t e \<longleftrightarrow> schedulable e \<and> run_queue e = [0, 1, 2, 3] \<and> proc_num e = 3 \<and>
     (\<exists>n1 n2 n3 A d cs qs. proc_table e =
         started_table (proc1_address env) (proc2_address env) (proc3_address env) n1 n2 n3 t \<and>
       proc_heap d TOP (boot_tables (image env)) e cs qs ((\<lambda>_. [])(1 := [n1], 2 := [n2], 3 := [n3])) \<and>
       sched_inv e qs ((\<lambda>_. [])(1 := [n1], 2 := [n2], 3 := [n3])) \<and> pids e qs = [0, 1, 2, 3] \<and>
       TSS_esp0 e = word_of_nat A + 4096 \<and> A \<noteq> apic_page (image env) \<and>
       {(A, 4096), (apic_page (image env), 4096)} \<union> table_blocks (boot_tables (image env)) \<union>
         (\<lambda>T. (unat T, 4096)) ` set (tables_entered (kern e) [n1, n2, n3]) \<subseteq> clients d cs [] \<and>
       distinct (tables_entered (kern e) [n1, n2, n3]) \<and>
       (\<forall>T\<in>set (tables_entered (kern e) [n1, n2, n3]).
          unat T \<notin> insert A (insert (apic_page (image env)) (boot_tables (image env)))))"

definition kernel_ready :: "platform \<Rightarrow> (u16 \<Rightarrow> proc) \<Rightarrow> machine \<Rightarrow> bool" where
  "kernel_ready env t k \<longleftrightarrow> procs_ready env t (k_proc k) \<and> tss_esp0 (TSS (k_gdt k)) = TSS_esp0 (k_proc k) \<and>
     lapic_reg (k_apic k) = word_of_nat (apic_page (image env)) \<and>
     mem (kern (k_proc k)) (word_of_nat (apic_page (image env)) + apic_offset APIC_LVT_TR) = 0x20041 \<and>
     mem (kern (k_proc k)) (word_of_nat (apic_page (image env)) + apic_offset APIC_INIT_COUNT) = 0x10000"

lemma setup_run:
  assumes "vga_clear (k_vga k) = Some v"
    and "page_init_cleanup depth (image env) (kern (k_proc k)) = Inr t"
    and "apic_init depth (cpuid_of env) (stale_msr env) ((k_apic k)\<lparr>ap_kern := t, ap_cpu := idt_cpu i, ap_log := []\<rparr>) = Inr a"
    and "g = gdt_init (tss_address env) (gdt_address env) ((k_gdt k)\<lparr>gdt_cpu := k_cpu k\<rparr>)"
    and "i = int_init (handler_address env) (idt_address env) ((k_idt k)\<lparr>idt_cpu := gdt_cpu g\<rparr>)"
    and "k5 = k\<lparr>k_vga := v, k_cpu := ap_cpu a, k_gdt := g, k_idt := i, k_apic := a, k_proc := (k_proc k)\<lparr>kern := ap_kern a\<rparr>\<rparr>"
  shows "kernel_setup depth env k = rbind (k_print_all env (ap_log a) k5) (\<lambda>k5.
     rbind (on_proc (\<lambda>e. rbind (proc_init depth (image env) (proc1_address env) (proc2_address env) (proc3_address env) e)
                           (\<lambda>e'. Inr ((), e'))) k5) (\<lambda>(_, k6). Inr k6))"
proof -
  let ?k3 = "k\<lparr>k_vga := v, k_cpu := idt_cpu i, k_gdt := g, k_idt := i\<rparr>"
  have k3: "on_idt (int_init (handler_address env) (idt_address env))
      (on_gdt (gdt_init (tss_address env) (gdt_address env)) (k\<lparr>k_vga := v\<rparr>)) = ?k3"
    unfolding on_gdt_def on_idt_def Let_def by (simp add: assms(4,5))
  have k4: "on_kern (page_init_cleanup depth (image env)) ?k3 = Inr (?k3\<lparr>k_proc := (k_proc k)\<lparr>kern := t\<rparr>\<rparr>)"
    unfolding on_kern_def by (simp add: assms(2))
  have k5: "on_apic (\<lambda>_. a) (?k3\<lparr>k_proc := (k_proc k)\<lparr>kern := t\<rparr>\<rparr>) = k5"
    unfolding on_apic_def Let_def assms(6) by simp
  show ?thesis
    unfolding kernel_setup_def assms(1) option.case rbind_simps Let_def k3 k4 k_apic_init_def
    by (simp add: assms(3) k5)
qed

text \<open>The contents of the blocks of page tables and of the registers.\<close>

lemma block_word:
  assumes k: "keeps {} (B - table_blocks tb) m m'" and A: "(A, 4096) \<in> B - table_blocks tb"
  shows "m' (word_of_nat A + apic_offset r) = m (word_of_nat A + apic_offset r)"
proof -
  have "cell m' (A + unat (apic_offset r)) = cell m (A + unat (apic_offset r))"
    by (rule keepsD [OF k A]) (use apic_offset_less [of r] in simp_all)
  then show ?thesis by (simp add: cell_def)
qed

text \<open>\<open>proc_init\<close> on the heap that \<open>apic_init\<close> leaves.\<close>

lemma procs_after_apic:
  assumes ok: "image_ok (image env)" "0x100000 \<le> unat (INIT_START (image env))"
    and mem: "mem_ok (kern e) (4096 * heap_start_page (image env)) TOP (boot_tables (image env)) cs ps"
    and cl: "clients (4096 * heap_start_page (image env)) cs ps = insert (apic_page (image env), 4096) (table_blocks (boot_tables (image env)))"
    and top: "4096 * heap_start_page (image env) + total cs = apic_page (image env) + 4096" and few: "length ps \<le> 254"
    and dead: "\<And>q. page_tables (proc_table e q) = 0" "\<And>q. state (proc_table e q) = PROC_DEAD"
    and ids: "next_pid e = 0" "PID e = 0" "proc_num e = 0"
  shows "\<exists>e'. proc_init (Suc depth) (image env) (proc1_address env) (proc2_address env) (proc3_address env) e = Inr e' \<and>
    procs_ready env (proc_table e) e' \<and>
    (\<forall>r. mem (kern e') (word_of_nat (apic_page (image env)) + apic_offset r) = mem (kern e) (word_of_nat (apic_page (image env)) + apic_offset r))"
proof -
  let ?l = "image env" let ?D = "4096 * heap_start_page (image env)"
  have tot: "total cs = 1040384" using top by (simp add: apic_page_def table_at_def)
  have off: "(?D + total cs) mod 4096 < 4000" unfolding tot by simp
  have lim: "?D + total cs + 0x610000 \<le> TOP" using tot heap_start_bounds(2) [OF ok] by (simp add: TOP_def)
  have fewp: "length ps \<le> 1535" and small: "total cs < 0x600000" using few tot by simp_all
  have l: "KERNEL_START_VMA ?l = 0xE0000000" using ok by (simp add: image_ok_def)
  obtain e' qs n1 n2 n3 A cs' where p:
      "proc_init (Suc depth) ?l (proc1_address env) (proc2_address env) (proc3_address env) e = Inr e'"
      "sched_inv e' qs ((\<lambda>_. [])(1 := [n1], 2 := [n2], 3 := [n3]))" "pids e' qs = [0, 1, 2, 3]"
      "schedulable e'" "run_queue e' = [0, 1, 2, 3]" "proc_num e' = 3" "PID e' = 0"
      "proc_table e' = started_table (proc1_address env) (proc2_address env) (proc3_address env) n1 n2 n3 (proc_table e)"
      "proc_heap ?D TOP (boot_tables ?l) e' cs' qs ((\<lambda>_. [])(1 := [n1], 2 := [n2], 3 := [n3]))"
      "clients ?D cs ps \<subseteq> clients ?D cs' []"
      "keeps {} (clients ?D cs ps - table_blocks (boot_tables ?l)) (mem (kern e)) (mem (kern e'))" "page_env (kern e) (kern e')"
      "TSS_esp0 e' = word_of_nat A + 4096" "(A, 4096) \<in> clients ?D cs' [] - clients ?D cs ps"
      "distinct (tables_entered (kern e') [n1, n2, n3])"
      "\<forall>T\<in>set (tables_entered (kern e') [n1, n2, n3]). (unat T, 4096) \<notin> clients ?D cs ps \<and> unat T \<noteq> A"
    using proc_init_ok [OF mem fewp small off lim l dead ids, of depth "proc1_address env" "proc2_address env" "proc3_address env"]
    by (elim exE conjE) (rule that)
  have "(?D + 4096 + 8192 * 126, 4096) \<notin> table_blocks (boot_tables ?l)" by (auto simp: table_blocks_def boot_tables_def table_at_def)
  then have ab: "(apic_page ?l, 4096) \<in> clients ?D cs ps - table_blocks (boot_tables ?l)"
    using cl by (simp add: apic_page_def table_at_def)
  have "space_node ?D (boot_tables ?l) (kern e') cs' n" if "n \<in> {n1, n2, n3}" for n
    using proc_heapD(5) [OF p(9), of n 1] proc_heapD(5) [OF p(9), of n 2] proc_heapD(5) [OF p(9), of n 3] that by auto
  then have new: "(\<lambda>T. (unat T, 4096)) ` set (tables_entered (kern e') [n1, n2, n3]) \<subseteq> clients ?D cs' []"
    by (auto simp: tables_entered_def space_node_def)
  have fresh: "B \<notin> insert (apic_page ?l) (boot_tables ?l)" if "(B, 4096) \<notin> clients ?D cs ps" for B
    using that cl by (auto simp: table_blocks_def)
  have A: "A \<notin> insert (apic_page ?l) (boot_tables ?l)" using fresh p(14) by blast
  then have A': "A \<noteq> apic_page ?l" by blast
  have old: "insert (apic_page ?l, 4096) (table_blocks (boot_tables ?l)) \<subseteq> clients ?D cs' []" using p(10) cl by simp
  have sub: "{(A, 4096), (apic_page ?l, 4096)} \<union> table_blocks (boot_tables ?l) \<union>
      (\<lambda>T. (unat T, 4096)) ` set (tables_entered (kern e') [n1, n2, n3]) \<subseteq> clients ?D cs' []"
    using p(14) old new by blast
  have T: "\<forall>T\<in>set (tables_entered (kern e') [n1, n2, n3]). unat T \<notin> insert A (insert (apic_page ?l) (boot_tables ?l))"
    using p(16) fresh by blast
  have "procs_ready env (proc_table e) e'"
    unfolding procs_ready_def
    by (intro conjI exI [of _ n1] exI [of _ n2] exI [of _ n3] exI [of _ A] exI [of _ ?D] exI [of _ cs'] exI [of _ qs]
        p(2-6,8,9,13,15) sub T A')
  then show ?thesis using p(1) block_word [OF p(11) ab] by blast
qed

lemma setup_ok:
  assumes bt: "booted (image env) b" and low: "0x100000 \<le> unat (INIT_START (image env))"
    and few: "length (init_pages (image env)) \<le> 254" and k: "machine_ready env b k"
    and ver: "version_apic (cpuid_version (cpuid_of env)) \<noteq> 0" "version_msr (cpuid_version (cpuid_of env)) \<noteq> 0"
  shows "\<exists>k'. kernel_setup (Suc depth) env k = Inr k' \<and> kernel_ready env (proc_table (k_proc k)) k' \<and> vga_inv (k_vga k')"
proof -
  let ?l = "image env" let ?D = "4096 * heap_start_page (image env)"
  note m = k [unfolded machine_ready_def] and ok = bootedD(1) [OF bt]
  obtain v where v: "vga_clear (k_vga k) = Some v" "vga_inv v" using clear_ok m by blast
  obtain s1 t where c: "page_init_cleanup (Suc depth) ?l (kern (k_proc k)) = Inr t"
      "tabled s1 ?D (boot_frames ?l) (length (init_pages ?l)) 126 t" "get_page_first_run s1" "first_tables s1 ?D"
    using cleanup_ok [OF bt low few, of depth] m by auto
  define g where "g = gdt_init (tss_address env) (gdt_address env) ((k_gdt k)\<lparr>gdt_cpu := k_cpu k\<rparr>)"
  define i where "i = int_init (handler_address env) (idt_address env) ((k_idt k)\<lparr>idt_cpu := gdt_cpu g\<rparr>)"
  let ?a = "(k_apic k)\<lparr>ap_kern := t, ap_cpu := idt_cpu i, ap_log := []\<rparr>"
  have "msrs (idt_cpu i) = msrs (k_cpu k)" unfolding i_def g_def by (simp add: tables_cpu)
  then have bsp: "bit (msrs (ap_cpu ?a) IA32_APIC_BASE_MSR) 8" "ap_kern ?a = t" using m by simp_all
  obtain a cs ps where a: "apic_init (Suc depth) (cpuid_of env) (stale_msr env) ?a = Inr a"
      "mem_ok (ap_kern a) ?D TOP (boot_tables ?l) cs ps"
      "clients ?D cs ps = insert (apic_page ?l, 4096) (table_blocks (boot_tables ?l))"
      "?D + total cs = apic_page ?l + 4096" "length ps \<le> 254" "apic_set ?a (word_of_nat (apic_page ?l)) a"
      "ap_log a = [] @ timer_warnings (cpuid_of env)"
    using apic_after_cleanup [OF ok low few c(4,3,2) bsp(2) ver bsp(1), of depth "stale_msr env"] by auto
  define k5 where "k5 = k\<lparr>k_vga := v, k_cpu := ap_cpu a, k_gdt := g, k_idt := i, k_apic := a, k_proc := (k_proc k)\<lparr>kern := ap_kern a\<rparr>\<rparr>"
  have "vga_inv (k_vga k5)" by (simp add: k5_def v(2))
  then obtain v2 where v2: "k_print_all env (ap_log a) k5 = Inr (k5\<lparr>k_vga := v2\<rparr>)" "vga_inv v2"
    using warnings_shown [of k5 env "cpuid_of env"] a(7) by auto
  let ?e = "(k_proc k)\<lparr>kern := ap_kern a, TSS_esp0 := tss_esp0 (TSS g)\<rparr>"
  have mem: "mem_ok (kern ?e) ?D TOP (boot_tables ?l) cs ps" by (simp add: a(2))
  have dead: "page_tables (proc_table ?e q) = 0" "state (proc_table ?e q) = PROC_DEAD" for q using m by simp_all
  have ids: "next_pid ?e = 0" "PID ?e = 0" "proc_num ?e = 0" using m by simp_all
  obtain e' where p: "proc_init (Suc depth) ?l (proc1_address env) (proc2_address env) (proc3_address env) ?e = Inr e'"
      "procs_ready env (proc_table ?e) e'" "\<And>r. mem (kern e') (word_of_nat (apic_page ?l) + apic_offset r) =
        mem (kern ?e) (word_of_nat (apic_page ?l) + apic_offset r)"
    using procs_after_apic [OF ok low mem a(3-5) dead ids, of depth] by blast
  define k' where "k' = k5\<lparr>k_vga := v2, k_proc := e', k_gdt := g\<lparr>TSS := (TSS g)\<lparr>tss_esp0 := TSS_esp0 e'\<rparr>\<rparr>\<rparr>"
  have "kernel_setup (Suc depth) env k = Inr k'"
    unfolding setup_run [OF v(1) c(1) a(1) g_def i_def k5_def] v2(1) rbind_simps on_proc_def
    using p(1) by (simp add: k'_def k5_def)
  moreover have "kernel_ready env (proc_table (k_proc k)) k'"
  proof -
    have kp: "k_proc k' = e'" "k_gdt k' = g\<lparr>TSS := (TSS g)\<lparr>tss_esp0 := TSS_esp0 e'\<rparr>\<rparr>" "k_apic k' = a"
      by (simp_all add: k'_def k5_def)
    have reg: "mem (kern e') (word_of_nat (apic_page ?l) + 0x320) = mem (ap_kern a) (word_of_nat (apic_page ?l) + 0x320)"
        "mem (kern e') (word_of_nat (apic_page ?l) + 0x380) = mem (ap_kern a) (word_of_nat (apic_page ?l) + 0x380)"
      using p(3) [of APIC_LVT_TR] p(3) [of APIC_INIT_COUNT] by simp_all
    have "lapic_reg a = word_of_nat (apic_page ?l)" "lapic_read APIC_LVT_TR a = 0x20041" "lapic_read APIC_INIT_COUNT a = 0x10000"
      using a(6) by (simp_all add: apic_set_def)
    then show ?thesis using p(2) by (simp add: kernel_ready_def kp reg lapic_read_def apic_idx_offset)
  qed
  ultimately show ?thesis using v2(2) by (intro exI [of _ k']) (simp add: k'_def)
qed

end
