(* ===== verification/Timer_Ticks.thy ===== *)
theory Timer_Ticks
  imports Proc_Schedule Proc_Info
begin

text \<open>
  The timer interrupt with its last step, the store that signals its end to the controller.  The store is
  at \<open>r\<close>; as long as \<open>r\<close> is not one of the cells that the scheduler reads, any number of interrupts in a
  row can be taken, and the idle loop never ends.
\<close>

section \<open>A store elsewhere\<close>

definition clear_of :: "u32 \<Rightarrow> u32 list \<Rightarrow> (u16 \<Rightarrow> u32 list) \<Rightarrow> u16 list \<Rightarrow> bool" where
  "clear_of r ps pl qs \<longleftrightarrow> (\<forall>p\<in>set ps. r \<noteq> p \<and> r \<noteq> p + 4) \<and> (\<forall>q\<in>set qs. r \<notin> set (pl q))"

lemma sched_inv_store:
  assumes k: "sched_inv e ps pl" and r: "clear_of r ps pl (pids e ps)"
  shows "sched_inv (pwr r v e) ps pl" and "pids (pwr r v e) ps = pids e ps"
proof -
  note i = sched_invD [OF k]
  show p: "pids (pwr r v e) ps = pids e ps" using r by (auto simp: pids_def node_pid_def clear_of_def)
  have "sll (mem (kern (pwr r v e))) (proc_queue_start e) ps"
    by (rule sll_cong [of _ _ "mem (kern e)"]) (use i(1) r in \<open>auto simp: queue_ok_def clear_of_def\<close>)
  then have "queue_ok (pwr r v e) ps" using i(1) by (simp add: queue_ok_def)
  moreover have "sll (mem (kern (pwr r v e))) (page_tables (proc_table e q)) (pl q)" if "q \<in> set (pids e ps)" for q
    by (rule sll_cong [OF _ i(6) [OF that]]) (use r that in \<open>auto simp: clear_of_def\<close>)
  ultimately show "sched_inv (pwr r v e) ps pl" using k unfolding sched_inv_def p by simp
qed

section \<open>One interrupt\<close>

definition runnable :: "u32 \<Rightarrow> pstate \<Rightarrow> bool" where
  "runnable r e \<longleftrightarrow> (\<exists>ps pl. sched_inv e ps pl \<and> clear_of r ps pl (pids e ps) \<and>
     (\<forall>q\<in>set (pids e ps). exec_count (proc_table e q) \<noteq> 0 \<and> priority (proc_table e q) \<noteq> 0))"

lemma runnable_schedulable: "runnable r e \<Longrightarrow> schedulable e"
  unfolding runnable_def schedulable_def by blast

lemma next_num: "proc_next e = Inr e' \<Longrightarrow> proc_num e' = proc_num e"
  unfolding proc_next_def Let_def proc_mem_map_def proc_mem_unmap_def proc_rotate_def
  by (auto split: if_splits option.splits simp: Let_def)

lemma next_esp0: "proc_next e = Inr e' \<Longrightarrow> TSS_esp0 e' = TSS_esp0 e"
  unfolding proc_next_def Let_def proc_mem_map_def proc_mem_unmap_def proc_rotate_def
  by (auto split: if_splits option.splits simp: Let_def set_proc_def)

lemma runnable_next:
  assumes "runnable r e"
  shows "\<exists>e'. proc_next e = Inr e' \<and> runnable r e' \<and> (run_queue e' = run_queue e \<or> run_queue e' = rotate1 (run_queue e))"
proof -
  obtain ps pl where k: "sched_inv e ps pl" "clear_of r ps pl (pids e ps)"
      "\<forall>q\<in>set (pids e ps). exec_count (proc_table e q) \<noteq> 0 \<and> priority (proc_table e q) \<noteq> 0"
    using assms unfolding runnable_def by blast
  show ?thesis
  proof (cases "exec_count (proc_table e (PID e)) = 1")
    case True
    obtain e' where e': "proc_next e = Inr e'" "sched_inv e' (rotate1 ps) pl" "pids e' (rotate1 ps) = rotate1 (pids e ps)"
        "proc_table e' = (let t = (proc_table e)(PID e := (proc_table e (PID e))\<lparr>exec_count := priority (proc_table e (PID e)),
          state := PROC_ACTIVE\<rparr>); new = hd (rotate1 (pids e ps)) in t(new := (t new)\<lparr>state := PROC_RUNNING\<rparr>))"
      using next_switch [OF k(1) True] by (auto simp: Let_def)
    have "exec_count (proc_table e' q) \<noteq> 0 \<and> priority (proc_table e' q) \<noteq> 0" if "q \<in> set (pids e ps)" for q
      using k(3) that unfolding e'(4) Let_def by auto
    then have "runnable r e'"
      unfolding runnable_def using e'(2) k(2) by (intro exI [of _ "rotate1 ps"] exI [of _ pl]) (simp add: e'(3) clear_of_def)
    moreover have "run_queue e' = rotate1 (run_queue e)"
      using run_queue_pids [OF e'(2)] run_queue_pids [OF k(1)] e'(3) by simp
    ultimately show ?thesis using e'(1) by blast
  next
    case False
    let ?e' = "set_proc (PID e) (\<lambda>p. p\<lparr>exec_count := exec_count p - 1\<rparr>) e"
    note s = next_stay [OF k(1) False]
    have p: "pids ?e' ps = pids e ps" by (simp add: pids_def)
    have "exec_count (proc_table ?e' q) \<noteq> 0 \<and> priority (proc_table ?e' q) \<noteq> 0" if "q \<in> set (pids e ps)" for q
      using k(3) that False by auto
    then have "runnable r ?e'" unfolding runnable_def using s(2) k(2) by (intro exI [of _ ps] exI [of _ pl]) (simp add: p)
    moreover have "run_queue ?e' = run_queue e"
      using run_queue_pids [OF s(2)] run_queue_pids [OF k(1)] p by simp
    ultimately show ?thesis using s(1) by blast
  qed
qed

lemma runnable_store:
  assumes "runnable r e"
  shows "runnable r (pwr r v e)" and "run_queue (pwr r v e) = run_queue e"
proof -
  obtain ps pl where k: "sched_inv e ps pl" "clear_of r ps pl (pids e ps)"
      "\<forall>q\<in>set (pids e ps). exec_count (proc_table e q) \<noteq> 0 \<and> priority (proc_table e q) \<noteq> 0"
    using assms unfolding runnable_def by blast
  note s = sched_inv_store [OF k(1,2), of v]
  show "runnable r (pwr r v e)"
    unfolding runnable_def using s(1) k(2,3) by (intro exI [of _ ps] exI [of _ pl]) (simp add: s(2))
  show "run_queue (pwr r v e) = run_queue e" using run_queue_pids [OF s(1)] run_queue_pids [OF k(1)] s(2) by simp
qed

section \<open>Any number of interrupts\<close>

text \<open>
  The interrupt as the idle loop sees it, and a run of interrupts in which each of them must succeed;
  the list has the contexts that they interrupt.
\<close>

definition timer_tick :: "u32 \<Rightarrow> proc_ctxt \<Rightarrow> pstate \<Rightarrow> pstate" where
  "timer_tick r c e = (case int_proc_switch c e of Inl _ \<Rightarrow> e | Inr (_, e') \<Rightarrow> pwr r 0 e')"

primrec timer_run :: "u32 \<Rightarrow> proc_ctxt list \<Rightarrow> pstate \<Rightarrow> kerror + pstate" where
  "timer_run r [] e = Inr e"
| "timer_run r (c # cs) e = rbind (int_proc_switch c e) (\<lambda>(_, e'). timer_run r cs (pwr r 0 e'))"

lemma runnable_switch:
  assumes "runnable r e"
  shows "\<exists>c' e'. int_proc_switch c e = Inr (c', e') \<and> runnable r (pwr r 0 e') \<and> proc_num e' = proc_num e \<and>
    (run_queue (pwr r 0 e') = run_queue e \<or> run_queue (pwr r 0 e') = rotate1 (run_queue e))"
proof -
  let ?e = "proc_store_ctxt c e"
  have r: "runnable r ?e" using assms unfolding runnable_def store_ctxt_sched .
  have "kern ?e = kern e" "proc_queue_start ?e = proc_queue_start e" by (simp_all add: proc_store_ctxt_def)
  then have q: "run_queue ?e = run_queue e" by (simp add: run_queue_def proc_dump_queue_def)
  have n: "proc_num ?e = proc_num e" by (simp add: proc_store_ctxt_def)
  obtain e' where "proc_next ?e = Inr e'" "runnable r e'" "run_queue e' = run_queue e \<or> run_queue e' = rotate1 (run_queue e)"
    using runnable_next [OF r] unfolding q by blast
  then show ?thesis using runnable_store [of r e' 0] next_num [of ?e e'] n by (simp add: int_proc_switch_def)
qed

lemma idle_forever:
  "runnable r e \<Longrightarrow> proc_num e \<noteq> 0 \<Longrightarrow> \<exists>e'. timer_run r cs e = Inr e' \<and> proc_idle (map (timer_tick r) cs) e = Waiting e' \<and>
     runnable r e' \<and> proc_num e' = proc_num e \<and> (\<exists>n. run_queue e' = rotate n (run_queue e))"
proof (induction cs arbitrary: e)
  case Nil
  then show ?case by (auto simp: proc_idle.simps intro: exI [of _ 0])
next
  case (Cons c cs)
  obtain c' e1 where s: "int_proc_switch c e = Inr (c', e1)" "runnable r (pwr r 0 e1)" "proc_num e1 = proc_num e"
      "run_queue (pwr r 0 e1) = run_queue e \<or> run_queue (pwr r 0 e1) = rotate1 (run_queue e)"
    using runnable_switch [OF Cons.prems(1), of c] by blast
  have t: "timer_tick r c e = pwr r 0 e1" by (simp add: timer_tick_def s(1))
  have "proc_num (pwr r 0 e1) \<noteq> 0" using s(3) Cons.prems(2) by simp
  from Cons.IH [OF s(2) this] obtain e' n where e': "timer_run r cs (pwr r 0 e1) = Inr e'"
      "proc_idle (map (timer_tick r) cs) (pwr r 0 e1) = Waiting e'" "runnable r e'" "proc_num e' = proc_num e"
      "run_queue e' = rotate n (run_queue (pwr r 0 e1))"
    using s(3) by auto
  have "\<exists>m. run_queue e' = rotate m (run_queue e)"
    using s(4) e'(5) by (metis rotate1_rotate_swap rotate_Suc)
  then show ?case
    using e' s(1) t Cons.prems(2) by (subst proc_idle.simps) simp
qed

end
