(* ===== verification/Kernel_Run.thy ===== *)
theory Kernel_Run
  imports Kernel_Boot Timer_Ticks
begin

text \<open>
  The kernel in its idle loop: timer interrupts on the whole machine, from the state that
  \<open>kernel_main\<close> sets up.
\<close>

section \<open>The end-of-interrupt register is no cell of the scheduler\<close>

lemma block_cells_apart:
  assumes mem: "mem_ok s d L tb cs []" and "(a, b) \<in> clients d cs []" "(c, e) \<in> clients d cs []" "(a, b) \<noteq> (c, e)"
    and "i + 4 \<le> b" "j + 4 \<le> e"
  shows "(word_of_nat (a + i) :: u32) \<noteq> word_of_nat (c + j)"
proof
  assume eq: "(word_of_nat (a + i) :: u32) = word_of_nat (c + j)"
  have "a + i < 2 ^ 32" "c + j < 2 ^ 32"
    using mem_client_write(2) [OF mem assms(2), of "a + i"] mem_client_write(2) [OF mem assms(3), of "c + j"] assms(5,6) by simp_all
  then have "a + i = c + j" using arg_cong [OF eq, of unat] by (simp add: unat_of_nat32 del: of_nat_add)
  then show False using blocks_disjoint [of a b d cs c e] assms by (auto simp: clients_def)
qed

definition eoi_address :: "platform \<Rightarrow> u32" where
  "eoi_address env = word_of_nat (apic_page (image env)) + apic_offset APIC_EOI"

lemma readyE:
  assumes "kernel_ready env t k"
  obtains n1 n2 n3 A d cs qs where
    "proc_table (k_proc k) = started_table (proc1_address env) (proc2_address env) (proc3_address env) n1 n2 n3 t"
    "proc_heap d TOP (boot_tables (image env)) (k_proc k) cs qs ((\<lambda>_. [])(1 := [n1], 2 := [n2], 3 := [n3]))"
    "sched_inv (k_proc k) qs ((\<lambda>_. [])(1 := [n1], 2 := [n2], 3 := [n3]))" "pids (k_proc k) qs = [0, 1, 2, 3]"
    "(apic_page (image env), 4096) \<in> clients d cs []"
    "\<And>T. T \<in> set (tables_entered (kern (k_proc k)) [n1, n2, n3]) \<Longrightarrow> unat T \<noteq> apic_page (image env)"
    "run_queue (k_proc k) = [0, 1, 2, 3]" "proc_num (k_proc k) = 3" "lapic_reg (k_apic k) = word_of_nat (apic_page (image env))"
  using assms unfolding kernel_ready_def procs_ready_def by (elim exE conjE) (rule that; fast)

lemma ready_clear:
  assumes ph: "proc_heap d L tb e cs qs pl" and A: "(A, 4096) \<in> clients d cs []"
  shows "clear_of (word_of_nat A + apic_offset r) qs pl ps"
proof -
  note h = proc_heapD [OF ph]
  have w: "word_of_nat A + apic_offset r = word_of_nat (A + unat (apic_offset r))" by simp
  have o: "unat (apic_offset r) + 4 \<le> 4096" using apic_offset_less [of r] by simp
  have "word_of_nat A + apic_offset r \<noteq> p + word_of_nat j" if "(unat p, b) \<in> clients d cs []" "b < 4096" "j + 4 \<le> b" for p b j
  proof -
    have "(A, 4096) \<noteq> (unat p, b)" using that(2) by auto
    from block_cells_apart [OF h(1) A that(1) this o that(3)] show ?thesis unfolding w by simp
  qed
  note apart = this
  have "word_of_nat A + apic_offset r \<noteq> p \<and> word_of_nat A + apic_offset r \<noteq> p + 4" if "p \<in> set qs" for p
    using apart [of p 8 0] apart [of p 8 4] h(3) that by (simp add: in_heap_def)
  moreover have "word_of_nat A + apic_offset r \<noteq> n" if "n \<in> set (pl q)" for n q
    using apart [of n 16 0] h(5) [OF that] by (simp add: space_node_def)
  ultimately show ?thesis unfolding clear_of_def by blast
qed

lemma ready_runnable:
  assumes "kernel_ready env t k"
  shows "runnable (eoi_address env) (k_proc k)"
proof -
  obtain n1 n2 n3 A d cs qs where k:
      "proc_table (k_proc k) = started_table (proc1_address env) (proc2_address env) (proc3_address env) n1 n2 n3 t"
      "proc_heap d TOP (boot_tables (image env)) (k_proc k) cs qs ((\<lambda>_. [])(1 := [n1], 2 := [n2], 3 := [n3]))"
      "sched_inv (k_proc k) qs ((\<lambda>_. [])(1 := [n1], 2 := [n2], 3 := [n3]))" "pids (k_proc k) qs = [0, 1, 2, 3]"
      "(apic_page (image env), 4096) \<in> clients d cs []"
    using assms by (rule readyE) blast
  have "exec_count (proc_table (k_proc k) q) \<noteq> 0 \<and> priority (proc_table (k_proc k) q) \<noteq> 0"
    if "q \<in> set (pids (k_proc k) qs)" for q
    using that unfolding k(1,4) by (auto simp: started_simps kernel_proc_def new_proc_def)
  then show ?thesis
    unfolding runnable_def eoi_address_def using k(3) ready_clear [OF k(2,5)] by blast
qed

section \<open>The idle loop\<close>

lemma main_idles:
  assumes "kernel_setup depth env k0 = Inr k" and "kernel_ready env t k"
  shows "\<exists>e. timer_run (eoi_address env) cs (k_proc k) = Inr e \<and>
    kernel_main depth env (map (timer_tick (eoi_address env)) cs) k0 = Idle (k\<lparr>k_cpu := sti (k_cpu k), k_proc := e\<rparr>) \<and>
    schedulable e \<and> proc_num e = 3 \<and> (\<exists>n. run_queue e = rotate n [0, 1, 2, 3])"
proof -
  have n: "proc_num (k_proc k) = 3" "run_queue (k_proc k) = [0, 1, 2, 3]" using assms(2) by (simp_all add: kernel_ready_def procs_ready_def)
  have "proc_num (k_proc k) \<noteq> 0" using n by simp
  from idle_forever [OF ready_runnable [OF assms(2)] this, of cs] obtain e n' where e:
      "timer_run (eoi_address env) cs (k_proc k) = Inr e"
      "proc_idle (map (timer_tick (eoi_address env)) cs) (k_proc k) = Waiting e"
      "runnable (eoi_address env) e" "proc_num e = proc_num (k_proc k)" "run_queue e = rotate n' (run_queue (k_proc k))"
    by blast
  then show ?thesis
    using runnable_schedulable [OF e(3)] n
    by (intro exI [of _ e]) (auto simp: kernel_main_def assms(1) proc_loop_def)
qed

section \<open>The first interrupt\<close>

lemma switch_to_first:
  assumes k: "sched_inv e qs pl" and ps: "pids e qs = [0, 1, 2, 3]" and pl: "pl 0 = []" "pl 1 = [n]"
    and one: "exec_count (proc_table e 0) = 1"
  shows "\<exists>e'. proc_next e = Inr e' \<and> PID e' = 1 \<and> (\<forall>a. a \<notin> set qs \<longrightarrow> mem (kern e') a = mem (kern e) a) \<and>
    (\<forall>q. ctxt (proc_table e' q) = ctxt (proc_table e q)) \<and> state (proc_table e' 1) = PROC_RUNNING \<and>
    page_dir (kern e') (mem (kern e) (n + 4)) = mem (kern e) (n + 12) \<and>
    page_table_lookup (kern e') (mem (kern e) (n + 4)) = mem (kern e) (n + 8)"
proof -
  have pid: "PID e = 0" using sched_invD(3) [OF k] ps by simp
  obtain e' where e': "proc_next e = Inr e'" "PID e' = 1" "\<forall>a. a \<notin> set qs \<longrightarrow> mem (kern e') a = mem (kern e) a"
      "proc_table e' = (let t = (proc_table e)(0 := (proc_table e 0)\<lparr>exec_count := priority (proc_table e 0), state := PROC_ACTIVE\<rparr>)
        in t(1 := (t 1)\<lparr>state := PROC_RUNNING\<rparr>))"
      "page_dir (kern e') = page_dir (map_tables (mem (kern e)) [n] (unmap_tables (mem (kern e)) [] (kern e)))"
      "page_table_lookup (kern e') = page_table_lookup (map_tables (mem (kern e)) [n] (unmap_tables (mem (kern e)) [] (kern e)))"
    using next_switch [OF k] one by (auto simp: ps pid pl)
  show ?thesis
    using e'(1-3) map_tables_dir [of "mem (kern e)" "[n]" n] by (intro exI [of _ e']) (simp add: e'(4-6) Let_def)
qed

text \<open>The entry of the stack's page is no cell of the queue, and not the register that the interrupt writes.\<close>

lemma stack_entry_apart:
  assumes ph: "proc_heap d L tb e cs qs pl" and T: "(unat (T :: u32), 4096) \<in> clients d cs []"
    and A: "(A, 4096) \<in> clients d cs []" "unat T \<noteq> A"
  shows "T + 4092 \<notin> set qs" and "T + 4092 \<noteq> word_of_nat A + apic_offset APIC_EOI"
proof -
  note h = proc_heapD [OF ph]
  show "T + 4092 \<notin> set qs"
  proof
    assume "T + 4092 \<in> set qs"
    then have b: "(unat (T + 4092), 8) \<in> clients d cs []" using h(3) by (simp add: in_heap_def)
    have ne: "(unat T, 4096) \<noteq> (unat (T + 4092), 8 :: nat)" by simp
    have "(word_of_nat (unat T + 4092) :: u32) \<noteq> word_of_nat (unat (T + 4092) + 0)"
      by (rule block_cells_apart [OF h(1) T b ne]) simp_all
    then show False by simp
  qed
  have ne: "(unat T, 4096) \<noteq> (A, 4096 :: nat)" using A(2) by simp
  have "(word_of_nat (unat T + 4092) :: u32) \<noteq> word_of_nat (A + 0xb0)"
    by (rule block_cells_apart [OF h(1) T A(1) ne]) simp_all
  then show "T + 4092 \<noteq> word_of_nat A + apic_offset APIC_EOI" by simp
qed

text \<open>The interrupt on the machine, once the scheduler has run.\<close>

lemma timer_interrupt_run:
  assumes "proc_next (proc_store_ctxt c ((k_proc k)\<lparr>TSS_esp0 := tss_esp0 (TSS (k_gdt k))\<rparr>)) = Inr e'"
    and "lapic_reg (k_apic k) + apic_offset APIC_EOI = r"
  shows "\<exists>k'. timer_interrupt c k = Inr (ctxt (proc_table e' (PID e')), k') \<and> k_proc k' = e'\<lparr>kern := wr r 0 (kern e')\<rparr> \<and>
    tss_esp0 (TSS (k_gdt k')) = tss_esp0 (TSS (k_gdt k))"
proof -
  have "TSS_esp0 e' = tss_esp0 (TSS (k_gdt k))" using next_esp0 [OF assms(1)] by (simp add: proc_store_ctxt_def set_proc_def)
  then show ?thesis
    unfolding timer_interrupt_def on_proc_def int_proc_switch_def assms(1) rbind_simps
    using assms(2) by (simp add: proc_load_ctxt_def on_apic_def Let_def lapic_send_eoi_def lapic_write_def apic_idx_offset)
qed

lemma first_interrupt:
  assumes "kernel_ready env t k"
  shows "\<exists>k' f f'. timer_interrupt c k = Inr (proc_start_ctxt (proc1_address env) 0xE0000000 (ctxt (t 1)), k') \<and>
    PID (k_proc k') = 1 \<and> ctxt (proc_table (k_proc k') 0) = c \<and> state (proc_table (k_proc k') 1) = PROC_RUNNING \<and>
    page_dir (kern (k_proc k')) (page_get_dir_idx 0xDFFFF000) = f OR user_flags \<and>
    page_get_entry (kern (k_proc k')) 0xDFFFF000 = f' OR user_flags \<and> tss_esp0 (TSS (k_gdt k')) = tss_esp0 (TSS (k_gdt k)) \<and>
    mem (kern (k_proc k')) (eoi_address env) = 0"
proof -
  obtain n1 n2 n3 A d cs qs where k:
      "proc_table (k_proc k) = started_table (proc1_address env) (proc2_address env) (proc3_address env) n1 n2 n3 t"
      "proc_heap d TOP (boot_tables (image env)) (k_proc k) cs qs ((\<lambda>_. [])(1 := [n1], 2 := [n2], 3 := [n3]))"
      "sched_inv (k_proc k) qs ((\<lambda>_. [])(1 := [n1], 2 := [n2], 3 := [n3]))" "pids (k_proc k) qs = [0, 1, 2, 3]"
      "(apic_page (image env), 4096) \<in> clients d cs []"
      "\<And>T. T \<in> set (tables_entered (kern (k_proc k)) [n1, n2, n3]) \<Longrightarrow> unat T \<noteq> apic_page (image env)"
      "lapic_reg (k_apic k) = word_of_nat (apic_page (image env))"
    using assms by (rule readyE) blast
  let ?pl = "(\<lambda>_. [])(1 := [n1], 2 := [n2], 3 := [n3]) :: u16 \<Rightarrow> u32 list" and ?m = "mem (kern (k_proc k))"
  let ?e = "(k_proc k)\<lparr>TSS_esp0 := tss_esp0 (TSS (k_gdt k))\<rparr>" and ?T = "?m (n1 + 8)"
  let ?s = "proc_store_ctxt c ?e"
  have pid: "PID ?e = 0" using sched_invD(3) [OF k(3)] k(4) by simp
  have sk: "kern ?s = kern (k_proc k)" "proc_table ?s = (proc_table (k_proc k))(0 := (proc_table (k_proc k) 0)\<lparr>ctxt := c\<rparr>)"
    using pid by (simp_all add: proc_store_ctxt_def)
  have "sched_inv ?e qs ?pl" using k(3) by (simp add: sched_inv_def queue_ok_def pids_def)
  moreover have "pids ?e qs = [0, 1, 2, 3]" using k(4) by (simp add: pids_def)
  ultimately have si: "sched_inv ?s qs ?pl" and ps: "pids ?s qs = [0, 1, 2, 3]" unfolding store_ctxt_sched .
  have pl: "?pl 0 = []" "?pl 1 = [n1]" and one: "exec_count (proc_table ?s 0) = 1"
    by (simp_all add: sk k(1) started_simps kernel_proc_def)
  have "space_node d (boot_tables (image env)) (kern (k_proc k)) cs n1" using proc_heapD(5) [OF k(2), of n1 1] by simp
  then obtain f f' where u: "?m (n1 + 4) = 895" "?m (n1 + 12) = f OR user_flags" "?m (?T + 4092) = f' OR user_flags"
      "(unat ?T, 4096) \<in> clients d cs []"
    by (auto simp: space_node_def)
  obtain e' where e': "proc_next ?s = Inr e'" "PID e' = 1" "\<forall>a. a \<notin> set qs \<longrightarrow> mem (kern e') a = ?m a"
      "\<forall>q. ctxt (proc_table e' q) = ctxt (proc_table ?s q)" "state (proc_table e' 1) = PROC_RUNNING"
      "page_dir (kern e') 895 = f OR user_flags" "page_table_lookup (kern e') 895 = ?T"
    using switch_to_first [OF si ps pl one] unfolding sk(1) u(1,2) by blast
  have ct: "ctxt (proc_table e' 1) = proc_start_ctxt (proc1_address env) 0xE0000000 (ctxt (t 1))" "ctxt (proc_table e' 0) = c"
    using e'(4) by (simp_all add: sk k(1) started_simps new_proc_def)
  have "unat ?T \<noteq> apic_page (image env)" using k(6) [of ?T] by (simp add: tables_entered_def)
  note ap = stack_entry_apart [OF k(2) u(4) k(5) this]
  have "lapic_reg (k_apic k) + apic_offset APIC_EOI = eoi_address env" by (simp add: k(7) eoi_address_def)
  from timer_interrupt_run [OF e'(1) this] obtain k' where k':
      "timer_interrupt c k = Inr (ctxt (proc_table e' (PID e')), k')" "k_proc k' = e'\<lparr>kern := wr (eoi_address env) 0 (kern e')\<rparr>"
      "tss_esp0 (TSS (k_gdt k')) = tss_esp0 (TSS (k_gdt k))"
    by blast
  have "page_get_entry (kern (k_proc k')) 0xDFFFF000 = f' OR user_flags"
    unfolding page_get_entry_def entry_addr_def page_get_table_def Let_def
    using ap e'(3) u(3) by (simp add: k'(2) page_get_dir_idx_def page_get_table_idx_def e'(7) eoi_address_def)
  then show ?thesis
    using k'(1,3) ct e'(2,5,6) by (intro exI [of _ k'] exI [of _ f] exI [of _ f']) (simp add: k'(2) page_get_dir_idx_def)
qed

section \<open>From the boot loader to the idle loop\<close>

lemma cursor_on_screen:
  assumes "row < (25 :: u32)" and "col < 80"
  shows "80 * row + col \<le> 2000"
proof -
  have r: "unat row < 25" "unat col < 80" using assms by (simp_all add: word_less_nat_alt)
  then have "unat (80 * row + col) = 80 * unat row + unat col"
    by (simp add: unat_word_ariths)
  then show ?thesis using r by (simp add: word_le_nat_alt)
qed

lemma boot_setup:
  assumes ok: "image_ok (image env)" and zero: "\<And>i. i < 2048 \<Longrightarrow> cell m (unat (init_page_struct_addr (image env)) + 4 * i) = 0"
    and low: "0x100000 \<le> unat (INIT_START (image env))" and few: "length (init_pages (image env)) \<le> 254"
    and screen: "iv_ok iv" "length (vga_cells v) = 2000" and bsp: "bit (msrs c IA32_APIC_BASE_MSR) 8"
    and ver: "version_apic (cpuid_version (cpuid_of env)) \<noteq> 0" "version_msr (cpuid_version (cpuid_of env)) \<noteq> 0"
    and procs: "\<And>q. page_tables (procs q) = 0 \<and> state (procs q) = PROC_DEAD"
  shows "\<exists>h k. init (image env) iv v c (init_start m) = Inr h \<and>
    kernel_setup (Suc depth) env (machine_start procs h) = Inr k \<and> kernel_ready env procs k"
proof -
  obtain b where b: "init_map_kernel (image env) (init_start m) = Inr b" "booted (image env) b"
    using init_map_kernel_booted [OF ok zero] by blast
  obtain h where h: "init (image env) iv v c (init_start m) = Inr h" by (simp add: init_def b(1) Let_def)
  have "vga_cells (ho_vga h) = vga_cells v" "vga_pos (ho_vga h) = 80 * iv_row iv + iv_col iv"
    "msrs (ho_cpu h) = msrs c" "ho_kern h = kernel_view (image env) b"
    using h by (auto simp: init_def b(1) Let_def vga_set_position_def vga_map_buffer_def VGA_constants init_vga_get_row_def
        init_vga_get_col_def set_sp_def page_enable_def page_load_dir_def set_cr3_def)
  then have "machine_ready env b (machine_start procs h)"
    unfolding machine_ready_def machine_start_def
    using procs bsp screen cursor_on_screen [of "iv_row iv" "iv_col iv"] by (simp add: vga_inv_def iv_ok_def VGA_constants)
  from setup_ok [OF b(2) low few this ver, of depth] show ?thesis using h by (auto simp: machine_start_def)
qed

end
