(* ===== verification/Kernel_Properties.thy ===== *)
theory Kernel_Properties
  imports Kernel_Run Setup_Properties Proc_Properties
begin

text \<open>
  What is shown of the kernel as a whole: its way from the boot loader to the idle loop, the interrupt
  controller and the processes it sets up on the way, and the timer interrupts that follow.
\<close>

section \<open>A concrete machine\<close>

definition demo_cpuid :: cpuid_insn where
  "demo_cpuid = (\<lambda>leaf. \<lparr>r_eax = 4, r_ebx = 0, r_ecx = 0, r_edx = 0x220\<rparr>)"

definition demo_platform :: platform where
  "demo_platform = \<lparr>image = demo_image, tss_address = 0xE0006000, gdt_address = 0xE0006100, idt_address = 0xE0007000,
     handler_address = (\<lambda>_. 0xE0001000), proc1_address = 0xE0002000, proc2_address = 0xE0002100, proc3_address = 0xE0002200,
     id_str_address = 0xE0008000, strings = (\<lambda>_. NUL), cpuid_of = demo_cpuid, stale_msr = 0\<rparr>"

definition demo_cpu :: cpu where
  "demo_cpu = cpu_reset\<lparr>msrs := (\<lambda>_. 0xFEE00900)\<rparr>"

definition demo_table :: "u16 \<Rightarrow> proc" where
  "demo_table = (\<lambda>_. demo_proc 0 PROC_DEAD 0 0)"

lemma demo_features:
  "version_apic (cpuid_version demo_cpuid) \<noteq> 0" "version_msr (cpuid_version demo_cpuid) \<noteq> 0" "bit (msrs demo_cpu i) 8"
proof -
  have "bit (0x220 :: u32) 9" "bit (0x220 :: u32) 5" "bit (0xFEE00900 :: u64) 8" by code_simp+
  then show "version_apic (cpuid_version demo_cpuid) \<noteq> 0" "version_msr (cpuid_version demo_cpuid) \<noteq> 0" "bit (msrs demo_cpu i) 8"
    unfolding feature_bits by (simp_all add: demo_cpuid_def cpuid_version_def demo_cpu_def)
qed

lemma demo_image_low: "0x100000 \<le> unat (INIT_START demo_image)" "length (init_pages demo_image) \<le> 254"
  unfolding demo_init_section demo_init_pages by simp_all

lemma demo_screens: "iv_ok (init_vga_start (replicate 2000 0))" "length (vga_cells (vga_start (replicate 2000 0))) = 2000"
  by (simp_all add: iv_ok_def init_vga_start_def vga_start_def)

lemma demo_dead: "page_tables (demo_table q) = 0 \<and> state (demo_table q) = PROC_DEAD"
  by (simp add: demo_table_def demo_proc_def)

lemma demo_boot:
  "\<exists>h k. init demo_image (init_vga_start (replicate 2000 0)) (vga_start (replicate 2000 0)) demo_cpu (init_start (\<lambda>_. 0)) = Inr h \<and>
    kernel_setup 1 demo_platform (machine_start demo_table h) = Inr k \<and> kernel_ready demo_platform demo_table k"
  using boot_setup [of demo_platform "\<lambda>_. 0", OF _ _ _ _ demo_screens demo_features(3) _ _ demo_dead, of 0]
    demo_image_ok demo_zero demo_image_low demo_features
  by (simp add: demo_platform_def)

section \<open>Booting\<close>

text \<open>C1. The kernel boots: from zeroed page tables, on a processor with a local interrupt controller,
  \<open>init\<close> and all of \<open>kernel_main\<close> before its idle loop succeed.  Then the run queue is 0, 1, 2, 3 with
  process 0 running; each test process has its start context, its quota and a page table of its own, which
  no other part of the kernel uses; the ring 0 stack of the task state segment is a page of the heap; the
  heap is well formed; and the timer's registers, mapped into the heap, hold their set-up.  The process
  table is assumed to be in zeroed memory, as the code never clears it.\<close>

theorem kernel_boots:
  assumes "image_ok (image env)" and "\<And>i. i < 2048 \<Longrightarrow> cell m (unat (init_page_struct_addr (image env)) + 4 * i) = 0"
    and "0x100000 \<le> unat (INIT_START (image env))" and "length (init_pages (image env)) \<le> 254"
    and "iv_ok iv" and "length (vga_cells v) = 2000" and "bit (msrs c IA32_APIC_BASE_MSR) 8"
    and "version_apic (cpuid_version (cpuid_of env)) \<noteq> 0" and "version_msr (cpuid_version (cpuid_of env)) \<noteq> 0"
    and "\<And>q. page_tables (procs q) = 0 \<and> state (procs q) = PROC_DEAD"
  shows "\<exists>h k. init (image env) iv v c (init_start m) = Inr h \<and>
    kernel_setup (Suc depth) env (machine_start procs h) = Inr k \<and> kernel_ready env procs k"
  by (rule boot_setup [OF assms])

theorem kernel_boots_witness:
  "\<exists>h k. init demo_image (init_vga_start (replicate 2000 0)) (vga_start (replicate 2000 0)) demo_cpu (init_start (\<lambda>_. 0)) = Inr h \<and>
    kernel_setup 1 demo_platform (machine_start demo_table h) = Inr k \<and> kernel_ready demo_platform demo_table k"
  using kernel_boots [of demo_platform "\<lambda>_. 0", OF _ _ _ _ demo_screens demo_features(3) _ _ demo_dead, of 0]
    demo_image_ok demo_zero demo_image_low demo_features
  by (simp add: demo_platform_def)

section \<open>The idle loop\<close>

text \<open>C2. The kernel never leaves its idle loop: whatever the number of timer interrupts and the contexts they
  interrupt, each of them succeeds, \<open>kernel_main\<close> is still waiting, and the scheduler is in order, with
  the four processes in the queue in their round-robin order.\<close>

theorem kernel_keeps_running:
  assumes "kernel_setup depth env k0 = Inr k" and "kernel_ready env t k"
  shows "\<exists>e. timer_run (eoi_address env) cs (k_proc k) = Inr e \<and>
    kernel_main depth env (map (timer_tick (eoi_address env)) cs) k0 = Idle (k\<lparr>k_cpu := sti (k_cpu k), k_proc := e\<rparr>) \<and>
    schedulable e \<and> proc_num e = 3 \<and> (\<exists>n. run_queue e = rotate n [0, 1, 2, 3])"
  by (rule main_idles [OF assms])

theorem kernel_keeps_running_witness:
  "\<exists>h k e. init demo_image (init_vga_start (replicate 2000 0)) (vga_start (replicate 2000 0)) demo_cpu (init_start (\<lambda>_. 0)) = Inr h \<and>
    kernel_main 1 demo_platform (map (timer_tick (eoi_address demo_platform)) (replicate 1000 zero_ctxt)) (machine_start demo_table h) =
      Idle (k\<lparr>k_cpu := sti (k_cpu k), k_proc := e\<rparr>) \<and> schedulable e \<and> proc_num e = 3"
proof -
  obtain h k where hk:
      "init demo_image (init_vga_start (replicate 2000 0)) (vga_start (replicate 2000 0)) demo_cpu (init_start (\<lambda>_. 0)) = Inr h"
      "kernel_setup 1 demo_platform (machine_start demo_table h) = Inr k" "kernel_ready demo_platform demo_table k"
    using demo_boot by blast
  from kernel_keeps_running [OF hk(2,3), of "replicate 1000 zero_ctxt"] show ?thesis using hk(1) by blast
qed

text \<open>C3. The first timer interrupt enters user mode: it saves the kernel's context as that of process 0 and
  resumes process 1 at its entry point, in ring 3, with its stack pointer at the kernel's base; the page below,
  the stack, is mapped for user mode with its page table in the directory; the ring 0 stack stays, and the
  interrupt is acknowledged.\<close>

theorem first_interrupt_enters_process:
  assumes "kernel_ready env t k"
  shows "\<exists>c' k' f f'. timer_interrupt c k = Inr (c', k') \<and>
    c_eip c' = proc1_address env \<and> c_cs c' = ucast GDT_SEL_CODE_PL3 \<and> c_ss c' = ucast GDT_SEL_DATA_PL3 \<and>
    c_esp c' = 0xE0000000 \<and> c_eflags c' = 0x3202 \<and>
    PID (k_proc k') = 1 \<and> ctxt (proc_table (k_proc k') 0) = c \<and> state (proc_table (k_proc k') 1) = PROC_RUNNING \<and>
    page_dir (kern (k_proc k')) (page_get_dir_idx 0xDFFFF000) = f OR user_flags \<and>
    page_get_entry (kern (k_proc k')) 0xDFFFF000 = f' OR user_flags \<and> tss_esp0 (TSS (k_gdt k')) = tss_esp0 (TSS (k_gdt k)) \<and>
    mem (kern (k_proc k')) (eoi_address env) = 0"
proof -
  obtain k' f f' where k: "timer_interrupt c k = Inr (proc_start_ctxt (proc1_address env) 0xE0000000 (ctxt (t 1)), k')"
      "PID (k_proc k') = 1" "ctxt (proc_table (k_proc k') 0) = c" "state (proc_table (k_proc k') 1) = PROC_RUNNING"
      "page_dir (kern (k_proc k')) (page_get_dir_idx 0xDFFFF000) = f OR user_flags"
      "page_get_entry (kern (k_proc k')) 0xDFFFF000 = f' OR user_flags" "tss_esp0 (TSS (k_gdt k')) = tss_esp0 (TSS (k_gdt k))"
      "mem (kern (k_proc k')) (eoi_address env) = 0"
    using first_interrupt [OF assms, of c] by blast
  then show ?thesis
    by (intro exI [of _ "proc_start_ctxt (proc1_address env) 0xE0000000 (ctxt (t 1))"] exI [of _ k'] exI [of _ f] exI [of _ f'])
       (simp add: proc_start_ctxt_def)
qed

theorem first_interrupt_enters_process_witness:
  "\<exists>k c' k'. timer_interrupt zero_ctxt k = Inr (c', k') \<and> c_eip c' = 0xE0002000 \<and> PID (k_proc k') = 1"
proof -
  obtain k where "kernel_ready demo_platform demo_table k" using demo_boot by blast
  from first_interrupt_enters_process [OF this, of zero_ctxt] show ?thesis by (auto simp: demo_platform_def)
qed

section \<open>The interrupt controller\<close>

text \<open>A kernel heap that has just been set up, for the two theorems that follow.\<close>

lemma demo_heap:
  "\<exists>s d cs ps. mem_ok s d TOP {} cs ps \<and> 4096 dvd d \<and> 0xE0006000 \<le> d \<and> d + 0x100000 \<le> 0xE0400000 \<and> total cs = 0 \<and> ps = [] \<and>
     first_tables s d \<and> get_page_first_run s"
proof -
  obtain b where b: "booted demo_image b" using demo_booted by blast
  let ?d = "unat (BSS_END_VMA demo_image) + 0x6000"
  obtain s where s: "cleared s ?d TOP [] {} s" "first_tables s ?d" "get_page_first_run s" using cleanup_init [OF b refl, of 0] by blast
  obtain cs ps where k: "mem_ok s ?d TOP {} cs ps" "total cs \<le> 16 * length ([] :: nat list)" "length ps = length ([] :: nat list)"
    using s(1) by (rule clearedE) blast
  have "BSS_END_VMA demo_image = 0xE000A000"
    by (simp add: demo_image_def link_def demo_contents_def align_4k_def Let_def)
  then show ?thesis using k s(2,3) by (intro exI [of _ s] exI [of _ ?d] exI [of _ cs] exI [of _ ps]) (simp add: first_tables_def)
qed



section \<open>The processes\<close>

text \<open>C12. \<open>proc_init\<close> on any well formed heap with at most 1535 free pages, over a process table in zeroed
  memory: the kernel is process 0 and runs, the test processes are 1, 2 and 3, and the queue has them in this
  order; each test process starts at its entry point with its own quota, and has one page table node whose
  table is a new block of the heap, no two alike; the ring 0 stack is another new page; every block that was
  live keeps its contents.\<close>

theorem proc_init_correct:
  assumes "mem_ok (kern e) d L tb cs ps" and "length ps \<le> 1535" and "total cs < 0x600000" and "(d + total cs) mod 4096 < 4000"
    and "d + total cs + 0x610000 \<le> L" and "KERNEL_START_VMA l = 0xE0000000"
    and "\<And>q. page_tables (proc_table e q) = 0" and "\<And>q. state (proc_table e q) = PROC_DEAD"
    and "next_pid e = 0" and "PID e = 0" and "proc_num e = 0"
  shows "\<exists>e' n1 n2 n3 A cs'. proc_init (Suc depth) l f1 f2 f3 e = Inr e' \<and>
    schedulable e' \<and> run_queue e' = [0, 1, 2, 3] \<and> proc_num e' = 3 \<and> PID e' = 0 \<and>
    proc_table e' = (proc_table e)(0 := kernel_proc (proc_table e 0), 1 := new_proc f1 0xE0000000 30 n1 (proc_table e 1),
      2 := new_proc f2 0xE0000000 10 n2 (proc_table e 2), 3 := new_proc f3 0xE0000000 10 n3 (proc_table e 3)) \<and>
    mem_ok (kern e') d L tb cs' [] \<and> clients d cs ps \<subseteq> clients d cs' [] \<and>
    keeps {} (clients d cs ps - table_blocks tb) (mem (kern e)) (mem (kern e')) \<and>
    TSS_esp0 e' = word_of_nat A + 4096 \<and> (A, 4096) \<in> clients d cs' [] - clients d cs ps \<and>
    (\<forall>n\<in>{n1, n2, n3}. space_node d tb (kern e') cs' n) \<and> distinct (tables_entered (kern e') [n1, n2, n3]) \<and>
    (\<forall>T\<in>set (tables_entered (kern e') [n1, n2, n3]). (unat T, 4096) \<notin> clients d cs ps \<and> unat T \<noteq> A)"
proof -
  let ?pl = "\<lambda>n1 n2 n3. (\<lambda>_. [])(1 := [n1], 2 := [n2], 3 := [n3]) :: u16 \<Rightarrow> u32 list"
  obtain e' qs n1 n2 n3 A cs' where p: "proc_init (Suc depth) l f1 f2 f3 e = Inr e'"
      "sched_inv e' qs (?pl n1 n2 n3)" "pids e' qs = [0, 1, 2, 3]" "schedulable e'" "run_queue e' = [0, 1, 2, 3]" "proc_num e' = 3"
      "PID e' = 0" "proc_table e' = started_table f1 f2 f3 n1 n2 n3 (proc_table e)"
      "proc_heap d L tb e' cs' qs (?pl n1 n2 n3)" "clients d cs ps \<subseteq> clients d cs' []"
      "keeps {} (clients d cs ps - table_blocks tb) (mem (kern e)) (mem (kern e'))" "page_env (kern e) (kern e')"
      "TSS_esp0 e' = word_of_nat A + 4096" "(A, 4096) \<in> clients d cs' [] - clients d cs ps"
      "distinct (tables_entered (kern e') [n1, n2, n3])"
      "\<forall>T\<in>set (tables_entered (kern e') [n1, n2, n3]). (unat T, 4096) \<notin> clients d cs ps \<and> unat T \<noteq> A"
    using proc_init_ok [OF assms, of depth f1 f2 f3] by (elim exE conjE) (rule that)
  have nodes: "\<forall>n\<in>{n1, n2, n3}. space_node d tb (kern e') cs' n"
    using proc_heapD(5) [OF p(9), of n1 1] proc_heapD(5) [OF p(9), of n2 2] proc_heapD(5) [OF p(9), of n3 3] by simp
  show ?thesis
    by (intro exI [of _ e'] exI [of _ n1] exI [of _ n2] exI [of _ n3] exI [of _ A] exI [of _ cs'] conjI
        p(1,4-7,10,11,13-16) p(8) [unfolded started_table_def] proc_heapD(1) [OF p(9)] nodes)
qed

theorem proc_init_correct_witness:
  "\<exists>e e'. proc_init 1 demo_image 0xE0002000 0xE0002100 0xE0002200 e = Inr e' \<and> run_queue e' = [0, 1, 2, 3] \<and> schedulable e'"
proof -
  obtain s d cs ps where k: "mem_ok s d TOP {} cs ps" "4096 dvd d" "d + 0x100000 \<le> 0xE0400000" "total cs = 0" "ps = []"
    using demo_heap by blast
  let ?e = "\<lparr>kern = s, proc_table = demo_table, proc_num = 0, PID = 0, proc_queue_start = 0, proc_queue_end = 0, next_pid = 0,
    TSS_esp0 = 0\<rparr>"
  have h: "mem_ok (kern ?e) d TOP {} cs ps" "length ps \<le> 1535" "total cs < 0x600000" "(d + total cs) mod 4096 < 4000"
    "d + total cs + 0x610000 \<le> TOP" "KERNEL_START_VMA demo_image = 0xE0000000"
    using k demo_image_ok by (simp_all add: TOP_def image_ok_def)
  have t: "page_tables (proc_table ?e q) = 0" "state (proc_table ?e q) = PROC_DEAD" for q using demo_dead [of q] by simp_all
  have i: "next_pid ?e = 0" "PID ?e = 0" "proc_num ?e = 0" by simp_all
  from proc_init_correct [OF h t i, of 0 "0xE0002000" "0xE0002100" "0xE0002200"] show ?thesis unfolding One_nat_def by blast
qed

end
