(* ===== verification/Spec2Isabelle.thy ===== *)
theory Spec2Isabelle
  imports Print_Properties Heap_Properties Proc_Properties Machine_Properties Boot_Properties Setup_Properties Kernel_Properties
begin

text \<open>
  TrashOS is a small kernel for 32-bit x86; its code is under \<open>src/kernel/arch/i386\<close>.  It boots with
  paging off, builds an initial page map (\<open>init.c\<close>), then runs \<open>kernel_main\<close> (\<open>kernel.c\<close>), which sets up
  the segment table (\<open>gdt.c\<close>), the interrupt table (\<open>int.c\<close>), the page allocator and the heap (\<open>page.c\<close>,
  \<open>alloc.c\<close>), the interrupt controllers (\<open>apic.c\<close>) and the processes (\<open>proc.c\<close>), and goes on as the
  idle process.  Everything reports through \<open>printk\<close> (\<open>_print.c\<close>, \<open>math.h\<close>), which writes to the text
  screen (\<open>vga.c\<close>).

  \<^bold>\<open>The parts and their theories.\<close>

  \<^item> \<open>Prelude\<close>: words, results (\<open>rbind\<close> on a sum, \<open>Inl\<close> an error), the C \<open>for\<close> loop on 32-bit counters,
    \<open>align\<close> of \<open>mem.h\<close>.  \<open>Bitfield\<close>: the bit fields of C structs as layouts of named fields.
  \<^item> \<open>Arith\<close> (\<open>math.h\<close>): the table of powers, \<open>ilog10u\<close>, \<open>ilog2u\<close>, \<open>div64\<close>.
  \<^item> \<open>Printf\<close> (\<open>_print.c\<close>): the format parser, one function for every printer, \<open>print_format\<close> for the
    \<open>switch\<close> of \<open>_print_format\<close>, \<open>print_loop\<close> for \<open>_print\<close>.  \<open>Printf_Digits\<close>, \<open>Printf_Spec\<close> and
    \<open>Printf_Correct\<close> give formats a meaning in ordinary arithmetic and show that the code computes it;
    \<open>Messages\<close> says which messages have a text, and that a driver shows it.
  \<^item> \<open>Console\<close>: what \<open>printk\<close> needs of a driver, as locale \<open>console\<close>, and \<open>printk\<close> on any driver.
    \<open>Vga\<close> (\<open>vga.c\<close>, \<open>vga.h\<close>, \<open>string.h\<close>) and \<open>Init_Vga\<close> (\<open>init_vga.c\<close>) are the two drivers;
    \<open>Vga_Correct\<close> and \<open>Init_Vga\<close> interpret the locale on them.
  \<^item> \<open>Cpu\<close> (\<open>asm.h\<close>, \<open>io.h\<close> and the wrappers in \<open>page.h\<close>) and \<open>Cpuid\<close> (\<open>cpuid.h\<close>): the registers, the
    translation cache and the ports, and what each wrapped instruction does to them.
  \<^item> \<open>Memory_Map\<close> (\<open>mem.h\<close>, \<open>kernel.ld\<close>): the symbols of the linker and the layout \<open>link\<close> gives an image;
    \<open>image_ok\<close> is what the boot code relies on, and every linked image of the right size has it.
  \<^item> \<open>Paging\<close> (\<open>page.c\<close>, \<open>page.h\<close>): the state \<open>kstate\<close> shared by the pager and the heap, and the
    operations on page tables.
  \<^item> \<open>Alloc\<close> (\<open>alloc.c\<close>, \<open>alloc.h\<close>, and \<open>page_new\<close>, \<open>page_free\<close>, \<open>page_init_cleanup\<close> of \<open>page.c\<close>), and
    its self test \<open>Heap_Test\<close>.
    The invariant is built up in \<open>Heap_Layout\<close> (chunks and descriptors in memory), \<open>Heap_List\<close> (the
    doubly linked free list), \<open>Heap_Ops\<close> and \<open>Heap_Pool\<close> (the free page list, and the frames in the order
    they are handed out); \<open>Heap_Free\<close>, \<open>Heap_Split\<close>, \<open>Heap_Alloc\<close> and \<open>Heap_Grow\<close>
    show one operation each, \<open>Heap_Correct\<close> the specification \<open>grants\<close> and \<open>alloc\<close> on every page source
    (locale \<open>page_source\<close>, interpreted on \<open>page_new\<close> and on the source of \<open>apic.c\<close>), \<open>Heap_Client\<close> and
    \<open>Heap_Aligned\<close> the calls that clients make.  \<open>Kernel_Memory\<close> adds where page tables lie: with
    \<open>mem_ok\<close> the calls need no more than room, and pages can be given back with \<open>page_free\<close>.
  \<^item> \<open>Gdt\<close> (\<open>gdt.c\<close>, \<open>gdt.h\<close>) and \<open>Interrupts\<close> (\<open>int.c\<close>, \<open>int.h\<close>).
  \<^item> \<open>Apic\<close> (\<open>apic.c\<close>, \<open>apic.h\<close>); \<open>Apic_Correct\<close> follows \<open>apic_init\<close> on the kernel's memory.
  \<^item> \<open>Proc\<close> (\<open>proc.c\<close>, \<open>proc.h\<close>, \<open>int_asm.s\<close>): process table, run queue, time slices, memory maps;
    \<open>Proc_Info\<close>: the dumps, the test processes and the idle loop \<open>proc_loop\<close>.
    \<open>Proc_Correct\<close> has the invariant, \<open>Time_Slices\<close> the promise of a time slice scheduler as a locale,
    \<open>Proc_Schedule\<close> its interpretation on \<open>proc_next\<close>, \<open>Proc_Queue\<close> the growth of the queue.
    \<open>Proc_Init\<close> is \<open>proc_register\<close> on the kernel's memory, \<open>Proc_Boot\<close> the whole of \<open>proc_init\<close>.
  \<^item> \<open>Init_Map\<close> (\<open>init.c\<close>): the first page map, on physical memory, and the hand over to the kernel.
    \<open>Init_Map_Correct\<close> shows what the processor finds in it, \<open>Boot_View\<close> that the pager finds the same,
    \<open>Boot_Cleanup\<close> follows \<open>page_init_cleanup\<close> from there.
  \<^item> \<open>Kernel\<close> (\<open>kernel.c\<close>, \<open>int_asm.s\<close>): the parts put together as one \<open>machine\<close>, \<open>kernel_main\<close> and the
    timer interrupt on it.  \<open>Kernel_Boot\<close> composes the set-up of all parts, \<open>Timer_Ticks\<close> and
    \<open>Kernel_Run\<close> any number of timer interrupts after it.

  The properties are in \<open>Print_Properties\<close>, \<open>Heap_Properties\<close>, \<open>Proc_Properties\<close>,
  \<open>Machine_Properties\<close>, \<open>Boot_Properties\<close>, \<open>Setup_Properties\<close> and \<open>Kernel_Properties\<close>, each with the
  concrete states that instantiate it.

  \<^bold>\<open>How the state corresponds to the code.\<close>  Kernel memory is a map from 32-bit addresses to 32-bit
  cells; every access of the modelled code is 4-aligned, except the 16-bit process ID of a queue node,
  which is the low half of its cell.  Linked structures (the free list, chunk descriptors, page tables,
  the run queue, the page tables of a process, the registers of the interrupt controller) live in that
  memory at the offsets the C structs have.
  Static variables are fields of records.  The page directory, the lookup table, the process table and
  the screen buffer are fields of their own, since nothing else is placed in their pages.  Before paging
  is on, memory is physical: \<open>walk\<close> is the processor's translation, and \<open>kernel_view\<close> reads the finished
  map through it.  From then on what the
  processor does by itself (faults, the translation of data accesses) is not state; whether an
  address is mapped is what its page table entry says.  Interrupts are arguments: the contexts they
  interrupt, in order.

  \<^bold>\<open>Errors, bounds and fuel.\<close>  \<open>die()\<close>, a loop that does not end, an access outside a table and behaviour
  the C standard leaves open are values of the result.  Loops that can run for ever are
  \<open>partial_function (option)\<close>, with \<open>None\<close> for not returning, and the theorems show that they return.
  The calls \<open>alloc\<close>, \<open>page_new\<close>, \<open>kfree\<close>, \<open>page_free\<close>, \<open>kmalloc\<close> form a cycle; it is tied with a bound on
  the nesting of \<open>page_new\<close>, and \<open>Too_deep\<close> is a result of its own.  One level suffices whatever the free
  page list (hence \<open>Suc depth\<close> in the theorems), because taking a page off the list frees a node within
  the heap and gives no page back; with an empty list none is needed.

  \<^bold>\<open>What the theorems show.\<close>  The kernel as a whole: it boots from the boot loader's state to its idle
  loop, the first timer interrupt enters user mode, and however many follow it stays in the loop and keeps
  scheduling its processes.  The boot map and its clean-up: the entry of every page, the frames that are
  reused, the page tables that are added.  The heap: every call keeps the chain of descriptors, the free list and the
  coalescing of free chunks, hands out disjoint blocks and keeps their contents.  The scheduler: an
  invariant, bounded waiting, fair rounds, memory maps and contexts across switches.  \<open>printk\<close>: the
  text and count of every format with a defined meaning, on both screens.  Page tables, segments and
  gates: what the processor reads is what was asked for.  Where the code does not do what it means to,
  a theorem says what it does instead: \<open>kfree\<close> across a page boundary, huge requests, \<open>div64\<close>, the
  count of \<open>%p\<close>, a full process table.

  \<^bold>\<open>What they assume.\<close>  An image as the linker script lays it out, with the init section at or above
  1 MiB and at most 254 pages to give back (at 255 the gap before the first page table is too small and the
  kernel dies); a bootstrap processor with a local interrupt controller and
  model specific registers; tables and a process table in zeroed memory, which the code relies on.

  \<^bold>\<open>Not modelled.\<close>  The assembly that runs before \<open>init\<close> (\<open>boot.s\<close>, \<open>multiboot2.s\<close>): a header for the
  boot loader and the set-up of the first stack.  The bytes of the process table in the heap (it is a map of
  its own), and the timing of interrupts.
\<close>

end
